(* ===== verification/Prelude.thy ===== *)
theory Prelude
  imports Main "HOL-Library.Word"
begin

text \<open>
  Shared vocabulary of the development: results as sums (\<open>Inl\<close> the error, \<open>Inr\<close> the value) with
  their bind, the checked integer arithmetic of Rust built with overflow checks, and sums over
  finite maps (balances, stakes).
\<close>

named_theorems rbind_simps \<open>inversion of successful runs\<close>

section \<open>Results\<close>

text \<open>The \<open>?\<close> operator: stop at the first error, else go on with the value.\<close>

definition rbind :: "'e + 'a \<Rightarrow> ('a \<Rightarrow> 'e + 'b) \<Rightarrow> 'e + 'b" where
  "rbind m f = (case m of Inl e \<Rightarrow> Inl e | Inr x \<Rightarrow> f x)"

lemma rbind_Inl [simp]: "rbind (Inl e) f = Inl e"
  by (simp add: rbind_def)

lemma rbind_Inr [simp]: "rbind (Inr x) f = f x"
  by (simp add: rbind_def)

lemma rbind_eq_Inr [rbind_simps]:
  "rbind m f = Inr y \<longleftrightarrow> (\<exists>x. m = Inr x \<and> f x = Inr y)"
  by (cases m) auto

lemma rbind_eq_Inl:
  "rbind m f = Inl e \<longleftrightarrow> m = Inl e \<or> (\<exists>x. m = Inr x \<and> f x = Inl e)"
  by (cases m) auto

text \<open>\<open>map_err\<close>: translate the error, keep the value.\<close>

definition map_err :: "('e \<Rightarrow> 'f) \<Rightarrow> 'e + 'a \<Rightarrow> 'f + 'a" where
  "map_err g m = (case m of Inl e \<Rightarrow> Inl (g e) | Inr x \<Rightarrow> Inr x)"

lemma map_err_simps [simp]:
  "map_err g (Inl e) = Inl (g e)"
  "map_err g (Inr x) = Inr x"
  by (simp_all add: map_err_def)

lemma map_err_eq_Inr [rbind_simps]: "map_err g m = Inr x \<longleftrightarrow> m = Inr x"
  by (cases m) auto

definition is_ok :: "'e + 'a \<Rightarrow> bool" where
  "is_ok m = (case m of Inl _ \<Rightarrow> False | Inr _ \<Rightarrow> True)"

lemma is_ok_simps [simp]: "is_ok (Inl e) = False" "is_ok (Inr x) = True"
  by (simp_all add: is_ok_def)

lemma is_ok_iff: "is_ok m \<longleftrightarrow> (\<exists>x. m = Inr x)"
  by (cases m) auto

text \<open>\<open>ok_or\<close>: an absent value is an error.\<close>

definition ok_or :: "'e \<Rightarrow> 'a option \<Rightarrow> 'e + 'a" where
  "ok_or e m = (case m of None \<Rightarrow> Inl e | Some x \<Rightarrow> Inr x)"

lemma ok_or_simps [simp]: "ok_or e None = Inl e" "ok_or e (Some x) = Inr x"
  by (simp_all add: ok_or_def)

lemma ok_or_eq_Inr [rbind_simps]: "ok_or e m = Inr x \<longleftrightarrow> m = Some x"
  by (cases m) auto

section \<open>Checked machine arithmetic\<close>

definition i128_min :: int where "i128_min = - (2 ^ 127)"
definition i128_max :: int where "i128_max = 2 ^ 127 - 1"
definition u32_max :: nat where "u32_max = 2 ^ 32 - 1"

definition in_i128 :: "int \<Rightarrow> bool" where
  "in_i128 n \<longleftrightarrow> i128_min \<le> n \<and> n \<le> i128_max"

definition chk_i128 :: "'e \<Rightarrow> int \<Rightarrow> 'e + int" where
  "chk_i128 e n = (if in_i128 n then Inr n else Inl e)"

definition chk_u32 :: "'e \<Rightarrow> nat \<Rightarrow> 'e + nat" where
  "chk_u32 e n = (if n \<le> u32_max then Inr n else Inl e)"

lemma chk_i128_eq_Inr [rbind_simps]: "chk_i128 e n = Inr m \<longleftrightarrow> in_i128 n \<and> m = n"
  by (auto simp: chk_i128_def)

lemma chk_u32_eq_Inr [rbind_simps]: "chk_u32 e n = Inr m \<longleftrightarrow> n \<le> u32_max \<and> m = n"
  by (auto simp: chk_u32_def)

lemma chk_i128_ok [simp]: "in_i128 n \<Longrightarrow> chk_i128 e n = Inr n"
  by (simp add: chk_i128_def)

lemma chk_u32_ok [simp]: "n \<le> u32_max \<Longrightarrow> chk_u32 e n = Inr n"
  by (simp add: chk_u32_def)

lemma in_i128_mono: "in_i128 b \<Longrightarrow> 0 \<le> a \<Longrightarrow> a \<le> b \<Longrightarrow> in_i128 a"
  by (auto simp: in_i128_def i128_min_def)

lemma in_i128_nonneg: "0 \<le> a \<Longrightarrow> in_i128 a \<longleftrightarrow> a \<le> i128_max"
  by (auto simp: in_i128_def i128_min_def)

lemma in_i128_neg_diff: "0 \<le> a \<Longrightarrow> in_i128 a \<Longrightarrow> 0 \<le> b \<Longrightarrow> in_i128 b \<Longrightarrow> in_i128 (a - b)"
  by (auto simp: in_i128_def i128_min_def i128_max_def)

section \<open>Sums over finite maps\<close>

text \<open>A missing key counts as zero, as a missing storage entry reads.\<close>

definition mget :: "('k \<rightharpoonup> int) \<Rightarrow> 'k \<Rightarrow> int" where
  "mget m k = (case m k of None \<Rightarrow> 0 | Some v \<Rightarrow> v)"

definition msum :: "('k \<rightharpoonup> int) \<Rightarrow> int" where
  "msum m = (\<Sum>k \<in> dom m. mget m k)"

lemma mget_upd [simp]: "mget (m(k \<mapsto> v)) k' = (if k' = k then v else mget m k')"
  by (simp add: mget_def)

lemma mget_empty [simp]: "mget Map.empty k = 0"
  by (simp add: mget_def)

lemma msum_empty [simp]: "msum Map.empty = 0"
  by (simp add: msum_def)

lemma msum_remove:
  assumes "finite (dom m)"
  shows "msum m = mget m k + (\<Sum>x \<in> dom m - {k}. mget m x)"
proof (cases "k \<in> dom m")
  case True
  with assms show ?thesis by (simp add: msum_def sum.remove)
next
  case False
  then have "mget m k = 0" by (simp add: mget_def domIff)
  with False show ?thesis by (simp add: msum_def)
qed

lemma msum_upd [simp]:
  assumes "finite (dom m)"
  shows "msum (m(k \<mapsto> v)) = msum m - mget m k + v"
proof -
  have "msum (m(k \<mapsto> v)) = v + (\<Sum>x \<in> dom m - {k}. mget (m(k \<mapsto> v)) x)"
    using msum_remove [of "m(k \<mapsto> v)" k] assms by simp
  also have "(\<Sum>x \<in> dom m - {k}. mget (m(k \<mapsto> v)) x) = (\<Sum>x \<in> dom m - {k}. mget m x)"
    by (rule sum.cong) auto
  finally show ?thesis using msum_remove [OF assms, of k] by linarith
qed

lemma msum_nonneg: "(\<And>k. 0 \<le> mget m k) \<Longrightarrow> 0 \<le> msum m"
  by (simp add: msum_def sum_nonneg)

lemma mget_le_msum:
  assumes "finite (dom m)" and "\<And>k. 0 \<le> mget m k"
  shows "mget m k \<le> msum m"
  using msum_remove [OF assms(1), of k] assms(2) by (simp add: sum_nonneg)

section \<open>Lists\<close>

lemma count_list_append [simp]: "count_list (xs @ ys) a = count_list xs a + count_list ys a"
  by (induction xs) auto

lemma count_list_le_length: "count_list xs a \<le> length xs"
  by (induction xs) auto

text \<open>Two elements cannot both hold a strict majority of the same list.\<close>

lemma count_list_two:
  assumes "a \<noteq> b"
  shows "count_list xs a + count_list xs b \<le> length xs"
  using assms by (induction xs) auto

lemma strict_majority_unique:
  assumes "length xs < 2 * count_list xs a" and "length xs < 2 * count_list xs b"
  shows "a = b"
  using count_list_two [of a b xs] assms by (cases "a = b") auto

end
