(* ===== verification/SorobanHost.thy ===== *)
theory SorobanHost
  imports Prelude
begin

text \<open>
  What the contracts see of the Soroban host: who authorized the call, the ledger sequence, the
  running contract's own address, and the ways a call can trap. Storage is part of each contract's
  own state. A call that returns an error or traps leaves no trace: the host rolls the whole
  invocation back, so failures carry no state. Rent (\<open>extend_ttl\<close> on instance and persistent
  entries) changes no value and no outcome and is left out; on temporary entries the host can
  refuse an extension, which \<open>ttl_ok\<close> answers.
\<close>

type_synonym address = nat
type_synonym hash32 = "256 word"

datatype trap =
    AuthFailed address
  | NegativeAmount
  | InsufficientBalance
  | InsufficientAllowance
  | LiveUntilInPast
  | TtlRefused
  | Overflow
  | NoAdmin
  | NoMetadata
  | DecimalTooLarge
  | NoSuchContract address

text \<open>The environment of one contract invocation.\<close>

record ctx =
  ledger_seq :: nat
  authorized :: "address \<Rightarrow> bool"
  self :: address
  ttl_ok :: "nat \<Rightarrow> bool"

definition require_auth :: "ctx \<Rightarrow> address \<Rightarrow> trap + unit" where
  "require_auth env a = (if authorized env a then Inr () else Inl (AuthFailed a))"

lemma require_auth_eq_Inr [rbind_simps]: "require_auth env a = Inr u \<longleftrightarrow> authorized env a"
  by (simp add: require_auth_def)

lemma require_auth_ok [simp]: "authorized env a \<Longrightarrow> require_auth env a = Inr ()"
  by (simp add: require_auth_def)

text \<open>
  The environment of a call made by the running contract to another contract: the caller is
  authorized as the direct invoker, and the signatures of the transaction still count.
\<close>

definition subcall :: "ctx \<Rightarrow> address \<Rightarrow> ctx" where
  "subcall env callee =
     env\<lparr>self := callee, authorized := (\<lambda>a. a = self env \<or> authorized env a)\<rparr>"

lemma subcall_simps [simp]:
  "ledger_seq (subcall env c) = ledger_seq env"
  "authorized (subcall env c) a \<longleftrightarrow> a = self env \<or> authorized env a"
  "self (subcall env c) = c"
  "ttl_ok (subcall env c) = ttl_ok env"
  by (simp_all add: subcall_def)

end
