(* ===== verification/Tally.thy ===== *)
theory Tally
  imports SorobanHost
begin

text \<open>
  The registry's data types (\<open>contracts/registry/src/lib.rs\<close>) and its vote count \<open>tally_of\<close>, the
  doubly nested loop over a claim's attestations, with its correctness against counting
  multiplicities.
\<close>

section \<open>Data\<close>

datatype reg_error =
    InvalidAmount
  | NotActive
  | WindowClosed
  | AlreadyAttested
  | InsufficientStake
  | NothingToWithdraw
  | StillUnbonding
  | ClaimNotDecided
  | NotAttested
  | NotDissenter
  | AlreadySlashed
  | NothingToSlash
  | InvalidConfig

fun error_code :: "reg_error \<Rightarrow> nat" where
  "error_code InvalidAmount = 1"
| "error_code NotActive = 2"
| "error_code WindowClosed = 3"
| "error_code AlreadyAttested = 4"
| "error_code InsufficientStake = 5"
| "error_code NothingToWithdraw = 6"
| "error_code StillUnbonding = 7"
| "error_code ClaimNotDecided = 8"
| "error_code NotAttested = 9"
| "error_code NotDissenter = 10"
| "error_code AlreadySlashed = 11"
| "error_code NothingToSlash = 12"
| "error_code InvalidConfig = 13"

lemma error_code_inj: "error_code e = error_code e' \<Longrightarrow> e = e'"
  by (cases e; cases e') simp_all

record attestation =
  at_verifier :: address
  at_rebuilt :: hash32
  at_ledger :: nat

record tally =
  tl_total :: nat
  tl_top_count :: nat
  tl_distinct :: nat

datatype consensus =
    NoClaim
  | Open tally
  | Insufficient tally
  | Verified
  | Mismatch
  | Disputed tally

section \<open>The loops\<close>

text \<open>
  The inner loop over \<open>j\<close>: how many attestations hold \<open>hash\<close>, and whether \<open>i\<close> is its first
  holder.
\<close>

definition tally_inner :: "attestation list \<Rightarrow> hash32 \<Rightarrow> nat \<Rightarrow> nat \<times> bool" where
  "tally_inner atts hash i =
     foldl (\<lambda>(count, first_seen) j.
              if at_rebuilt (atts ! j) = hash
              then (count + 1, if j < i then False else first_seen)
              else (count, first_seen))
       (0, True) [0..<length atts]"

definition tally_outer ::
  "attestation list \<Rightarrow> hash32 \<times> nat \<times> nat \<Rightarrow> nat \<Rightarrow> hash32 \<times> nat \<times> nat" where
  "tally_outer atts = (\<lambda>(top, top_count, distinct) i.
     let hash = at_rebuilt (atts ! i);
         (count, first_seen) = tally_inner atts hash i;
         distinct' = (if first_seen then distinct + 1 else distinct)
     in if top_count < count then (hash, count, distinct') else (top, top_count, distinct'))"

definition tally_of :: "attestation list \<Rightarrow> hash32 \<times> tally" where
  "tally_of atts =
     (let (top, top_count, distinct) = foldl (tally_outer atts) (0, 0, 0) [0..<length atts]
      in (top, \<lparr>tl_total = length atts, tl_top_count = top_count, tl_distinct = distinct\<rparr>))"

section \<open>Correctness\<close>

definition hashes :: "attestation list \<Rightarrow> hash32 list" where
  "hashes atts = map at_rebuilt atts"

lemma length_hashes [simp]: "length (hashes atts) = length atts"
  by (simp add: hashes_def)

lemma hashes_nth: "i < length atts \<Longrightarrow> hashes atts ! i = at_rebuilt (atts ! i)"
  by (simp add: hashes_def)

lemma tally_inner_prefix:
  assumes "n \<le> length atts"
  shows "foldl (\<lambda>(count, first_seen) j.
              if at_rebuilt (atts ! j) = hash
              then (count + 1, if j < i then False else first_seen)
              else (count, first_seen)) (0, True) [0..<n] =
    (count_list (take n (hashes atts)) hash, hash \<notin> set (take (min n i) (hashes atts)))"
  using assms
proof (induction n)
  case 0
  then show ?case by simp
next
  case (Suc n)
  then have n: "n < length (hashes atts)" by simp
  have "take (min (Suc n) i) (hashes atts) =
      (if n < i then take n (hashes atts) @ [hashes atts ! n] else take (min n i) (hashes atts))"
    using n by (simp add: take_Suc_conv_app_nth min_def)
  with Suc n show ?case
    by (auto simp: take_Suc_conv_app_nth hashes_nth min_def)
qed

lemma tally_inner_correct:
  assumes "i \<le> length atts"
  shows "tally_inner atts hash i =
    (count_list (hashes atts) hash, hash \<notin> set (take i (hashes atts)))"
  using tally_inner_prefix [of "length atts" atts hash i] assms
  by (simp add: tally_inner_def min_def)

text \<open>
  The loop invariant after \<open>n\<close> rounds: the number of distinct hashes so far, the largest
  multiplicity among them, and a hash that attains it.
\<close>

definition tally_inv :: "attestation list \<Rightarrow> nat \<Rightarrow> hash32 \<times> nat \<times> nat \<Rightarrow> bool" where
  "tally_inv atts n = (\<lambda>(mx, top_count, distinct).
     distinct = card (set (take n (hashes atts))) \<and>
     (\<forall>h \<in> set (take n (hashes atts)). count_list (hashes atts) h \<le> top_count) \<and>
     (if n = 0 then mx = 0 \<and> top_count = 0
      else mx \<in> set (take n (hashes atts)) \<and> top_count = count_list (hashes atts) mx))"

lemma count_list_pos: "h \<in> set hs \<Longrightarrow> 0 < count_list hs h"
  by (induction hs) auto

lemma tally_outer_inv:
  assumes "n < length atts" and "tally_inv atts n s"
  shows "tally_inv atts (Suc n) (tally_outer atts s n)"
proof -
  obtain mx tc d where s: "s = (mx, tc, d)" by (cases s)
  let ?h = "at_rebuilt (atts ! n)" and ?pre = "take n (hashes atts)"
  have tk: "take (Suc n) (hashes atts) = ?pre @ [?h]"
    using assms(1) by (simp add: take_Suc_conv_app_nth hashes_nth)
  have tkset: "set (take (Suc n) (hashes atts)) = insert ?h (set ?pre)" by (simp add: tk)
  have inn: "tally_inner atts ?h n = (count_list (hashes atts) ?h, ?h \<notin> set ?pre)"
    using assms(1) by (simp add: tally_inner_correct)
  have pos: "0 < count_list (hashes atts) ?h"
    using assms(1) by (intro count_list_pos) (simp add: hashes_def)
  have step: "tally_outer atts (mx, tc, d) n =
      (if tc < count_list (hashes atts) ?h
       then (?h, count_list (hashes atts) ?h, if ?h \<notin> set ?pre then d + 1 else d)
       else (mx, tc, if ?h \<notin> set ?pre then d + 1 else d))"
    unfolding tally_outer_def by (simp add: inn Let_def)
  have d: "card (insert ?h (set ?pre)) = (if ?h \<notin> set ?pre then d + 1 else d)"
    using assms(2) by (simp add: s tally_inv_def card_insert_if)
  have "\<forall>h \<in> set ?pre. count_list (hashes atts) h \<le> tc"
    and "n = 0 \<Longrightarrow> tc = 0 \<and> set ?pre = {}"
    and "n \<noteq> 0 \<Longrightarrow> mx \<in> set ?pre \<and> tc = count_list (hashes atts) mx"
    using assms(2) by (simp_all add: s tally_inv_def split: if_splits)
  then show ?thesis
    unfolding s step tally_inv_def tkset using d pos by (cases "n = 0") auto
qed

lemma tally_loop_inv:
  "n \<le> length atts \<Longrightarrow> tally_inv atts n (foldl (tally_outer atts) (0, 0, 0) [0..<n])"
proof (induction n)
  case 0
  then show ?case by (simp add: tally_inv_def)
next
  case (Suc n)
  then show ?case by (simp add: tally_outer_inv)
qed

lemma tally_of_spec:
  assumes "tally_of atts = (mx, ty)"
  shows "tl_total ty = length atts"
    and "tl_distinct ty = card (set (hashes atts))"
    and "tl_top_count ty = count_list (hashes atts) mx"
    and "h \<in> set (hashes atts) \<Longrightarrow> count_list (hashes atts) h \<le> tl_top_count ty"
    and "atts \<noteq> [] \<Longrightarrow> mx \<in> set (hashes atts)"
    and "atts = [] \<Longrightarrow> mx = 0"
proof -
  obtain a b c where abc: "foldl (tally_outer atts) (0, 0, 0) [0..<length atts] = (a, b, c)"
    by (metis prod_cases3)
  with tally_loop_inv [of "length atts" atts] have inv: "tally_inv atts (length atts) (a, b, c)"
    by simp
  from assms abc have eqs: "mx = a" "ty = \<lparr>tl_total = length atts, tl_top_count = b, tl_distinct = c\<rparr>"
    by (simp_all add: tally_of_def)
  show "tl_total ty = length atts" by (simp add: eqs)
  show "tl_distinct ty = card (set (hashes atts))" using inv by (simp add: eqs tally_inv_def)
  show "tl_top_count ty = count_list (hashes atts) mx"
    using inv by (cases "atts = []") (simp_all add: eqs tally_inv_def hashes_def)
  show "h \<in> set (hashes atts) \<Longrightarrow> count_list (hashes atts) h \<le> tl_top_count ty"
    using inv by (simp add: eqs tally_inv_def)
  show "atts \<noteq> [] \<Longrightarrow> mx \<in> set (hashes atts)" using inv by (simp add: eqs tally_inv_def)
  show "atts = [] \<Longrightarrow> mx = 0" using inv by (auto simp: eqs tally_inv_def)
qed

text \<open>A strict majority is the one hash with more than half of the votes.\<close>

lemma strict_majority_iff:
  assumes "tally_of atts = (mx, ty)"
  shows "tl_total ty < 2 * tl_top_count ty \<longleftrightarrow>
         (\<exists>h. length atts < 2 * count_list (hashes atts) h)"
proof -
  have "count_list (hashes atts) h \<le> tl_top_count ty" for h
    using tally_of_spec(4) [OF assms, of h] by (cases "h \<in> set (hashes atts)") auto
  then show ?thesis
    unfolding tally_of_spec(1) [OF assms]
    by (metis tally_of_spec(3) [OF assms] mult_le_mono2 order_less_le_trans)
qed

lemma strict_majority_top:
  assumes "tally_of atts = (mx, ty)" and "length atts < 2 * count_list (hashes atts) h"
  shows "mx = h"
proof -
  from assms have "tl_total ty < 2 * tl_top_count ty" using strict_majority_iff by blast
  then have "length (hashes atts) < 2 * count_list (hashes atts) mx"
    by (simp add: tally_of_spec(1,3) [OF assms(1)])
  with assms(2) show ?thesis by (intro strict_majority_unique [of "hashes atts"]) simp_all
qed

lemma distinct_one_iff:
  assumes "tally_of atts = (mx, ty)" and "atts \<noteq> []"
  shows "tl_distinct ty = 1 \<longleftrightarrow> (\<forall>a \<in> set atts. at_rebuilt a = mx)"
proof -
  have mx: "mx \<in> set (hashes atts)" using tally_of_spec(5) [OF assms] .
  have "card (set (hashes atts)) = 1 \<longleftrightarrow> set (hashes atts) = {mx}"
    using mx by (auto simp: card_1_singleton_iff)
  then show ?thesis
    using mx by (auto simp: tally_of_spec(2) [OF assms(1)] hashes_def)
qed

end
