(* ===== verification/Registry.thy ===== *)
theory Registry
  imports Tally "HOL-Library.Signed_Division"
begin

text \<open>
  The verifier registry, \<open>contracts/registry/src/lib.rs\<close>: staking, attesting, reading and slashing.
  The persistent storage is one map per \<open>DataKey\<close> constructor. The stake token is reached through
  a client (\<open>TokenClient\<close>): its two operations are arguments, over any token state \<open>'tok\<close>; what
  the registry relies on is the locale of \<open>RegistrySystem\<close>. A failed call leaves no state behind.
\<close>

section \<open>State\<close>

record config =
  cfg_token :: address
  cfg_min_stake :: int
  cfg_quorum :: nat
  cfg_attest_window :: nat
  cfg_unbond_period :: nat
  cfg_slash_bps :: nat

record stake_info =
  si_staked :: int
  si_unbonding :: int
  si_release :: nat

type_synonym claim_key = "hash32 \<times> hash32"

datatype reg_event =
    Staked address int
  | UnstakeRequested address int nat
  | Withdrawn address int
  | Attested address hash32 hash32 hash32
  | Slashed address hash32 hash32 int

record registry =
  rg_config :: "config option"
  rg_stake :: "address \<rightharpoonup> stake_info"
  rg_opened :: "claim_key \<rightharpoonup> nat"
  rg_attesters :: "claim_key \<rightharpoonup> address list"
  rg_att :: "claim_key \<times> address \<rightharpoonup> attestation"
  rg_slashed :: "claim_key \<times> address \<rightharpoonup> bool"
  rg_events :: "reg_event list"

definition empty_registry :: registry where
  "empty_registry = \<lparr>rg_config = None, rg_stake = Map.empty, rg_opened = Map.empty,
     rg_attesters = Map.empty, rg_att = Map.empty, rg_slashed = Map.empty, rg_events = []\<rparr>"

text \<open>A call either returns one of the contract's own errors or traps.\<close>

datatype fail = Contract reg_error | Trap trap

text \<open>The token contract at an address, as its client sees it.\<close>

record 'tok token_client =
  tc_transfer :: "address \<Rightarrow> ctx \<Rightarrow> 'tok \<Rightarrow> address \<Rightarrow> address \<Rightarrow> int \<Rightarrow> trap + 'tok"
  tc_burn :: "address \<Rightarrow> ctx \<Rightarrow> 'tok \<Rightarrow> address \<Rightarrow> int \<Rightarrow> trap + 'tok"

definition BPS_DENOMINATOR :: int where "BPS_DENOMINATOR = 10000"
definition MIN_QUORUM :: nat where "MIN_QUORUM = 3"

section \<open>Helpers\<close>

definition trapping :: "trap + 'a \<Rightarrow> fail + 'a" where
  "trapping m = map_err Trap m"

lemma trapping_simps [simp]: "trapping (Inl e) = Inl (Trap e)" "trapping (Inr x) = Inr x"
  by (simp_all add: trapping_def)

lemma trapping_eq_Inr [rbind_simps]: "trapping m = Inr x \<longleftrightarrow> m = Inr x"
  by (simp add: trapping_def rbind_simps)

definition read_config :: "registry \<Rightarrow> fail + config" where
  "read_config r = ok_or (Contract InvalidConfig) (rg_config r)"

definition read_stake :: "registry \<Rightarrow> address \<Rightarrow> stake_info" where
  "read_stake r v = (case rg_stake r v of Some i \<Rightarrow> i
     | None \<Rightarrow> \<lparr>si_staked = 0, si_unbonding = 0, si_release = 0\<rparr>)"

definition put_stake :: "registry \<Rightarrow> address \<Rightarrow> stake_info \<Rightarrow> registry" where
  "put_stake r v i = r\<lparr>rg_stake := (rg_stake r)(v \<mapsto> i)\<rparr>"

definition publish_reg :: "reg_event \<Rightarrow> registry \<Rightarrow> registry" where
  "publish_reg ev r = r\<lparr>rg_events := rg_events r @ [ev]\<rparr>"

definition read_attestations :: "registry \<Rightarrow> claim_key \<Rightarrow> attestation list" where
  "read_attestations r c =
     (let attesters = (case rg_attesters r c of Some as \<Rightarrow> as | None \<Rightarrow> [])
      in foldl (\<lambda>out v. case rg_att r (c, v) of Some att \<Rightarrow> out @ [att] | None \<Rightarrow> out) [] attesters)"

section \<open>Construction\<close>

definition reg_constructor ::
  "address \<Rightarrow> int \<Rightarrow> nat \<Rightarrow> nat \<Rightarrow> nat \<Rightarrow> nat \<Rightarrow> registry \<Rightarrow> fail + registry" where
  "reg_constructor token min_stake quorum attest_window unbond_period slash_bps r =
     (if min_stake \<le> 0 \<or> quorum < MIN_QUORUM \<or> attest_window = 0 \<or>
         unbond_period < attest_window \<or> slash_bps = 0 \<or> BPS_DENOMINATOR < int slash_bps
      then Inl (Contract InvalidConfig)
      else Inr (r\<lparr>rg_config := Some \<lparr>cfg_token = token, cfg_min_stake = min_stake,
             cfg_quorum = quorum, cfg_attest_window = attest_window,
             cfg_unbond_period = unbond_period, cfg_slash_bps = slash_bps\<rparr>\<rparr>))"

section \<open>Staking\<close>

definition stake ::
  "'tok token_client \<Rightarrow> ctx \<Rightarrow> registry \<times> 'tok \<Rightarrow> address \<Rightarrow> int \<Rightarrow> fail + (registry \<times> 'tok)" where
  "stake tc env = (\<lambda>(r, k) verifier amount.
     rbind (trapping (require_auth env verifier)) (\<lambda>_.
     if amount \<le> 0 then Inl (Contract InvalidAmount) else
     rbind (read_config r) (\<lambda>cfg.
     rbind (trapping (tc_transfer tc (cfg_token cfg) (subcall env (cfg_token cfg)) k
              verifier (self env) amount)) (\<lambda>k'.
     let info = read_stake r verifier in
     rbind (trapping (chk_i128 Overflow (si_staked info + amount))) (\<lambda>s.
     Inr (publish_reg (Staked verifier amount)
            (put_stake r verifier (info\<lparr>si_staked := s\<rparr>)), k'))))))"

definition request_unstake ::
  "ctx \<Rightarrow> registry \<times> 'tok \<Rightarrow> address \<Rightarrow> int \<Rightarrow> fail + (registry \<times> 'tok)" where
  "request_unstake env = (\<lambda>(r, k) verifier amount.
     rbind (trapping (require_auth env verifier)) (\<lambda>_.
     if amount \<le> 0 then Inl (Contract InvalidAmount) else
     rbind (read_config r) (\<lambda>cfg.
     let info = read_stake r verifier in
     if si_staked info < amount then Inl (Contract InsufficientStake) else
     rbind (trapping (chk_i128 Overflow (si_staked info - amount))) (\<lambda>s.
     rbind (trapping (chk_i128 Overflow (si_unbonding info + amount))) (\<lambda>u.
     rbind (trapping (chk_u32 Overflow (ledger_seq env + cfg_unbond_period cfg))) (\<lambda>release.
     Inr (publish_reg (UnstakeRequested verifier amount release)
            (put_stake r verifier \<lparr>si_staked = s, si_unbonding = u, si_release = release\<rparr>), k)))))))"

definition withdraw ::
  "'tok token_client \<Rightarrow> ctx \<Rightarrow> registry \<times> 'tok \<Rightarrow> address \<Rightarrow> fail + (int \<times> registry \<times> 'tok)" where
  "withdraw tc env = (\<lambda>(r, k) verifier.
     rbind (trapping (require_auth env verifier)) (\<lambda>_.
     rbind (read_config r) (\<lambda>cfg.
     let info = read_stake r verifier in
     if si_unbonding info \<le> 0 then Inl (Contract NothingToWithdraw) else
     if ledger_seq env < si_release info then Inl (Contract StillUnbonding) else
     let amount = si_unbonding info;
         r' = put_stake r verifier (info\<lparr>si_unbonding := 0\<rparr>) in
     rbind (trapping (tc_transfer tc (cfg_token cfg) (subcall env (cfg_token cfg)) k
              (self env) verifier amount)) (\<lambda>k'.
     Inr (amount, publish_reg (Withdrawn verifier amount) r', k')))))"

section \<open>Attesting\<close>

definition attest ::
  "ctx \<Rightarrow> registry \<times> 'tok \<Rightarrow> address \<Rightarrow> hash32 \<Rightarrow> hash32 \<Rightarrow> hash32 \<Rightarrow> fail + (registry \<times> 'tok)" where
  "attest env = (\<lambda>(r, k) verifier wasm_hash input_digest rebuilt_hash.
     rbind (trapping (require_auth env verifier)) (\<lambda>_.
     rbind (read_config r) (\<lambda>cfg.
     if si_staked (read_stake r verifier) < cfg_min_stake cfg then Inl (Contract NotActive) else
     let now = ledger_seq env; claim = (wasm_hash, input_digest) in
     rbind (case rg_opened r claim of
              Some opened \<Rightarrow>
                rbind (trapping (chk_u32 Overflow (opened + cfg_attest_window cfg))) (\<lambda>close.
                if close \<le> now then Inl (Contract WindowClosed) else Inr r)
            | None \<Rightarrow> Inr (r\<lparr>rg_opened := (rg_opened r)(claim \<mapsto> now)\<rparr>)) (\<lambda>r1.
     if rg_att r1 (claim, verifier) \<noteq> None then Inl (Contract AlreadyAttested) else
     let r2 = r1\<lparr>rg_att := (rg_att r1)((claim, verifier) \<mapsto>
                \<lparr>at_verifier = verifier, at_rebuilt = rebuilt_hash, at_ledger = now\<rparr>)\<rparr>;
         attesters = (case rg_attesters r2 claim of Some as \<Rightarrow> as | None \<Rightarrow> []);
         r3 = r2\<lparr>rg_attesters := (rg_attesters r2)(claim \<mapsto> attesters @ [verifier])\<rparr>
     in Inr (publish_reg (Attested verifier wasm_hash input_digest rebuilt_hash) r3, k)))))"

section \<open>Reading\<close>

definition attestations :: "registry \<Rightarrow> claim_key \<Rightarrow> attestation list" where
  "attestations r c = read_attestations r c"

definition consensus_of :: "ctx \<Rightarrow> registry \<Rightarrow> hash32 \<Rightarrow> hash32 \<Rightarrow> fail + consensus" where
  "consensus_of env r wasm_hash input_digest =
     rbind (read_config r) (\<lambda>cfg.
     case rg_opened r (wasm_hash, input_digest) of
       None \<Rightarrow> Inr NoClaim
     | Some opened \<Rightarrow>
         let atts = read_attestations r (wasm_hash, input_digest);
             (top_hash, tally) = tally_of atts in
         rbind (trapping (chk_u32 Overflow (opened + cfg_attest_window cfg))) (\<lambda>close.
         Inr (if ledger_seq env < close then Open tally
              else if tl_total tally < cfg_quorum cfg then Insufficient tally
              else if tl_distinct tally = 1 then
                (if top_hash = wasm_hash then Verified else Mismatch)
              else Disputed tally)))"

definition stake_of :: "registry \<Rightarrow> address \<Rightarrow> stake_info" where
  "stake_of r v = read_stake r v"

definition is_active :: "registry \<Rightarrow> address \<Rightarrow> fail + bool" where
  "is_active r v = rbind (read_config r) (\<lambda>cfg.
     Inr (cfg_min_stake cfg \<le> si_staked (read_stake r v)))"

section \<open>Slashing\<close>

definition slash ::
  "'tok token_client \<Rightarrow> ctx \<Rightarrow> registry \<times> 'tok \<Rightarrow> hash32 \<Rightarrow> hash32 \<Rightarrow> address \<Rightarrow>
     fail + (int \<times> registry \<times> 'tok)" where
  "slash tc env = (\<lambda>(r, k) wasm_hash input_digest verifier.
     rbind (read_config r) (\<lambda>cfg.
     let claim = (wasm_hash, input_digest) in
     rbind (ok_or (Contract ClaimNotDecided) (rg_opened r claim)) (\<lambda>opened.
     rbind (trapping (chk_u32 Overflow (opened + cfg_attest_window cfg))) (\<lambda>close.
     if ledger_seq env < close then Inl (Contract ClaimNotDecided) else
     let atts = read_attestations r claim;
         (top_hash, tally) = tally_of atts in
     rbind (if tl_total tally < cfg_quorum cfg then Inl (Contract ClaimNotDecided)
            else rbind (trapping (chk_u32 Overflow (2 * tl_top_count tally))) (\<lambda>dbl.
                 if dbl \<le> tl_total tally then Inl (Contract ClaimNotDecided) else Inr ())) (\<lambda>_.
     rbind (ok_or (Contract NotAttested) (rg_att r (claim, verifier))) (\<lambda>att.
     if at_rebuilt att = top_hash then Inl (Contract NotDissenter) else
     if rg_slashed r (claim, verifier) \<noteq> None then Inl (Contract AlreadySlashed) else
     let info = read_stake r verifier in
     rbind (trapping (chk_i128 Overflow (si_staked info + si_unbonding info))) (\<lambda>held.
     rbind (trapping (chk_i128 Overflow (held * int (cfg_slash_bps cfg)))) (\<lambda>scaled.
     let amount = scaled sdiv BPS_DENOMINATOR in
     if amount \<le> 0 then Inl (Contract NothingToSlash) else
     let from_staked = min amount (si_staked info) in
     rbind (trapping (chk_i128 Overflow (si_staked info - from_staked))) (\<lambda>s.
     rbind (trapping (chk_i128 Overflow (amount - from_staked))) (\<lambda>from_unbonding.
     rbind (trapping (chk_i128 Overflow (si_unbonding info - from_unbonding))) (\<lambda>u.
     let r1 = put_stake r verifier (info\<lparr>si_staked := s, si_unbonding := u\<rparr>);
         r2 = r1\<lparr>rg_slashed := (rg_slashed r1)((claim, verifier) \<mapsto> True)\<rparr> in
     rbind (trapping (tc_burn tc (cfg_token cfg) (subcall env (cfg_token cfg)) k
              (self env) amount)) (\<lambda>k'.
     Inr (amount, publish_reg (Slashed verifier wasm_hash input_digest amount) r2, k')))))))))))))"

section \<open>Inversion of successful calls\<close>

lemma put_stake_simps [simp]:
  "rg_config (put_stake r v i) = rg_config r"
  "rg_stake (put_stake r v i) = (rg_stake r)(v \<mapsto> i)"
  "rg_opened (put_stake r v i) = rg_opened r"
  "rg_attesters (put_stake r v i) = rg_attesters r"
  "rg_att (put_stake r v i) = rg_att r"
  "rg_slashed (put_stake r v i) = rg_slashed r"
  by (simp_all add: put_stake_def)

lemma publish_reg_simps [simp]:
  "rg_config (publish_reg ev r) = rg_config r"
  "rg_stake (publish_reg ev r) = rg_stake r"
  "rg_opened (publish_reg ev r) = rg_opened r"
  "rg_attesters (publish_reg ev r) = rg_attesters r"
  "rg_att (publish_reg ev r) = rg_att r"
  "rg_slashed (publish_reg ev r) = rg_slashed r"
  by (simp_all add: publish_reg_def)

lemma read_config_Inr [rbind_simps]: "read_config r = Inr cfg \<longleftrightarrow> rg_config r = Some cfg"
  by (simp add: read_config_def rbind_simps)

lemma read_stake_put [simp]:
  "read_stake (put_stake r v i) w = (if w = v then i else read_stake r w)"
  by (simp add: read_stake_def)

lemma read_stake_publish [simp]: "read_stake (publish_reg ev r) v = read_stake r v"
  by (simp add: read_stake_def)

lemma stake_Inr:
  assumes "stake tc env (r, k) v n = Inr (r', k')"
  obtains cfg where "authorized env v" "0 < n" "rg_config r = Some cfg"
    "tc_transfer tc (cfg_token cfg) (subcall env (cfg_token cfg)) k v (self env) n = Inr k'"
    "r' = publish_reg (Staked v n)
        (put_stake r v ((read_stake r v)\<lparr>si_staked := si_staked (read_stake r v) + n\<rparr>))"
  using assms by (auto simp: stake_def rbind_simps Let_def split: if_splits)

lemma request_unstake_Inr:
  assumes "request_unstake env (r, k) v n = Inr (r', k')"
  obtains cfg where "authorized env v" "0 < n" "rg_config r = Some cfg"
    "n \<le> si_staked (read_stake r v)" "k' = k"
    "r' = publish_reg (UnstakeRequested v n (ledger_seq env + cfg_unbond_period cfg))
        (put_stake r v \<lparr>si_staked = si_staked (read_stake r v) - n,
           si_unbonding = si_unbonding (read_stake r v) + n,
           si_release = ledger_seq env + cfg_unbond_period cfg\<rparr>)"
  using assms by (auto simp: request_unstake_def rbind_simps Let_def split: if_splits)

lemma withdraw_Inr:
  assumes "withdraw tc env (r, k) v = Inr (n, r', k')"
  obtains cfg where "authorized env v" "rg_config r = Some cfg"
    "n = si_unbonding (read_stake r v)" "0 < n" "si_release (read_stake r v) \<le> ledger_seq env"
    "tc_transfer tc (cfg_token cfg) (subcall env (cfg_token cfg)) k (self env) v n = Inr k'"
    "r' = publish_reg (Withdrawn v n) (put_stake r v ((read_stake r v)\<lparr>si_unbonding := 0\<rparr>))"
  using assms by (auto simp: withdraw_def rbind_simps Let_def split: if_splits)

lemma attest_Inr:
  assumes "attest env (r, k) v w d h = Inr (r', k')"
  obtains cfg o_led where "authorized env v" "rg_config r = Some cfg" "k' = k"
    "cfg_min_stake cfg \<le> si_staked (read_stake r v)"
    "rg_att r ((w, d), v) = None"
    "(case rg_opened r (w, d) of
        None \<Rightarrow> o_led = ledger_seq env
      | Some opened \<Rightarrow> o_led = opened \<and> ledger_seq env < opened + cfg_attest_window cfg)"
    "rg_config r' = rg_config r" "rg_stake r' = rg_stake r" "rg_slashed r' = rg_slashed r"
    "rg_opened r' = (rg_opened r)((w, d) \<mapsto> o_led)"
    "rg_att r' = (rg_att r)(((w, d), v) \<mapsto>
       \<lparr>at_verifier = v, at_rebuilt = h, at_ledger = ledger_seq env\<rparr>)"
    "rg_attesters r' = (rg_attesters r)((w, d) \<mapsto>
       (case rg_attesters r (w, d) of Some as \<Rightarrow> as | None \<Rightarrow> []) @ [v])"
proof -
  obtain cfg r1 where c: "authorized env v" "rg_config r = Some cfg"
    "cfg_min_stake cfg \<le> si_staked (read_stake r v)" "k' = k" "rg_att r1 ((w, d), v) = None"
    and r1: "(case rg_opened r (w, d) of
              Some opened \<Rightarrow>
                rbind (trapping (chk_u32 Overflow (opened + cfg_attest_window cfg))) (\<lambda>close.
                if close \<le> ledger_seq env then Inl (Contract WindowClosed) else Inr r)
            | None \<Rightarrow> Inr (r\<lparr>rg_opened := (rg_opened r)((w, d) \<mapsto> ledger_seq env)\<rparr>)) = Inr r1"
    and r': "r' = publish_reg (Attested v w d h)
      (r1\<lparr>rg_att := (rg_att r1)(((w, d), v) \<mapsto>
           \<lparr>at_verifier = v, at_rebuilt = h, at_ledger = ledger_seq env\<rparr>),
         rg_attesters := (rg_attesters r1)((w, d) \<mapsto>
           (case rg_attesters r1 (w, d) of Some as \<Rightarrow> as | None \<Rightarrow> []) @ [v])\<rparr>)"
    using assms by (auto simp: attest_def rbind_simps Let_def split: if_splits)
  show thesis
  proof (cases "rg_opened r (w, d)")
    case None
    with r1 have "r1 = r\<lparr>rg_opened := (rg_opened r)((w, d) \<mapsto> ledger_seq env)\<rparr>" by simp
    with c r' None show thesis by (intro that [of cfg "ledger_seq env"]) simp_all
  next
    case (Some opened)
    with r1 have "r1 = r" and "ledger_seq env < opened + cfg_attest_window cfg"
      by (auto simp: rbind_simps split: if_splits)
    with c r' Some show thesis by (intro that [of cfg opened]) (simp_all add: fun_upd_idem)
  qed
qed

text \<open>The decision a slash rests on.\<close>

definition slash_amount :: "config \<Rightarrow> stake_info \<Rightarrow> int" where
  "slash_amount cfg i =
     (si_staked i + si_unbonding i) * int (cfg_slash_bps cfg) sdiv BPS_DENOMINATOR"

lemma slash_Inr:
  assumes "slash tc env (r, k) w d v = Inr (n, r', k')"
  obtains cfg opened att where "rg_config r = Some cfg" "rg_opened r (w, d) = Some opened"
    "opened + cfg_attest_window cfg \<le> ledger_seq env"
    "cfg_quorum cfg \<le> length (read_attestations r (w, d))"
    "length (read_attestations r (w, d)) < 2 * tl_top_count (snd (tally_of (read_attestations r (w, d))))"
    "rg_att r ((w, d), v) = Some att"
    "at_rebuilt att \<noteq> fst (tally_of (read_attestations r (w, d)))"
    "rg_slashed r ((w, d), v) = None"
    "n = slash_amount cfg (read_stake r v)" "0 < n"
    "tc_burn tc (cfg_token cfg) (subcall env (cfg_token cfg)) k (self env) n = Inr k'"
    "r' = publish_reg (Slashed v w d n)
       ((put_stake r v ((read_stake r v)\<lparr>
           si_staked := si_staked (read_stake r v) - min n (si_staked (read_stake r v)),
           si_unbonding := si_unbonding (read_stake r v) - (n - min n (si_staked (read_stake r v)))\<rparr>))
        \<lparr>rg_slashed := (rg_slashed r)(((w, d), v) \<mapsto> True)\<rparr>)"
proof -
  obtain mx ty where t: "tally_of (read_attestations r (w, d)) = (mx, ty)" by fastforce
  have "tl_total ty = length (read_attestations r (w, d))" by (rule tally_of_spec(1) [OF t])
  with assms t that show thesis
    by (auto simp: slash_def rbind_simps Let_def slash_amount_def split: if_splits)
qed

end
