(* ===== verification/RegistrySystem.thy ===== *)
theory RegistrySystem
  imports Registry
begin

text \<open>
  The registry together with its token and the passage of ledgers. What the registry relies on
  about its token is the locale \<open>stake_token\<close>; its lemmas are proved once there. Any number of
  accounts call the registry in any order, the token is used by others in between, and time moves.
\<close>

section \<open>Calls and steps\<close>

datatype reg_call =
    Stake_Call address int
  | Request_Unstake address int
  | Withdraw_Call address
  | Attest_Call address hash32 hash32 hash32
  | Slash_Call hash32 hash32 address

fun reg_exec ::
  "'tok token_client \<Rightarrow> ctx \<Rightarrow> reg_call \<Rightarrow> registry \<times> 'tok \<Rightarrow> fail + (registry \<times> 'tok)" where
  "reg_exec tc env (Stake_Call v n) w = stake tc env w v n"
| "reg_exec tc env (Request_Unstake v n) w = request_unstake env w v n"
| "reg_exec tc env (Withdraw_Call v) w = rbind (withdraw tc env w v) (\<lambda>(_, w'). Inr w')"
| "reg_exec tc env (Attest_Call v wh d h) w = attest env w v wh d h"
| "reg_exec tc env (Slash_Call wh d v) w = rbind (slash tc env w wh d v) (\<lambda>(_, w'). Inr w')"

text \<open>
  A system state is the ledger sequence, the registry and the token. \<open>home\<close> is the registry's own
  address, which no transaction can sign for; \<open>foreign\<close> is what everybody else may do to the token.
\<close>

type_synonym 'tok system = "nat \<times> registry \<times> 'tok"

inductive sys_step ::
  "'tok token_client \<Rightarrow> address \<Rightarrow> ('tok \<Rightarrow> 'tok \<Rightarrow> bool) \<Rightarrow> 'tok system \<Rightarrow> 'tok system \<Rightarrow> bool"
  for tc home foreign where
  call: "self env = home \<Longrightarrow> ledger_seq env = now \<Longrightarrow> \<not> authorized env home \<Longrightarrow>
     reg_exec tc env c (r, k) = Inr (r', k') \<Longrightarrow>
     sys_step tc home foreign (now, r, k) (now, r', k')"
| other: "foreign k k' \<Longrightarrow> sys_step tc home foreign (now, r, k) (now, r, k')"
| tick: "now < now' \<Longrightarrow> sys_step tc home foreign (now, r, k) (now', r, k)"

inductive_cases sys_stepE: "sys_step tc home foreign s s'"

inductive sys_steps ::
  "'tok token_client \<Rightarrow> address \<Rightarrow> ('tok \<Rightarrow> 'tok \<Rightarrow> bool) \<Rightarrow> 'tok system \<Rightarrow> 'tok system \<Rightarrow> bool"
  for tc home foreign where
  refl: "sys_steps tc home foreign s s"
| step: "sys_steps tc home foreign s t \<Longrightarrow> sys_step tc home foreign t u \<Longrightarrow> sys_steps tc home foreign s u"

section \<open>Claims\<close>

text \<open>Outvoted: the claim is closed and quorate, and a strict majority holds another hash.\<close>

definition outvoted :: "config \<Rightarrow> nat \<Rightarrow> registry \<Rightarrow> claim_key \<Rightarrow> address \<Rightarrow> bool" where
  "outvoted cfg now r c v \<longleftrightarrow>
     (\<exists>opened a h. rg_opened r c = Some opened \<and> opened + cfg_attest_window cfg \<le> now \<and>
        cfg_quorum cfg \<le> length (read_attestations r c) \<and>
        rg_att r (c, v) = Some a \<and> at_rebuilt a \<noteq> h \<and>
        length (read_attestations r c) < 2 * count_list (hashes (read_attestations r c)) h)"

definition claim_ok :: "config \<Rightarrow> nat \<Rightarrow> registry \<Rightarrow> claim_key \<Rightarrow> bool" where
  "claim_ok cfg now r c \<longleftrightarrow>
     (case rg_opened r c of
        None \<Rightarrow> rg_attesters r c = None \<and> (\<forall>v. rg_att r (c, v) = None) \<and>
                (\<forall>v. rg_slashed r (c, v) = None)
      | Some opened \<Rightarrow>
          opened \<le> now \<and>
          (\<exists>as. rg_attesters r c = Some as \<and> as \<noteq> [] \<and> distinct as \<and>
                (\<forall>v. rg_att r (c, v) \<noteq> None \<longleftrightarrow> v \<in> set as)) \<and>
          (\<forall>v a. rg_att r (c, v) = Some a \<longrightarrow>
                at_verifier a = v \<and> opened \<le> at_ledger a \<and>
                at_ledger a < opened + cfg_attest_window cfg \<and> at_ledger a \<le> now) \<and>
          (\<forall>v. rg_slashed r (c, v) \<noteq> None \<longrightarrow> outvoted cfg now r c v))"

definition cfg_ok :: "config \<Rightarrow> bool" where
  "cfg_ok cfg \<longleftrightarrow> 0 < cfg_min_stake cfg \<and> MIN_QUORUM \<le> cfg_quorum cfg \<and>
     0 < cfg_attest_window cfg \<and> cfg_attest_window cfg \<le> cfg_unbond_period cfg \<and>
     0 < cfg_slash_bps cfg \<and> int (cfg_slash_bps cfg) \<le> BPS_DENOMINATOR"

text \<open>The claim's part of the storage: what the readers of a claim look at.\<close>

definition same_claim :: "registry \<Rightarrow> registry \<Rightarrow> claim_key \<Rightarrow> bool" where
  "same_claim r r' c \<longleftrightarrow> rg_opened r' c = rg_opened r c \<and> rg_attesters r' c = rg_attesters r c \<and>
     (\<forall>v. rg_att r' (c, v) = rg_att r (c, v))"

lemma read_attestations_conv:
  "read_attestations r c =
     List.map_filter (\<lambda>v. rg_att r (c, v)) (case rg_attesters r c of Some as \<Rightarrow> as | None \<Rightarrow> [])"
proof -
  have "foldl (\<lambda>out v. case rg_att r (c, v) of Some att \<Rightarrow> out @ [att] | None \<Rightarrow> out) acc xs =
      acc @ List.map_filter (\<lambda>v. rg_att r (c, v)) xs" for acc xs
    by (induction xs arbitrary: acc) (auto simp: List.map_filter_simps split: option.splits)
  then show ?thesis by (simp add: read_attestations_def Let_def)
qed

lemma same_claim_attestations:
  "same_claim r r' c \<Longrightarrow> read_attestations r' c = read_attestations r c"
  by (simp add: same_claim_def read_attestations_conv)

lemma same_claim_outvoted:
  assumes "same_claim r r' c" and "outvoted cfg now r c v" and "now \<le> now'"
  shows "outvoted cfg now' r' c v"
proof -
  have "read_attestations r' c = read_attestations r c"
    using assms(1) by (rule same_claim_attestations)
  with assms show ?thesis
    unfolding outvoted_def same_claim_def by (fastforce intro: order_trans)
qed

lemma claim_ok_same:
  assumes "claim_ok cfg now r c" and "same_claim r r' c" and "now \<le> now'"
    and "\<And>v. rg_slashed r' (c, v) \<noteq> None \<Longrightarrow> rg_slashed r (c, v) \<noteq> None \<or> outvoted cfg now r c v"
  shows "claim_ok cfg now' r' c"
proof (cases "rg_opened r c")
  case None
  with assms(1) have "rg_slashed r (c, v) = None" and "\<not> outvoted cfg now r c v" for v
    by (auto simp: claim_ok_def outvoted_def)
  with assms(4) have "rg_slashed r' (c, v) = None" for v by blast
  with None assms(1,2) show ?thesis by (auto simp: claim_ok_def same_claim_def)
next
  case (Some opened)
  have "outvoted cfg now' r' c v" if "rg_slashed r' (c, v) \<noteq> None" for v
  proof -
    from assms(1) assms(4) [OF that] Some have "outvoted cfg now r c v" by (auto simp: claim_ok_def)
    with assms(2,3) show ?thesis by (blast intro: same_claim_outvoted)
  qed
  moreover have "x \<le> now \<Longrightarrow> x \<le> now'" for x using assms(3) by simp
  ultimately show ?thesis using assms(1,2) Some by (auto simp: claim_ok_def same_claim_def)
qed

text \<open>An attestation on the claim itself, while its window is open.\<close>

lemma claim_ok_attest:
  assumes ok: "claim_ok cfg now r c" and cfg: "cfg_ok cfg"
    and none: "rg_att r (c, v) = None"
    and led: "case rg_opened r c of None \<Rightarrow> o_led = now
              | Some opened \<Rightarrow> o_led = opened \<and> now < opened + cfg_attest_window cfg"
    and op: "rg_opened r' c = Some o_led"
    and att: "\<And>u. rg_att r' (c, u) = (if u = v then
        Some \<lparr>at_verifier = v, at_rebuilt = h, at_ledger = now\<rparr> else rg_att r (c, u))"
    and ats: "rg_attesters r' c = Some ((case rg_attesters r c of Some as \<Rightarrow> as | None \<Rightarrow> []) @ [v])"
    and sl: "\<And>u. rg_slashed r' (c, u) = rg_slashed r (c, u)"
  shows "claim_ok cfg now r' c"
proof (cases "rg_opened r c")
  case None
  with ok have "\<And>u. rg_slashed r' (c, u) = None" "rg_attesters r c = None" "\<And>u. rg_att r (c, u) = None"
    by (auto simp: claim_ok_def sl)
  with None led op att ats cfg show ?thesis by (simp add: claim_ok_def cfg_ok_def)
next
  case (Some opened)
  have "rg_slashed r (c, u) = None" for u
    using ok led Some by (auto simp: claim_ok_def outvoted_def)
  moreover obtain as where as: "rg_attesters r c = Some as" "as \<noteq> []" "distinct as"
      "\<And>u. rg_att r (c, u) \<noteq> None \<longleftrightarrow> u \<in> set as"
    using ok Some by (auto simp: claim_ok_def)
  moreover have "v \<notin> set as" using none as(4) [of v] by simp
  ultimately show ?thesis
    using Some ok led op att ats sl by (auto simp: claim_ok_def)
qed

text \<open>Once closed, a claim's record never changes again.\<close>

definition closed :: "config \<Rightarrow> nat \<Rightarrow> registry \<Rightarrow> claim_key \<Rightarrow> bool" where
  "closed cfg now r c \<longleftrightarrow>
     (\<exists>opened. rg_opened r c = Some opened \<and> opened + cfg_attest_window cfg \<le> now)"

section \<open>Stakes\<close>

definition total_staked :: "registry \<Rightarrow> int" where
  "total_staked r = msum (\<lambda>v. map_option (\<lambda>i. si_staked i + si_unbonding i) (rg_stake r v))"

definition held :: "registry \<Rightarrow> address \<Rightarrow> int" where
  "held r v = si_staked (read_stake r v) + si_unbonding (read_stake r v)"

lemma held_mget:
  "mget (\<lambda>v. map_option (\<lambda>i. si_staked i + si_unbonding i) (rg_stake r v)) v = held r v"
  by (simp add: mget_def held_def read_stake_def split: option.splits)

definition stakes_ok :: "registry \<Rightarrow> bool" where
  "stakes_ok r \<longleftrightarrow> finite (dom (rg_stake r)) \<and>
     (\<forall>v. 0 \<le> si_staked (read_stake r v) \<and> 0 \<le> si_unbonding (read_stake r v))"

lemma total_staked_put:
  assumes "finite (dom (rg_stake r))"
  shows "total_staked (put_stake r v i) = total_staked r - held r v + (si_staked i + si_unbonding i)"
proof -
  let ?m = "\<lambda>v. map_option (\<lambda>i. si_staked i + si_unbonding i) (rg_stake r v)"
  have "(\<lambda>w. map_option (\<lambda>i. si_staked i + si_unbonding i) (((rg_stake r)(v \<mapsto> i)) w)) =
      ?m(v \<mapsto> si_staked i + si_unbonding i)" by auto
  moreover have "dom ?m = dom (rg_stake r)" by auto
  ultimately show ?thesis
    using assms held_mget [of r v] by (simp add: total_staked_def del: fun_upd_apply)
qed

lemma total_staked_cong: "rg_stake r' = rg_stake r \<Longrightarrow> total_staked r' = total_staked r"
  by (simp add: total_staked_def)

lemma read_stake_cong: "rg_stake r' = rg_stake r \<Longrightarrow> read_stake r' v = read_stake r v"
  by (simp add: read_stake_def)

lemma stakes_ok_cong: "rg_stake r' = rg_stake r \<Longrightarrow> stakes_ok r' \<longleftrightarrow> stakes_ok r"
  by (simp add: stakes_ok_def read_stake_def)

lemma stakes_ok_put:
  "stakes_ok r \<Longrightarrow> 0 \<le> si_staked i \<Longrightarrow> 0 \<le> si_unbonding i \<Longrightarrow> stakes_ok (put_stake r v i)"
  by (auto simp: stakes_ok_def)

lemma held_le_total: "stakes_ok r \<Longrightarrow> held r v \<le> total_staked r"
proof -
  assume ok: "stakes_ok r"
  let ?m = "\<lambda>v. map_option (\<lambda>i. si_staked i + si_unbonding i) (rg_stake r v)"
  have "dom ?m = dom (rg_stake r)" by auto
  with ok have "finite (dom ?m)" by (simp add: stakes_ok_def)
  moreover have "0 \<le> mget ?m u" for u
    unfolding held_mget using ok by (simp add: stakes_ok_def held_def)
  ultimately have "mget ?m v \<le> msum ?m" by (rule mget_le_msum)
  then show ?thesis by (simp add: held_mget total_staked_def)
qed

lemma sdiv_nonneg: "0 \<le> (a::int) \<Longrightarrow> 0 < b \<Longrightarrow> a sdiv b = a div b"
  by (simp add: signed_divide_int_def sgn_if)

lemma slash_amount_bounds:
  assumes "cfg_ok cfg" and "0 \<le> si_staked i" and "0 \<le> si_unbonding i"
  shows "0 \<le> slash_amount cfg i" and "slash_amount cfg i \<le> si_staked i + si_unbonding i"
    and "slash_amount cfg i = (si_staked i + si_unbonding i) * int (cfg_slash_bps cfg) div 10000"
proof -
  let ?h = "si_staked i + si_unbonding i" and ?b = "int (cfg_slash_bps cfg)"
  have h: "0 \<le> ?h" and b: "0 \<le> ?b" "?b \<le> 10000"
    using assms by (simp_all add: cfg_ok_def BPS_DENOMINATOR_def)
  then show eq: "slash_amount cfg i = ?h * ?b div 10000"
    by (simp add: slash_amount_def BPS_DENOMINATOR_def sdiv_nonneg)
  show "0 \<le> slash_amount cfg i"
    unfolding eq using mult_nonneg_nonneg [OF h b(1)] by (simp add: pos_imp_zdiv_nonneg_iff)
  have "?h * ?b \<le> ?h * 10000" using h b by (intro mult_left_mono) auto
  then have "?h * ?b div 10000 \<le> ?h * 10000 div 10000" by (rule zdiv_mono1) simp
  then show "slash_amount cfg i \<le> ?h" unfolding eq by simp
qed

section \<open>What the registry relies on\<close>

text \<open>
  The token's side of the contract: a transfer or a burn by the registry moves exactly the amount
  and, when covered, succeeds; nobody else can lower the registry's balance.
\<close>

locale stake_token =
  fixes tc :: "'tok token_client"
    and taddr :: address
    and home :: address
    and bal :: "'tok \<Rightarrow> address \<Rightarrow> int"
    and tinv :: "'tok \<Rightarrow> bool"
    and foreign :: "'tok \<Rightarrow> 'tok \<Rightarrow> bool"
  assumes bal_range: "tinv k \<Longrightarrow> 0 \<le> bal k a \<and> bal k a \<le> i128_max"
    and transfer_effect: "tinv k \<Longrightarrow> tc_transfer tc taddr env k f t n = Inr k' \<Longrightarrow>
      tinv k' \<and> (\<forall>a. bal k' a = bal k a - (if a = f then n else 0) + (if a = t then n else 0))"
    and transfer_total: "tinv k \<Longrightarrow> authorized env f \<Longrightarrow> 0 \<le> n \<Longrightarrow> n \<le> bal k f \<Longrightarrow>
      f \<noteq> t \<Longrightarrow> bal k t + n \<le> i128_max \<Longrightarrow> \<exists>k'. tc_transfer tc taddr env k f t n = Inr k'"
    and burn_effect: "tinv k \<Longrightarrow> tc_burn tc taddr env k f n = Inr k' \<Longrightarrow>
      tinv k' \<and> (\<forall>a. bal k' a = bal k a - (if a = f then n else 0))"
    and burn_total: "tinv k \<Longrightarrow> authorized env f \<Longrightarrow> 0 \<le> n \<Longrightarrow> n \<le> bal k f \<Longrightarrow>
      \<exists>k'. tc_burn tc taddr env k f n = Inr k'"
    and foreign_effect: "tinv k \<Longrightarrow> foreign k k' \<Longrightarrow> tinv k' \<and> bal k home \<le> bal k' home"

definition sys_inv ::
  "config \<Rightarrow> address \<Rightarrow> address \<Rightarrow> ('tok \<Rightarrow> address \<Rightarrow> int) \<Rightarrow> ('tok \<Rightarrow> bool) \<Rightarrow> 'tok system \<Rightarrow> bool" where
  "sys_inv cfg taddr home bal tinv = (\<lambda>(now, r, k).
     rg_config r = Some cfg \<and> cfg_token cfg = taddr \<and> cfg_ok cfg \<and> tinv k \<and> stakes_ok r \<and>
     total_staked r \<le> bal k home \<and>
     (\<forall>v. si_release (read_stake r v) \<le> now + cfg_unbond_period cfg) \<and>
     (\<forall>c. claim_ok cfg now r c))"

text \<open>A call that touches only stakes keeps every claim.\<close>

lemma same_claimI [intro]:
  "rg_opened r' = rg_opened r \<Longrightarrow> rg_attesters r' = rg_attesters r \<Longrightarrow> rg_att r' = rg_att r \<Longrightarrow>
   same_claim r r' c"
  by (simp add: same_claim_def)

lemma claims_ok_stake_only:
  assumes "claim_ok cfg now r c" and "rg_opened r' = rg_opened r" and "rg_attesters r' = rg_attesters r"
    and "rg_att r' = rg_att r" and "rg_slashed r' = rg_slashed r"
  shows "claim_ok cfg now r' c"
  by (rule claim_ok_same [OF assms(1)]) (use assms in auto)

lemma sys_invD:
  assumes "sys_inv cfg taddr home bal tinv (now, r, k)"
  shows "rg_config r = Some cfg" "cfg_token cfg = taddr" "cfg_ok cfg" "tinv k" "stakes_ok r"
    "total_staked r \<le> bal k home" "si_release (read_stake r v) \<le> now + cfg_unbond_period cfg"
    "claim_ok cfg now r c"
  using assms unfolding sys_inv_def by blast+

lemma sys_invI:
  assumes "rg_config r = Some cfg" "cfg_token cfg = taddr" "cfg_ok cfg" "tinv k" "stakes_ok r"
    "total_staked r \<le> bal k home" "\<And>v. si_release (read_stake r v) \<le> now + cfg_unbond_period cfg"
    "\<And>c. claim_ok cfg now r c"
  shows "sys_inv cfg taddr home bal tinv (now, r, k)"
  using assms unfolding sys_inv_def by blast

lemma sys_inv_stake_only:
  assumes inv: "sys_inv cfg taddr home bal tinv (now, r, k)"
    and "rg_config r' = rg_config r" "rg_opened r' = rg_opened r" "rg_attesters r' = rg_attesters r"
    "rg_att r' = rg_att r" "rg_slashed r' = rg_slashed r"
    and "tinv k'" "stakes_ok r'" "total_staked r' \<le> bal k' home"
    and "\<And>v. si_release (read_stake r' v) \<le> now + cfg_unbond_period cfg"
  shows "sys_inv cfg taddr home bal tinv (now, r', k')"
  by (rule sys_invI)
    (use assms(2-) sys_invD [OF inv] claims_ok_stake_only [OF sys_invD(8) [OF inv]] in simp_all)

lemma stakes_okD:
  assumes "stakes_ok r"
  shows "finite (dom (rg_stake r))" "0 \<le> si_staked (read_stake r v)" "0 \<le> si_unbonding (read_stake r v)"
  using assms by (simp_all add: stakes_ok_def)

lemma claims_ok_attest:
  assumes "attest env (r, k) v w d h = Inr (r', k')" and "\<forall>c. claim_ok cfg now r c"
    and "cfg_ok cfg" and "rg_config r = Some cfg" and "ledger_seq env = now"
  shows "claim_ok cfg now r' c"
  using assms(1)
proof (cases rule: attest_Inr)
  case (1 cfg' o_led)
  then have [simp]: "cfg' = cfg" using assms(4) by simp
  show ?thesis
  proof (cases "c = (w, d)")
    case True
    show ?thesis unfolding True
      by (rule claim_ok_attest [where r = r and v = v and h = h and o_led = o_led])
        (use 1 assms in \<open>auto split: option.splits\<close>)
  next
    case False
    have old: "claim_ok cfg now r c" using assms(2) by blast
    have "same_claim r r' c" using False 1 by (simp add: same_claim_def)
    then show ?thesis by (rule claim_ok_same [OF old]) (simp_all add: 1)
  qed
qed

lemma slash_outvoted:
  assumes "slash tc env (r, k) w d v = Inr (n, r', k')" and "rg_config r = Some cfg"
    and "ledger_seq env = now"
  shows "outvoted cfg now r (w, d) v"
  using assms(1)
proof (cases rule: slash_Inr)
  case (1 cfg' opened att)
  let ?as = "read_attestations r (w, d)"
  obtain mx ty where t: "tally_of ?as = (mx, ty)" by fastforce
  from 1 t assms have "length ?as < 2 * count_list (hashes ?as) mx"
    by (simp add: tally_of_spec(3) [OF t])
  with 1 t assms show ?thesis
    unfolding outvoted_def by (intro exI [of _ opened] exI [of _ att] exI [of _ mx]) simp
qed

lemma claims_ok_slash:
  assumes "slash tc env (r, k) w d v = Inr (n, r', k')" and "\<forall>c. claim_ok cfg now r c"
    and "rg_config r = Some cfg" and "ledger_seq env = now"
  shows "claim_ok cfg now r' c"
proof -
  have ov: "outvoted cfg now r (w, d) v" using slash_outvoted [OF assms(1,3,4)] .
  from assms(1) show ?thesis
  proof (cases rule: slash_Inr)
    case (1 cfg' opened att)
    have old: "claim_ok cfg now r c" using assms(2) by blast
    have "same_claim r r' c" by (simp add: 1 same_claim_def)
    then show ?thesis
      by (rule claim_ok_same [OF old]) (use 1 ov in \<open>auto split: if_splits\<close>)
  qed
qed

context stake_token
begin

lemma inv_stake:
  assumes "sys_inv cfg taddr home bal tinv (now, r, k)" and "self env = home" and "ledger_seq env = now"
    and "\<not> authorized env home" and "stake tc env (r, k) v n = Inr (r', k')"
  shows "sys_inv cfg taddr home bal tinv (now, r', k')"
  using assms(5)
proof (cases rule: stake_Inr)
  case (1 cfg')
  with assms have cfg [simp]: "cfg' = cfg" and vh: "v \<noteq> home" by (auto simp: sys_inv_def)
  from 1 assms(1,2) have eff: "tinv k'" "bal k' home = bal k home + n"
    using transfer_effect [of k "subcall env taddr" v home n k'] vh by (auto simp: sys_inv_def)
  have ok: "stakes_ok r" using assms(1) by (simp add: sys_inv_def)
  have "total_staked r' = total_staked r + n"
    using total_staked_put [OF stakes_okD(1) [OF ok]]
    by (simp add: 1 total_staked_cong [OF publish_reg_simps(2)] held_def)
  moreover have "stakes_ok r'"
    using stakes_ok_put [OF ok] stakes_okD [OF ok] 1
    by (simp add: stakes_ok_cong [OF publish_reg_simps(2)])
  ultimately show ?thesis
    using sys_invD [OF assms(1)] 1 eff by (intro sys_inv_stake_only [OF assms(1)]) simp_all
qed

lemma inv_request_unstake:
  assumes "sys_inv cfg taddr home bal tinv (now, r, k)" and "ledger_seq env = now"
    and "request_unstake env (r, k) v n = Inr (r', k')"
  shows "sys_inv cfg taddr home bal tinv (now, r', k')"
  using assms(3)
proof (cases rule: request_unstake_Inr)
  case (1 cfg')
  with assms have cfg [simp]: "cfg' = cfg" by (auto simp: sys_inv_def)
  have ok: "stakes_ok r" using assms(1) by (simp add: sys_inv_def)
  have "total_staked r' = total_staked r"
    using total_staked_put [OF stakes_okD(1) [OF ok]]
    by (simp add: 1 total_staked_cong [OF publish_reg_simps(2)] held_def)
  moreover have "stakes_ok r'"
    using stakes_ok_put [OF ok] stakes_okD(3) [OF ok, of v] 1
    by (simp add: stakes_ok_cong [OF publish_reg_simps(2)])
  ultimately show ?thesis
    using sys_invD [OF assms(1)] assms(2) 1
    by (intro sys_inv_stake_only [OF assms(1)]) simp_all
qed

lemma inv_withdraw:
  assumes "sys_inv cfg taddr home bal tinv (now, r, k)" and "self env = home" and "ledger_seq env = now"
    and "\<not> authorized env home" and "withdraw tc env (r, k) v = Inr (n, r', k')"
  shows "sys_inv cfg taddr home bal tinv (now, r', k')"
  using assms(5)
proof (cases rule: withdraw_Inr)
  case (1 cfg')
  with assms have cfg [simp]: "cfg' = cfg" and vh: "v \<noteq> home" by (auto simp: sys_inv_def)
  from 1 assms(1,2) have eff: "tinv k'" "bal k' home = bal k home - n"
    using transfer_effect [of k "subcall env taddr" home v n k'] vh by (auto simp: sys_inv_def)
  have ok: "stakes_ok r" using assms(1) by (simp add: sys_inv_def)
  have "total_staked r' = total_staked r - n"
    using total_staked_put [OF stakes_okD(1) [OF ok]]
    by (simp add: 1 total_staked_cong [OF publish_reg_simps(2)] held_def)
  moreover have "stakes_ok r'"
    using stakes_ok_put [OF ok] stakes_okD [OF ok] 1
    by (simp add: stakes_ok_cong [OF publish_reg_simps(2)])
  ultimately show ?thesis
    using sys_invD [OF assms(1)] 1 eff by (intro sys_inv_stake_only [OF assms(1)]) simp_all
qed

lemma inv_attest:
  assumes "sys_inv cfg taddr home bal tinv (now, r, k)" and "ledger_seq env = now"
    and "attest env (r, k) v w d h = Inr (r', k')"
  shows "sys_inv cfg taddr home bal tinv (now, r', k')"
proof -
  have cl: "claim_ok cfg now r' c" for c
    using claims_ok_attest [OF assms(3)] sys_invD [OF assms(1)] assms(2) by blast
  from assms(3) show ?thesis
  proof (cases rule: attest_Inr)
    case (1 cfg' o_led)
    note st = 1(8)
    show ?thesis
      by (rule sys_invI [OF _ _ _ _ _ _ _ cl])
        (simp_all add: 1(3,7) sys_invD [OF assms(1)] total_staked_cong [OF st]
          stakes_ok_cong [OF st] read_stake_cong [OF st])
  qed
qed

lemma inv_slash:
  assumes "sys_inv cfg taddr home bal tinv (now, r, k)" and "self env = home" and "ledger_seq env = now"
    and "slash tc env (r, k) w d v = Inr (n, r', k')"
  shows "sys_inv cfg taddr home bal tinv (now, r', k')"
proof -
  have cl: "claim_ok cfg now r' c" for c
    using claims_ok_slash [OF assms(4)] sys_invD [OF assms(1)] assms(3) by blast
  from assms(4) show ?thesis
  proof (cases rule: slash_Inr)
    case (1 cfg' opened att)
    with assms have cfg [simp]: "cfg' = cfg" by (auto simp: sys_inv_def)
    from 1 assms(1,2) have eff: "tinv k'" "bal k' home = bal k home - n"
      using burn_effect [of k "subcall env taddr" home n k'] by (auto simp: sys_inv_def)
    have ok: "stakes_ok r" and co: "cfg_ok cfg" using assms(1) by (simp_all add: sys_inv_def)
    let ?i = "read_stake r v"
    have b: "n \<le> si_staked ?i + si_unbonding ?i"
      using slash_amount_bounds(2) [OF co stakes_okD(2,3) [OF ok]] 1 by simp
    let ?j = "?i\<lparr>si_staked := si_staked ?i - min n (si_staked ?i),
                 si_unbonding := si_unbonding ?i - (n - min n (si_staked ?i))\<rparr>"
    have st: "rg_stake r' = rg_stake (put_stake r v ?j)" by (simp add: 1)
    have "total_staked r' = total_staked r - n"
      using total_staked_put [OF stakes_okD(1) [OF ok], of v ?j]
      by (simp add: total_staked_cong [OF st] held_def)
    moreover have "stakes_ok r'"
      using stakes_ok_put [OF ok, of ?j v] stakes_okD(2,3) [OF ok, of v] b
      by (simp add: stakes_ok_cong [OF st])
    moreover have "rg_config r' = rg_config r" by (simp add: 1)
    moreover have "si_release (read_stake r' u) = si_release (read_stake r u)" for u
      by (simp add: read_stake_cong [OF st])
    ultimately show ?thesis using sys_invD(1-7) [OF assms(1)] eff cl
      by (intro sys_invI) simp_all
  qed
qed

lemma inv_exec:
  assumes "sys_inv cfg taddr home bal tinv (now, r, k)" and "self env = home" and "ledger_seq env = now"
    and "\<not> authorized env home" and "reg_exec tc env c (r, k) = Inr (r', k')"
  shows "sys_inv cfg taddr home bal tinv (now, r', k')"
proof (cases c)
  case (Stake_Call v n)
  with assms(5) show ?thesis by (auto intro: inv_stake [OF assms(1-4)])
next
  case (Request_Unstake v n)
  with assms(5) show ?thesis by (auto intro: inv_request_unstake [OF assms(1,3)])
next
  case (Withdraw_Call v)
  with assms(5) show ?thesis by (auto simp: rbind_simps intro: inv_withdraw [OF assms(1-4)])
next
  case (Attest_Call v w d h)
  with assms(5) show ?thesis by (auto intro: inv_attest [OF assms(1,3)])
next
  case (Slash_Call w d v)
  with assms(5) show ?thesis by (auto simp: rbind_simps intro: inv_slash [OF assms(1-3)])
qed

lemma inv_step:
  assumes "sys_step tc home foreign s s'" and "sys_inv cfg taddr home bal tinv s"
  shows "sys_inv cfg taddr home bal tinv s'"
  using assms
proof (induction rule: sys_step.induct)
  case (call env now c r k r' k')
  show ?case by (rule inv_exec [OF call.prems call.hyps])
next
  case (other k k' now r)
  then have inv: "sys_inv cfg taddr home bal tinv (now, r, k)" by simp
  have "tinv k'" and "bal k home \<le> bal k' home"
    using foreign_effect [OF sys_invD(4) [OF inv] other.hyps] by simp_all
  then show ?case using sys_invD [OF inv]
    by (intro sys_inv_stake_only [OF inv]) simp_all
next
  case (tick now now' r k)
  then have inv: "sys_inv cfg taddr home bal tinv (now, r, k)" by simp
  have "claim_ok cfg now' r c" for c
    by (rule claim_ok_same [OF sys_invD(8) [OF inv]]) (use tick in auto)
  moreover have "si_release (read_stake r v) \<le> now' + cfg_unbond_period cfg" for v
    using sys_invD(7) [OF inv, of v] tick by simp
  ultimately show ?case using sys_invD(1-6) [OF inv] by (intro sys_invI) simp_all
qed

lemma inv_steps:
  "sys_steps tc home foreign s s' \<Longrightarrow> sys_inv cfg taddr home bal tinv s \<Longrightarrow>
   sys_inv cfg taddr home bal tinv s'"
  by (induction rule: sys_steps.induct) (auto intro: inv_step)

end

end
