(* ===== verification/VrfyToken.thy ===== *)
theory VrfyToken
  imports SorobanHost
begin

text \<open>
  The VRFY stake token, \<open>contracts/vrfy-token/src/\<close>: balances, allowances, administrator and
  metadata as one record, one function per entry point, in the order of the source's checks.
  Amounts are \<open>int\<close> with the i128 overflow checks written out; ledger numbers are \<open>nat\<close>.
\<close>

section \<open>State\<close>

record allowance_value =
  av_amount :: int
  av_live_until :: nat

record token_metadata =
  md_decimal :: nat
  md_name :: string
  md_symbol :: string

text \<open>A transfer destination: an address and, when it is multiplexed, its id.\<close>

record muxed =
  mx_address :: address
  mx_id :: "nat option"

datatype token_event =
    MintWithAmountOnly address int
  | SetAdmin address address
  | Approve address address int nat
  | Transfer address address "nat option" int
  | Burn address int

record token =
  tk_admin :: "address option"
  tk_balance :: "address \<rightharpoonup> int"
  tk_allowance :: "address \<times> address \<rightharpoonup> allowance_value"
  tk_meta :: "token_metadata option"
  tk_events :: "token_event list"

definition empty_token :: token where
  "empty_token = \<lparr>tk_admin = None, tk_balance = Map.empty, tk_allowance = Map.empty,
     tk_meta = None, tk_events = []\<rparr>"

definition publish :: "token_event \<Rightarrow> token \<Rightarrow> token" where
  "publish ev t = t\<lparr>tk_events := tk_events t @ [ev]\<rparr>"

lemma publish_simps [simp]:
  "tk_admin (publish ev t) = tk_admin t"
  "tk_balance (publish ev t) = tk_balance t"
  "tk_allowance (publish ev t) = tk_allowance t"
  "tk_meta (publish ev t) = tk_meta t"
  "tk_events (publish ev t) = tk_events t @ [ev]"
  by (simp_all add: publish_def)

section \<open>Administrator and balances\<close>

definition read_administrator :: "token \<Rightarrow> trap + address" where
  "read_administrator t = ok_or NoAdmin (tk_admin t)"

definition write_administrator :: "token \<Rightarrow> address \<Rightarrow> token" where
  "write_administrator t a = t\<lparr>tk_admin := Some a\<rparr>"

definition read_balance :: "token \<Rightarrow> address \<Rightarrow> int" where
  "read_balance t a = (case tk_balance t a of Some b \<Rightarrow> b | None \<Rightarrow> 0)"

definition write_balance :: "token \<Rightarrow> address \<Rightarrow> int \<Rightarrow> token" where
  "write_balance t a n = t\<lparr>tk_balance := (tk_balance t)(a \<mapsto> n)\<rparr>"

definition receive_balance :: "token \<Rightarrow> address \<Rightarrow> int \<Rightarrow> trap + token" where
  "receive_balance t a n =
     (let balance = read_balance t a in
      rbind (chk_i128 Overflow (balance + n)) (\<lambda>b. Inr (write_balance t a b)))"

definition spend_balance :: "token \<Rightarrow> address \<Rightarrow> int \<Rightarrow> trap + token" where
  "spend_balance t a n =
     (let balance = read_balance t a in
      if balance < n then Inl InsufficientBalance
      else rbind (chk_i128 Overflow (balance - n)) (\<lambda>b. Inr (write_balance t a b)))"

section \<open>Allowances\<close>

definition read_allowance :: "ctx \<Rightarrow> token \<Rightarrow> address \<Rightarrow> address \<Rightarrow> allowance_value" where
  "read_allowance env t from spender =
     (case tk_allowance t (from, spender) of
        Some a \<Rightarrow>
          (if av_live_until a < ledger_seq env
           then \<lparr>av_amount = 0, av_live_until = av_live_until a\<rparr> else a)
      | None \<Rightarrow> \<lparr>av_amount = 0, av_live_until = 0\<rparr>)"

definition write_allowance ::
  "ctx \<Rightarrow> token \<Rightarrow> address \<Rightarrow> address \<Rightarrow> int \<Rightarrow> nat \<Rightarrow> trap + token" where
  "write_allowance env t from spender amount live_until =
     (if 0 < amount \<and> live_until < ledger_seq env then Inl LiveUntilInPast
      else
        let t' = t\<lparr>tk_allowance := (tk_allowance t)((from, spender) \<mapsto>
                   \<lparr>av_amount = amount, av_live_until = live_until\<rparr>)\<rparr>
        in if 0 < amount then
             (if live_until < ledger_seq env then Inl Overflow
              else if ttl_ok env (live_until - ledger_seq env) then Inr t' else Inl TtlRefused)
           else Inr t')"

definition spend_allowance ::
  "ctx \<Rightarrow> token \<Rightarrow> address \<Rightarrow> address \<Rightarrow> int \<Rightarrow> trap + token" where
  "spend_allowance env t from spender amount =
     (let a = read_allowance env t from spender in
      if av_amount a < amount then Inl InsufficientAllowance
      else if 0 < amount then
        rbind (chk_i128 Overflow (av_amount a - amount))
          (\<lambda>rest. write_allowance env t from spender rest (av_live_until a))
      else Inr t)"

section \<open>Entry points\<close>

definition check_nonnegative_amount :: "int \<Rightarrow> trap + unit" where
  "check_nonnegative_amount amount = (if amount < 0 then Inl NegativeAmount else Inr ())"

lemma check_nonnegative_eq_Inr [rbind_simps]:
  "check_nonnegative_amount n = Inr u \<longleftrightarrow> 0 \<le> n"
  by (auto simp: check_nonnegative_amount_def)

lemma check_nonnegative_ok [simp]: "0 \<le> n \<Longrightarrow> check_nonnegative_amount n = Inr ()"
  by (simp add: check_nonnegative_amount_def)

definition token_constructor ::
  "address \<Rightarrow> nat \<Rightarrow> string \<Rightarrow> string \<Rightarrow> token \<Rightarrow> trap + token" where
  "token_constructor admin decimal name symbol t =
     (if 18 < decimal then Inl DecimalTooLarge
      else Inr ((write_administrator t admin)\<lparr>tk_meta :=
             Some \<lparr>md_decimal = decimal, md_name = name, md_symbol = symbol\<rparr>\<rparr>))"

definition mint :: "ctx \<Rightarrow> token \<Rightarrow> address \<Rightarrow> int \<Rightarrow> trap + token" where
  "mint env t to amount =
     rbind (check_nonnegative_amount amount) (\<lambda>_.
     rbind (read_administrator t) (\<lambda>admin.
     rbind (require_auth env admin) (\<lambda>_.
     rbind (receive_balance t to amount) (\<lambda>t1.
     Inr (publish (MintWithAmountOnly to amount) t1)))))"

definition set_admin :: "ctx \<Rightarrow> token \<Rightarrow> address \<Rightarrow> trap + token" where
  "set_admin env t new_admin =
     rbind (read_administrator t) (\<lambda>admin.
     rbind (require_auth env admin) (\<lambda>_.
     Inr (publish (SetAdmin admin new_admin) (write_administrator t new_admin))))"

definition allowance :: "ctx \<Rightarrow> token \<Rightarrow> address \<Rightarrow> address \<Rightarrow> int" where
  "allowance env t from spender = av_amount (read_allowance env t from spender)"

definition approve ::
  "ctx \<Rightarrow> token \<Rightarrow> address \<Rightarrow> address \<Rightarrow> int \<Rightarrow> nat \<Rightarrow> trap + token" where
  "approve env t from spender amount live_until =
     rbind (require_auth env from) (\<lambda>_.
     rbind (check_nonnegative_amount amount) (\<lambda>_.
     rbind (write_allowance env t from spender amount live_until) (\<lambda>t1.
     Inr (publish (Approve from spender amount live_until) t1))))"

definition balance :: "token \<Rightarrow> address \<Rightarrow> int" where
  "balance t a = read_balance t a"

definition transfer :: "ctx \<Rightarrow> token \<Rightarrow> address \<Rightarrow> muxed \<Rightarrow> int \<Rightarrow> trap + token" where
  "transfer env t from to_muxed amount =
     rbind (require_auth env from) (\<lambda>_.
     rbind (check_nonnegative_amount amount) (\<lambda>_.
     rbind (spend_balance t from amount) (\<lambda>t1.
     rbind (receive_balance t1 (mx_address to_muxed) amount) (\<lambda>t2.
     Inr (publish (Transfer from (mx_address to_muxed) (mx_id to_muxed) amount) t2)))))"

definition transfer_from ::
  "ctx \<Rightarrow> token \<Rightarrow> address \<Rightarrow> address \<Rightarrow> address \<Rightarrow> int \<Rightarrow> trap + token" where
  "transfer_from env t spender from to amount =
     rbind (require_auth env spender) (\<lambda>_.
     rbind (check_nonnegative_amount amount) (\<lambda>_.
     rbind (spend_allowance env t from spender amount) (\<lambda>t1.
     rbind (spend_balance t1 from amount) (\<lambda>t2.
     rbind (receive_balance t2 to amount) (\<lambda>t3.
     Inr (publish (Transfer from to None amount) t3))))))"

definition burn :: "ctx \<Rightarrow> token \<Rightarrow> address \<Rightarrow> int \<Rightarrow> trap + token" where
  "burn env t from amount =
     rbind (require_auth env from) (\<lambda>_.
     rbind (check_nonnegative_amount amount) (\<lambda>_.
     rbind (spend_balance t from amount) (\<lambda>t1.
     Inr (publish (Burn from amount) t1))))"

definition burn_from :: "ctx \<Rightarrow> token \<Rightarrow> address \<Rightarrow> address \<Rightarrow> int \<Rightarrow> trap + token" where
  "burn_from env t spender from amount =
     rbind (require_auth env spender) (\<lambda>_.
     rbind (check_nonnegative_amount amount) (\<lambda>_.
     rbind (spend_allowance env t from spender amount) (\<lambda>t1.
     rbind (spend_balance t1 from amount) (\<lambda>t2.
     Inr (publish (Burn from amount) t2)))))"

definition decimals :: "token \<Rightarrow> trap + nat" where
  "decimals t = rbind (ok_or NoMetadata (tk_meta t)) (\<lambda>m. Inr (md_decimal m))"

definition name :: "token \<Rightarrow> trap + string" where
  "name t = rbind (ok_or NoMetadata (tk_meta t)) (\<lambda>m. Inr (md_name m))"

definition symbol :: "token \<Rightarrow> trap + string" where
  "symbol t = rbind (ok_or NoMetadata (tk_meta t)) (\<lambda>m. Inr (md_symbol m))"

section \<open>Inversion of the operations\<close>

lemma read_balance_mget [simp]: "read_balance t a = mget (tk_balance t) a"
  by (simp add: read_balance_def mget_def split: option.splits)

lemma write_balance_simps [simp]:
  "tk_balance (write_balance t a n) = (tk_balance t)(a \<mapsto> n)"
  "tk_allowance (write_balance t a n) = tk_allowance t"
  "tk_admin (write_balance t a n) = tk_admin t"
  "tk_events (write_balance t a n) = tk_events t"
  "tk_meta (write_balance t a n) = tk_meta t"
  by (simp_all add: write_balance_def)

lemma receive_balance_Inr [rbind_simps]:
  "receive_balance t a n = Inr t' \<longleftrightarrow>
     in_i128 (mget (tk_balance t) a + n) \<and> t' = write_balance t a (mget (tk_balance t) a + n)"
  by (auto simp: receive_balance_def Let_def rbind_simps)

lemma spend_balance_Inr [rbind_simps]:
  "spend_balance t a n = Inr t' \<longleftrightarrow>
     n \<le> mget (tk_balance t) a \<and> in_i128 (mget (tk_balance t) a - n) \<and>
     t' = write_balance t a (mget (tk_balance t) a - n)"
  by (auto simp: spend_balance_def Let_def rbind_simps split: if_splits)

lemma write_allowance_Inr [rbind_simps]:
  "write_allowance env t f s n l = Inr t' \<longleftrightarrow>
     (0 < n \<longrightarrow> ledger_seq env \<le> l \<and> ttl_ok env (l - ledger_seq env)) \<and>
     t' = t\<lparr>tk_allowance := (tk_allowance t)((f, s) \<mapsto> \<lparr>av_amount = n, av_live_until = l\<rparr>)\<rparr>"
  by (auto simp: write_allowance_def Let_def)

text \<open>What a successful \<open>spend_allowance\<close> leaves: balances untouched, one entry lowered.\<close>

lemma spend_allowance_Inr:
  assumes "spend_allowance env t f s n = Inr t'" and "0 \<le> n"
  shows "n \<le> allowance env t f s"
    and "allowance env t' f s = allowance env t f s - n"
    and "tk_balance t' = tk_balance t" and "tk_admin t' = tk_admin t"
    and "tk_events t' = tk_events t" and "tk_meta t' = tk_meta t"
    and "\<And>k. k \<noteq> (f, s) \<Longrightarrow> tk_allowance t' k = tk_allowance t k"
    and "n = 0 \<Longrightarrow> t' = t"
  using assms
  by (auto simp: spend_allowance_def allowance_def read_allowance_def Let_def rbind_simps
      split: if_splits option.splits)

section \<open>Well-formed states\<close>

text \<open>
  Every stored balance and every stored allowance is a non-negative i128; finitely many accounts
  hold a balance.
\<close>

definition token_ok :: "token \<Rightarrow> bool" where
  "token_ok t \<longleftrightarrow>
     finite (dom (tk_balance t)) \<and>
     (\<forall>a. 0 \<le> mget (tk_balance t) a \<and> in_i128 (mget (tk_balance t) a)) \<and>
     (\<forall>k v. tk_allowance t k = Some v \<longrightarrow> 0 \<le> av_amount v \<and> in_i128 (av_amount v))"

lemma token_okI:
  assumes "finite (dom (tk_balance t))"
    and "\<And>a. 0 \<le> mget (tk_balance t) a" and "\<And>a. in_i128 (mget (tk_balance t) a)"
    and "\<And>k v. tk_allowance t k = Some v \<Longrightarrow> 0 \<le> av_amount v \<and> in_i128 (av_amount v)"
  shows "token_ok t"
  using assms unfolding token_ok_def by blast

lemma token_okD:
  assumes "token_ok t"
  shows "finite (dom (tk_balance t))" and "0 \<le> mget (tk_balance t) a"
    and "in_i128 (mget (tk_balance t) a)"
    and "tk_allowance t k = Some v \<Longrightarrow> 0 \<le> av_amount v"
    and "tk_allowance t k = Some v \<Longrightarrow> in_i128 (av_amount v)"
  using assms unfolding token_ok_def by blast+

lemma token_ok_empty [simp]: "token_ok empty_token"
  by (simp add: token_ok_def empty_token_def in_i128_def i128_min_def i128_max_def)

lemma token_ok_publish [simp]: "token_ok (publish ev t) \<longleftrightarrow> token_ok t"
  by (simp add: token_ok_def)

lemma token_ok_write_balance:
  "token_ok t \<Longrightarrow> 0 \<le> n \<Longrightarrow> in_i128 n \<Longrightarrow> token_ok (write_balance t a n)"
  by (auto simp: token_ok_def)

lemma token_ok_spend_balance:
  "token_ok t \<Longrightarrow> spend_balance t a n = Inr t' \<Longrightarrow> token_ok t'"
  by (auto simp: rbind_simps intro!: token_ok_write_balance)

lemma token_ok_receive_balance:
  "token_ok t \<Longrightarrow> 0 \<le> n \<Longrightarrow> receive_balance t a n = Inr t' \<Longrightarrow> token_ok t'"
  by (auto simp: rbind_simps intro!: token_ok_write_balance dest: token_okD(2) [of t a])

lemma token_ok_write_allowance:
  "token_ok t \<Longrightarrow> 0 \<le> n \<Longrightarrow> in_i128 n \<Longrightarrow> write_allowance env t f s n l = Inr t' \<Longrightarrow> token_ok t'"
  by (auto simp: rbind_simps token_ok_def)

lemma token_ok_spend_allowance:
  assumes "token_ok t" and "0 \<le> n" and "spend_allowance env t f s n = Inr t'"
  shows "token_ok t'"
proof (cases "0 < n")
  case True
  let ?rest = "av_amount (read_allowance env t f s) - n"
  from assms(3) True have "0 \<le> ?rest" and "in_i128 ?rest"
    and "write_allowance env t f s ?rest (av_live_until (read_allowance env t f s)) = Inr t'"
    by (auto simp: spend_allowance_def Let_def rbind_eq_Inr chk_i128_eq_Inr split: if_splits)
  with assms(1) show ?thesis by (blast intro: token_ok_write_allowance)
next
  case False
  with assms show ?thesis by (auto simp: spend_allowance_def Let_def split: if_splits)
qed

end
