(* ===== verification/TokenLedger.thy ===== *)
theory TokenLedger
  imports VrfyToken
begin

text \<open>
  The token as a ledger: its calls as data, what every call does to balances, supply and
  allowances, and the states reachable from the constructor by calls, failed calls and the host's
  eviction of expired temporary entries.
\<close>

section \<open>Calls\<close>

datatype token_call =
    Mint address int
  | Set_Admin address
  | Approve_Call address address int nat
  | Transfer_Call address muxed int
  | Transfer_From address address address int
  | Burn_Call address int
  | Burn_From address address int

fun token_exec :: "ctx \<Rightarrow> token_call \<Rightarrow> token \<Rightarrow> trap + token" where
  "token_exec env (Mint to n) t = mint env t to n"
| "token_exec env (Set_Admin a) t = set_admin env t a"
| "token_exec env (Approve_Call f s n l) t = approve env t f s n l"
| "token_exec env (Transfer_Call f m n) t = transfer env t f m n"
| "token_exec env (Transfer_From s f to n) t = transfer_from env t s f to n"
| "token_exec env (Burn_Call f n) t = burn env t f n"
| "token_exec env (Burn_From s f n) t = burn_from env t s f n"

text \<open>How much of \<open>a\<close>'s balance a call takes away, and who signs for it.\<close>

fun debit_of :: "token_call \<Rightarrow> address \<Rightarrow> int" where
  "debit_of (Transfer_Call f m n) a = (if a = f then n else 0)"
| "debit_of (Transfer_From s f to n) a = (if a = f then n else 0)"
| "debit_of (Burn_Call f n) a = (if a = f then n else 0)"
| "debit_of (Burn_From s f n) a = (if a = f then n else 0)"
| "debit_of _ a = 0"

fun credit_of :: "token_call \<Rightarrow> address \<Rightarrow> int" where
  "credit_of (Mint to n) a = (if a = to then n else 0)"
| "credit_of (Transfer_Call f m n) a = (if a = mx_address m then n else 0)"
| "credit_of (Transfer_From s f to n) a = (if a = to then n else 0)"
| "credit_of _ a = 0"

fun issued_by :: "token_call \<Rightarrow> int" where
  "issued_by (Mint to n) = n"
| "issued_by (Burn_Call f n) = - n"
| "issued_by (Burn_From s f n) = - n"
| "issued_by _ = 0"

definition total_supply :: "token \<Rightarrow> int" where
  "total_supply t = msum (tk_balance t)"

text \<open>Net issuance recorded in the event log.\<close>

fun event_issue :: "token_event \<Rightarrow> int" where
  "event_issue (MintWithAmountOnly to n) = n"
| "event_issue (Burn f n) = - n"
| "event_issue _ = 0"

definition net_issued :: "token_event list \<Rightarrow> int" where
  "net_issued evs = sum_list (map event_issue evs)"

lemma net_issued_simps [simp]:
  "net_issued [] = 0"
  "net_issued (evs @ [e]) = net_issued evs + event_issue e"
  by (simp_all add: net_issued_def)

section \<open>The effect of one call\<close>

lemmas token_defs = mint_def set_admin_def approve_def transfer_def transfer_from_def
  burn_def burn_from_def

lemma read_administrator_Inr [rbind_simps]:
  "read_administrator t = Inr a \<longleftrightarrow> tk_admin t = Some a"
  by (simp add: read_administrator_def rbind_simps)

lemma write_administrator_simps [simp]:
  "tk_balance (write_administrator t a) = tk_balance t"
  "tk_allowance (write_administrator t a) = tk_allowance t"
  "tk_events (write_administrator t a) = tk_events t"
  "tk_admin (write_administrator t a) = Some a"
  by (simp_all add: write_administrator_def)

lemma token_exec_balance:
  assumes "token_exec env c t = Inr t'"
  shows "mget (tk_balance t') a = mget (tk_balance t) a - debit_of c a + credit_of c a"
  using assms
  by (cases c) (auto simp: token_defs rbind_simps dest!: spend_allowance_Inr(3))

lemma token_exec_dom:
  assumes "token_exec env c t = Inr t'"
  shows "finite (dom (tk_balance t)) \<Longrightarrow> finite (dom (tk_balance t'))"
    and "\<And>a. tk_balance t a \<noteq> None \<Longrightarrow> tk_balance t' a \<noteq> None"
  using assms
  by (cases c; auto simp: token_defs rbind_simps dest!: spend_allowance_Inr(3))+

lemma token_exec_supply:
  assumes "token_exec env c t = Inr t'" and "finite (dom (tk_balance t))"
  shows "total_supply t' = total_supply t + issued_by c"
  using assms
  by (cases c) (auto simp: total_supply_def token_defs rbind_simps dest!: spend_allowance_Inr(3))

lemma token_exec_events:
  assumes "token_exec env c t = Inr t'"
  shows "net_issued (tk_events t') = net_issued (tk_events t) + issued_by c"
  using assms
  by (cases c) (auto simp: token_defs rbind_simps dest!: spend_allowance_Inr(5))

text \<open>The arguments of a call are i128 values: what the host's typing guarantees.\<close>

fun call_amount :: "token_call \<Rightarrow> int" where
  "call_amount (Mint to n) = n"
| "call_amount (Set_Admin a) = 0"
| "call_amount (Approve_Call f s n l) = n"
| "call_amount (Transfer_Call f m n) = n"
| "call_amount (Transfer_From s f to n) = n"
| "call_amount (Burn_Call f n) = n"
| "call_amount (Burn_From s f n) = n"

definition call_typed :: "token_call \<Rightarrow> bool" where
  "call_typed c \<longleftrightarrow> in_i128 (call_amount c)"

lemmas token_ok_steps = token_ok_spend_balance token_ok_receive_balance
  token_ok_spend_allowance token_ok_write_allowance

lemma token_exec_ok:
  assumes "token_ok t" and "call_typed c" and "token_exec env c t = Inr t'"
  shows "token_ok t'"
proof (cases c)
  case (Set_Admin a)
  with assms show ?thesis by (auto simp: set_admin_def rbind_simps token_ok_def)
next
  case (Approve_Call f s n l)
  with assms obtain t1 where "0 \<le> n" "in_i128 n" "write_allowance env t f s n l = Inr t1"
    "token_ok t' = token_ok t1"
    by (auto simp: call_typed_def approve_def rbind_eq_Inr check_nonnegative_eq_Inr)
  with assms(1) show ?thesis using token_ok_write_allowance by blast
next
  case (Transfer_Call f m n)
  with assms obtain t1 t2 where "0 \<le> n" "spend_balance t f n = Inr t1"
    "receive_balance t1 (mx_address m) n = Inr t2" "token_ok t' = token_ok t2"
    by (auto simp: transfer_def rbind_eq_Inr check_nonnegative_eq_Inr)
  with assms(1) show ?thesis using token_ok_steps by blast
next
  case (Transfer_From s f to n)
  with assms obtain t1 t2 t3 where "0 \<le> n" "spend_allowance env t f s n = Inr t1"
    "spend_balance t1 f n = Inr t2" "receive_balance t2 to n = Inr t3" "token_ok t' = token_ok t3"
    by (auto simp: transfer_from_def rbind_eq_Inr check_nonnegative_eq_Inr)
  with assms(1) show ?thesis using token_ok_steps by metis
next
  case (Mint to n)
  with assms obtain t1 where "0 \<le> n" "receive_balance t to n = Inr t1" "token_ok t' = token_ok t1"
    by (auto simp: mint_def rbind_eq_Inr check_nonnegative_eq_Inr)
  with assms(1) show ?thesis using token_ok_steps by blast
next
  case (Burn_Call f n)
  with assms obtain t1 where "spend_balance t f n = Inr t1" "token_ok t' = token_ok t1"
    by (auto simp: burn_def rbind_eq_Inr)
  with assms(1) show ?thesis using token_ok_steps by blast
next
  case (Burn_From s f n)
  with assms obtain t1 t2 where "0 \<le> n" "spend_allowance env t f s n = Inr t1"
    "spend_balance t1 f n = Inr t2" "token_ok t' = token_ok t2"
    by (auto simp: burn_from_def rbind_eq_Inr check_nonnegative_eq_Inr)
  with assms(1) show ?thesis using token_ok_steps by metis
qed

text \<open>A successful call moves a non-negative amount.\<close>

lemma token_exec_amount: "token_exec env c t = Inr t' \<Longrightarrow> 0 \<le> call_amount c"
  by (cases c) (auto simp: token_defs rbind_simps)

lemma debit_nonneg: "token_exec env c t = Inr t' \<Longrightarrow> 0 \<le> debit_of c a"
  by (cases c) (auto simp: token_defs rbind_simps)

lemma credit_nonneg: "token_exec env c t = Inr t' \<Longrightarrow> 0 \<le> credit_of c a"
  by (cases c) (auto simp: token_defs rbind_simps)

lemma debit_covered:
  "token_exec env c t = Inr t' \<Longrightarrow> token_ok t \<Longrightarrow> debit_of c a \<le> mget (tk_balance t) a"
  by (cases c) (auto simp: token_defs rbind_simps dest!: spend_allowance_Inr(3) dest: token_okD(2))

text \<open>Who answers for a debit: the owner's signature, or a spender's within its allowance.\<close>

lemma debit_signed:
  assumes "token_exec env c t = Inr t'" and "0 < debit_of c a"
  shows "authorized env a \<or>
    (\<exists>s. authorized env s \<and> debit_of c a \<le> allowance env t a s \<and>
         allowance env t' a s = allowance env t a s - debit_of c a)"
proof (cases c)
  case (Transfer_From s f to n)
  with assms have "a = f" and s: "authorized env s"
    and "\<exists>t1. spend_allowance env t f s n = Inr t1 \<and> tk_allowance t' = tk_allowance t1" and "0 \<le> n"
    by (auto simp: transfer_from_def rbind_simps split: if_splits)
  then obtain t1 where t1: "spend_allowance env t f s n = Inr t1"
    and t': "tk_allowance t' = tk_allowance t1" by blast
  have "allowance env t' f s = allowance env t1 f s"
    by (simp add: allowance_def read_allowance_def t')
  with spend_allowance_Inr(1,2) [OF t1 \<open>0 \<le> n\<close>] s \<open>a = f\<close> Transfer_From show ?thesis by auto
next
  case (Burn_From s f n)
  with assms have "a = f" and s: "authorized env s"
    and "\<exists>t1. spend_allowance env t f s n = Inr t1 \<and> tk_allowance t' = tk_allowance t1" and "0 \<le> n"
    by (auto simp: burn_from_def rbind_simps split: if_splits)
  then obtain t1 where t1: "spend_allowance env t f s n = Inr t1"
    and t': "tk_allowance t' = tk_allowance t1" by blast
  have "allowance env t' f s = allowance env t1 f s"
    by (simp add: allowance_def read_allowance_def t')
  with spend_allowance_Inr(1,2) [OF t1 \<open>0 \<le> n\<close>] s \<open>a = f\<close> Burn_From show ?thesis by auto
qed (use assms in \<open>auto simp: token_defs rbind_simps split: if_splits\<close>)

section \<open>Reachable ledgers\<close>

text \<open>
  The host may drop a temporary entry once its time to live has run out. \<open>write_allowance\<close> keeps
  a positive allowance alive to its \<open>live_until\<close> ledger, so only expired or zero entries go.
\<close>

definition evictable :: "nat \<Rightarrow> allowance_value \<Rightarrow> bool" where
  "evictable now v \<longleftrightarrow> av_amount v = 0 \<or> av_live_until v < now"

definition evict :: "address \<times> address \<Rightarrow> token \<Rightarrow> token" where
  "evict k t = t\<lparr>tk_allowance := (tk_allowance t)(k := None)\<rparr>"

inductive token_step :: "token \<Rightarrow> token \<Rightarrow> bool" where
  call: "call_typed c \<Longrightarrow> token_exec env c t = Inr t' \<Longrightarrow> token_step t t'"
| expire: "tk_allowance t k = Some v \<Longrightarrow> evictable now v \<Longrightarrow> token_step t (evict k t)"

inductive token_reachable :: "token \<Rightarrow> bool" where
  deploy: "token_constructor admin d n s empty_token = Inr t \<Longrightarrow> token_reachable t"
| step: "token_reachable t \<Longrightarrow> token_step t t' \<Longrightarrow> token_reachable t'"

definition ledger_inv :: "token \<Rightarrow> bool" where
  "ledger_inv t \<longleftrightarrow> token_ok t \<and> total_supply t = net_issued (tk_events t)"

lemma evict_simps [simp]:
  "tk_balance (evict k t) = tk_balance t" "tk_events (evict k t) = tk_events t"
  "tk_admin (evict k t) = tk_admin t"
  by (simp_all add: evict_def)

lemma token_ok_evict: "token_ok t \<Longrightarrow> token_ok (evict k t)"
  by (auto simp: token_ok_def evict_def split: if_splits)

lemma ledger_inv_exec:
  "ledger_inv t \<Longrightarrow> call_typed c \<Longrightarrow> token_exec env c t = Inr t' \<Longrightarrow> ledger_inv t'"
  using token_exec_ok token_exec_supply token_exec_events token_okD(1)
  unfolding ledger_inv_def by metis

lemma ledger_inv_step: "token_step t t' \<Longrightarrow> ledger_inv t \<Longrightarrow> ledger_inv t'"
proof (induction rule: token_step.induct)
  case (call c env t t')
  then show ?case by (blast intro: ledger_inv_exec)
next
  case (expire t k v now)
  then show ?case by (simp add: ledger_inv_def total_supply_def token_ok_evict)
qed

lemma ledger_inv_deploy:
  assumes "token_constructor admin d n s empty_token = Inr t"
  shows "ledger_inv t"
  using assms token_ok_empty
  by (auto simp: token_constructor_def ledger_inv_def total_supply_def token_ok_def empty_token_def
      split: if_splits)

lemma token_reachable_inv: "token_reachable t \<Longrightarrow> ledger_inv t"
  by (induction rule: token_reachable.induct) (auto intro: ledger_inv_deploy ledger_inv_step)

section \<open>Allowances over a run\<close>

fun spent_by :: "token_call \<Rightarrow> address \<Rightarrow> address \<Rightarrow> int" where
  "spent_by (Transfer_From s' f' to n) f s = (if f' = f \<and> s' = s then n else 0)"
| "spent_by (Burn_From s' f' n) f s = (if f' = f \<and> s' = s then n else 0)"
| "spent_by _ f s = 0"

fun re_approves :: "token_call \<Rightarrow> address \<Rightarrow> address \<Rightarrow> bool" where
  "re_approves (Approve_Call f' s' n l) f s \<longleftrightarrow> f' = f \<and> s' = s"
| "re_approves _ f s \<longleftrightarrow> False"

definition stored_allowance :: "token \<Rightarrow> address \<Rightarrow> address \<Rightarrow> int" where
  "stored_allowance t f s = (case tk_allowance t (f, s) of None \<Rightarrow> 0 | Some v \<Rightarrow> av_amount v)"

text \<open>A run of calls, each in its own environment; a failing call changes nothing.\<close>

fun token_run :: "(ctx \<times> token_call) list \<Rightarrow> token \<Rightarrow> token" where
  "token_run [] t = t"
| "token_run ((env, c) # cs) t =
     (case token_exec env c t of Inl _ \<Rightarrow> token_run cs t | Inr t' \<Rightarrow> token_run cs t')"

fun spent_in :: "address \<Rightarrow> address \<Rightarrow> (ctx \<times> token_call) list \<Rightarrow> token \<Rightarrow> int" where
  "spent_in f s [] t = 0"
| "spent_in f s ((env, c) # cs) t =
     (case token_exec env c t of
        Inl _ \<Rightarrow> spent_in f s cs t
      | Inr t' \<Rightarrow> spent_by c f s + spent_in f s cs t')"

lemma spend_allowance_stored:
  assumes "spend_allowance env t f s n = Inr t'" and "0 \<le> n" and "token_ok t"
  shows "n + stored_allowance t' f s = stored_allowance t f s"
    and "(f', s') \<noteq> (f, s) \<Longrightarrow> stored_allowance t' f' s' = stored_allowance t f' s'"
proof -
  show "n + stored_allowance t' f s = stored_allowance t f s"
    using assms(1,2) token_okD(4) [OF assms(3)]
    by (auto simp: spend_allowance_def read_allowance_def stored_allowance_def Let_def rbind_simps
        split: if_splits option.splits)
  show "(f', s') \<noteq> (f, s) \<Longrightarrow> stored_allowance t' f' s' = stored_allowance t f' s'"
    using spend_allowance_Inr(7) [OF assms(1,2)] by (simp add: stored_allowance_def)
qed

lemma stored_allowance_cong:
  "tk_allowance t = tk_allowance t' \<Longrightarrow> stored_allowance t f s = stored_allowance t' f s"
  by (simp add: stored_allowance_def)

lemma token_exec_stored:
  assumes "token_exec env c t = Inr t'" and "token_ok t" and "\<not> re_approves c f s"
  shows "spent_by c f s + stored_allowance t' f s = stored_allowance t f s"
proof (cases c)
  case (Transfer_From s' f' to n)
  with assms(1) obtain t1 where sp: "spend_allowance env t f' s' n = Inr t1" "0 \<le> n"
    and eq: "tk_allowance t' = tk_allowance t1"
    by (auto simp: transfer_from_def rbind_simps)
  from spend_allowance_stored(1) [OF sp assms(2)] Transfer_From
    spend_allowance_stored(2) [OF sp assms(2), where f' = f and s' = s] show ?thesis
    by (auto simp: stored_allowance_cong [OF eq])
next
  case (Burn_From s' f' n)
  with assms(1) obtain t1 where sp: "spend_allowance env t f' s' n = Inr t1" "0 \<le> n"
    and eq: "tk_allowance t' = tk_allowance t1"
    by (auto simp: burn_from_def rbind_simps)
  from spend_allowance_stored(1) [OF sp assms(2)] Burn_From
    spend_allowance_stored(2) [OF sp assms(2), where f' = f and s' = s] show ?thesis
    by (auto simp: stored_allowance_cong [OF eq])
qed (use assms in \<open>auto simp: token_defs rbind_simps stored_allowance_def\<close>)

lemma stored_allowance_nonneg: "token_ok t \<Longrightarrow> 0 \<le> stored_allowance t f s"
  by (auto simp: stored_allowance_def token_ok_def split: option.splits)

lemma spent_in_bound:
  assumes "token_ok t"
    and "\<forall>(env, c) \<in> set cs. call_typed c \<and> \<not> re_approves c f s"
  shows "spent_in f s cs t + stored_allowance (token_run cs t) f s = stored_allowance t f s"
  using assms
proof (induction cs arbitrary: t)
  case Nil
  then show ?case by simp
next
  case (Cons ec cs)
  obtain env c where ec: "ec = (env, c)" by fastforce
  show ?case
  proof (cases "token_exec env c t")
    case (Inl e)
    with Cons ec show ?thesis by auto
  next
    case (Inr t')
    with Cons.prems ec have "token_ok t'" by (auto intro: token_exec_ok)
    moreover have "\<forall>(env, c) \<in> set cs. call_typed c \<and> \<not> re_approves c f s"
      using Cons.prems(2) by simp
    ultimately have "spent_in f s cs t' + stored_allowance (token_run cs t') f s =
        stored_allowance t' f s" by (rule Cons.IH)
    with Cons.prems Inr ec token_exec_stored [OF Inr, of f s] show ?thesis by simp
  qed
qed

section \<open>Properties\<close>

text \<open>
  Property C11. In every reachable ledger each balance is non-negative and at most the total
  supply, and the total supply is exactly what the event log says was minted less what it says was
  burned.
\<close>

theorem token_ledger_sound:
  assumes "token_reachable t"
  shows "(\<forall>a. 0 \<le> balance t a \<and> balance t a \<le> total_supply t \<and> in_i128 (balance t a)) \<and>
         total_supply t = net_issued (tk_events t)"
proof -
  from assms have "ledger_inv t" by (rule token_reachable_inv)
  then have ok: "token_ok t" and eq: "total_supply t = net_issued (tk_events t)"
    by (simp_all add: ledger_inv_def)
  have "mget (tk_balance t) a \<le> total_supply t" for a
    unfolding total_supply_def using token_okD(1,2) [OF ok] by (rule mget_le_msum)
  with token_okD(2,3) [OF ok] eq show ?thesis by (simp add: balance_def)
qed

definition demo_ctx :: "nat \<Rightarrow> address set \<Rightarrow> ctx" where
  "demo_ctx now signers =
     \<lparr>ledger_seq = now, authorized = (\<lambda>a. a \<in> signers), self = 99, ttl_ok = (\<lambda>_. True)\<rparr>"

definition demo_token :: token where
  "demo_token = \<lparr>tk_admin = Some 1, tk_balance = [2 \<mapsto> 500],
     tk_allowance = [(2, 3) \<mapsto> \<lparr>av_amount = 40, av_live_until = 10\<rparr>],
     tk_meta = Some \<lparr>md_decimal = 7, md_name = ''Verify'', md_symbol = ''VRFY''\<rparr>,
     tk_events = [MintWithAmountOnly 2 500, Approve 2 3 40 10]\<rparr>"

lemma demo_token_reachable: "token_reachable demo_token"
proof -
  let ?t0 = "\<lparr>tk_admin = Some 1, tk_balance = Map.empty, tk_allowance = Map.empty,
     tk_meta = Some \<lparr>md_decimal = 7, md_name = ''Verify'', md_symbol = ''VRFY''\<rparr>, tk_events = []\<rparr>"
  let ?t1 = "?t0\<lparr>tk_balance := [2 \<mapsto> 500], tk_events := [MintWithAmountOnly 2 500]\<rparr>"
  have "token_reachable ?t0"
    by (rule token_reachable.deploy [of 1 7 "''Verify''" "''VRFY''"])
      (simp add: token_constructor_def empty_token_def write_administrator_def)
  moreover have "token_step ?t0 ?t1"
    by (rule token_step.call [of "Mint 2 500" "demo_ctx 5 {1}"])
      (simp_all add: call_typed_def mint_def demo_ctx_def in_i128_def i128_min_def i128_max_def
        read_administrator_def receive_balance_def write_balance_def publish_def)
  moreover have "token_step ?t1 demo_token"
    by (rule token_step.call [of "Approve_Call 2 3 40 10" "demo_ctx 5 {2}"])
      (simp_all add: call_typed_def approve_def demo_ctx_def in_i128_def i128_min_def i128_max_def
        write_allowance_def publish_def demo_token_def)
  ultimately show ?thesis by (blast intro: token_reachable.step)
qed

theorem token_ledger_sound_witness:
  "balance demo_token 2 = 500 \<and> total_supply demo_token = net_issued (tk_events demo_token)"
  using token_ledger_sound [OF demo_token_reachable]
  by (simp add: demo_token_def balance_def)

text \<open>
  On a well-formed ledger the outcome of \<open>transfer\<close> is determined branch by branch:
  the owner's signature, the sign of the amount, the covering balance, the receiver's i128 range (a
  transfer to oneself cannot overflow); on success exactly the two accounts named change, a
  transfer to oneself changes no balance, and the total supply is conserved.
\<close>

theorem transfer_outcome:
  assumes "token_ok t" and "in_i128 n"
  shows "case transfer env t f m n of
      Inl (AuthFailed a) \<Rightarrow> a = f \<and> \<not> authorized env f
    | Inl NegativeAmount \<Rightarrow> authorized env f \<and> n < 0
    | Inl InsufficientBalance \<Rightarrow> authorized env f \<and> 0 \<le> n \<and> balance t f < n
    | Inl Overflow \<Rightarrow> authorized env f \<and> 0 \<le> n \<and> n \<le> balance t f \<and> f \<noteq> mx_address m \<and>
        i128_max < balance t (mx_address m) + n
    | Inl _ \<Rightarrow> False
    | Inr t' \<Rightarrow> authorized env f \<and> 0 \<le> n \<and> n \<le> balance t f \<and>
        total_supply t' = total_supply t \<and>
        (\<forall>a. balance t' a = balance t a - (if a = f then n else 0)
                                     + (if a = mx_address m then n else 0))"
proof (cases "transfer env t f m n")
  case (Inr t')
  then have x: "token_exec env (Transfer_Call f m n) t = Inr t'" by simp
  from Inr have g: "authorized env f" "0 \<le> n" "n \<le> balance t f"
    by (simp_all add: balance_def transfer_def rbind_simps)
  have "total_supply t' = total_supply t"
    using token_exec_supply [OF x token_okD(1) [OF assms(1)]] by simp
  moreover have "balance t' a = balance t a - (if a = f then n else 0)
      + (if a = mx_address m then n else 0)" for a
    using token_exec_balance [OF x, of a] by (simp add: balance_def)
  ultimately show ?thesis using g unfolding Inr sum.case by blast
next
  case (Inl e)
  have 1: "in_i128 (mget (tk_balance t) f - n)" if "0 \<le> n"
    using in_i128_neg_diff [OF _ _ that assms(2)] token_okD(2,3) [OF assms(1)] by blast
  have 2: "0 \<le> mget (tk_balance t) a" "in_i128 (mget (tk_balance t) a)" for a
    using token_okD(2,3) [OF assms(1)] by blast+
  show ?thesis
    using Inl 1 2 [of f] 2 [of "mx_address m"]
    by (auto simp: transfer_def require_auth_def check_nonnegative_amount_def spend_balance_def
        receive_balance_def balance_def Let_def chk_i128_def in_i128_nonneg
        split: if_splits)
qed

lemma demo_token_ok: "token_ok demo_token"
  using token_reachable_inv [OF demo_token_reachable] by (simp add: ledger_inv_def)

theorem transfer_outcome_witness:
  "\<exists>t'. transfer (demo_ctx 5 {2}) demo_token 2 \<lparr>mx_address = 4, mx_id = None\<rparr> 100 = Inr t' \<and>
     balance t' 2 = 400 \<and> balance t' 4 = 100 \<and> total_supply t' = total_supply demo_token"
proof -
  have n: "in_i128 100" by (simp add: in_i128_def i128_min_def i128_max_def)
  have "\<exists>t'. transfer (demo_ctx 5 {2}) demo_token 2 \<lparr>mx_address = 4, mx_id = None\<rparr> 100 = Inr t'"
    by (simp add: transfer_def demo_ctx_def demo_token_def spend_balance_def receive_balance_def
        Let_def chk_i128_def in_i128_def i128_min_def i128_max_def mget_def)
  then show ?thesis
    using transfer_outcome [OF demo_token_ok n, where env = "demo_ctx 5 {2}" and f = 2 and
        m = "\<lparr>mx_address = 4, mx_id = None\<rparr>"]
    by (auto simp: balance_def demo_token_def mget_def)
qed

text \<open>
  Property C12. Nobody loses tokens unsigned: when a successful call lowers \<open>a\<close>'s balance, either
  \<open>a\<close> authorized the call, or an authorized spender held an allowance of \<open>a\<close> covering the whole
  amount and that allowance has gone down by exactly the amount taken.
\<close>

theorem balance_only_falls_signed:
  assumes "token_exec env c t = Inr t'" and "balance t' a < balance t a"
  shows "authorized env a \<or>
    (\<exists>s. authorized env s \<and> balance t a - balance t' a \<le> allowance env t a s \<and>
         allowance env t' a s \<le> allowance env t a s - (balance t a - balance t' a))"
proof -
  from assms token_exec_balance [OF assms(1), of a] credit_nonneg [OF assms(1), of a]
  have "0 < debit_of c a" and "balance t a - balance t' a \<le> debit_of c a"
    by (simp_all add: balance_def)
  with debit_signed [OF assms(1), of a] show ?thesis by fastforce
qed

theorem balance_only_falls_signed_witness:
  "\<exists>t'. token_exec (demo_ctx 6 {3}) (Transfer_From 3 2 4 30) demo_token = Inr t' \<and>
     balance t' 2 = 470 \<and> allowance (demo_ctx 6 {3}) t' 2 3 \<le> 10"
proof -
  let ?e = "demo_ctx 6 {3}"
  have "\<exists>t'. token_exec ?e (Transfer_From 3 2 4 30) demo_token = Inr t'"
    by (simp add: transfer_from_def demo_ctx_def demo_token_def spend_allowance_def read_allowance_def
        write_allowance_def spend_balance_def receive_balance_def Let_def chk_i128_def in_i128_def
        i128_min_def i128_max_def mget_def)
  then obtain t' where t': "token_exec ?e (Transfer_From 3 2 4 30) demo_token = Inr t'" by blast
  have b: "balance t' 2 = 470"
    using token_exec_balance [OF t', of 2] by (simp add: balance_def demo_token_def)
  moreover have "\<exists>s. authorized ?e s \<and> allowance ?e t' 2 s \<le> allowance ?e demo_token 2 s - 30"
    using balance_only_falls_signed [OF t', of 2] b
    by (simp add: balance_def demo_token_def demo_ctx_def)
  then have "allowance ?e t' 2 3 \<le> allowance ?e demo_token 2 3 - 30"
    by (simp add: demo_ctx_def)
  then have "allowance ?e t' 2 3 \<le> 10"
    by (simp add: allowance_def read_allowance_def demo_token_def demo_ctx_def)
  ultimately show ?thesis using t' by blast
qed

text \<open>
  Property C13. Until the owner approves the spender anew, everything the spender moves out of the
  owner's account over any sequence of calls (in any environments, failing calls included) together
  with what is left of the allowance is exactly the allowance at the start: it is never exceeded.
\<close>

theorem allowance_never_exceeded:
  assumes "token_ok t"
    and "\<forall>(env, c) \<in> set cs. call_typed c \<and> \<not> re_approves c f s"
  shows "spent_in f s cs t + stored_allowance (token_run cs t) f s = stored_allowance t f s \<and>
         spent_in f s cs t \<le> stored_allowance t f s"
proof -
  have "token_ok (token_run cs t)" using assms
  proof (induction cs arbitrary: t)
    case (Cons ec cs)
    then show ?case by (cases ec) (auto split: sum.splits intro: token_exec_ok)
  qed simp
  with spent_in_bound [OF assms] stored_allowance_nonneg [of "token_run cs t" f s]
  show ?thesis by simp
qed

theorem allowance_never_exceeded_witness:
  "spent_in 2 3 [(demo_ctx 6 {3}, Transfer_From 3 2 4 30), (demo_ctx 6 {3}, Burn_From 3 2 30)]
     demo_token \<le> 40"
  using allowance_never_exceeded [OF demo_token_ok, where f = 2 and s = 3 and
      cs = "[(demo_ctx 6 {3}, Transfer_From 3 2 4 30), (demo_ctx 6 {3}, Burn_From 3 2 30)]"]
  by (simp add: call_typed_def in_i128_def i128_min_def i128_max_def stored_allowance_def
      demo_token_def)

text \<open>
  What \<open>allowance\<close> reports does not depend on whether the host has already evicted an
  expired (or zero) temporary entry: the code's own expiry check gives the same answer.
\<close>

theorem allowance_eviction_transparent:
  assumes "tk_allowance t k = Some v" and "evictable (ledger_seq env) v"
  shows "allowance env (evict k t) f s = allowance env t f s"
  using assms by (auto simp: allowance_def read_allowance_def evict_def evictable_def)

theorem allowance_eviction_transparent_witness:
  "allowance (demo_ctx 11 {}) (evict (2, 3) demo_token) 2 3 = allowance (demo_ctx 11 {}) demo_token 2 3"
  by (rule allowance_eviction_transparent [where v = "\<lparr>av_amount = 40, av_live_until = 10\<rparr>"])
    (simp_all add: demo_token_def evictable_def demo_ctx_def)

end
