(* ===== verification/RegistryVrfy.thy ===== *)
theory RegistryVrfy
  imports RegistrySystem TokenLedger
begin

text \<open>
  The registry on the VRFY token: the token model provides what \<open>stake_token\<close> asks for, and the
  registry's properties follow for every state the two contracts can reach together.
\<close>

section \<open>The token as the registry's client sees it\<close>

definition vrfy_client :: "address \<Rightarrow> token token_client" where
  "vrfy_client T = \<lparr>
     tc_transfer = (\<lambda>a env t from to n.
        if a = T then transfer env t from \<lparr>mx_address = to, mx_id = None\<rparr> n
        else Inl (NoSuchContract a)),
     tc_burn = (\<lambda>a env t from n. if a = T then burn env t from n else Inl (NoSuchContract a))\<rparr>"

definition vrfy_inv :: "address \<Rightarrow> token \<Rightarrow> bool" where
  "vrfy_inv R t \<longleftrightarrow> ledger_inv t \<and> (\<forall>s. tk_allowance t (R, s) = None)"

text \<open>Everybody else: any token call the registry's address did not sign, and evictions.\<close>

inductive vrfy_foreign :: "address \<Rightarrow> token \<Rightarrow> token \<Rightarrow> bool" for R where
  call: "call_typed c \<Longrightarrow> \<not> authorized env R \<Longrightarrow> token_exec env c t = Inr t' \<Longrightarrow> vrfy_foreign R t t'"
| expire: "tk_allowance t k = Some v \<Longrightarrow> evictable now v \<Longrightarrow> vrfy_foreign R t (evict k t)"

lemma ledger_inv_ok: "ledger_inv t \<Longrightarrow> token_ok t"
  by (simp add: ledger_inv_def)

lemma spend_allowance_none:
  assumes "spend_allowance env t f s n = Inr t'" and "0 \<le> n" and "tk_allowance t (R, x) = None"
  shows "tk_allowance t' (R, x) = None" and "f = R \<Longrightarrow> s = x \<Longrightarrow> n = 0"
  using assms
  by (auto simp: spend_allowance_def read_allowance_def Let_def rbind_simps
      split: if_splits option.splits)

lemma token_exec_no_allowance:
  assumes "token_exec env c t = Inr t'" and "\<not> authorized env R" and "\<forall>s. tk_allowance t (R, s) = None"
  shows "\<forall>s. tk_allowance t' (R, s) = None"
proof (cases c)
  case (Transfer_From s' f' to n)
  with assms(1) obtain t1 where sp: "spend_allowance env t f' s' n = Inr t1" "0 \<le> n"
    and eq: "tk_allowance t' = tk_allowance t1"
    by (auto simp: transfer_from_def rbind_simps)
  with spend_allowance_none(1) [OF sp] assms(3) show ?thesis by simp
next
  case (Burn_From s' f' n)
  with assms(1) obtain t1 where sp: "spend_allowance env t f' s' n = Inr t1" "0 \<le> n"
    and eq: "tk_allowance t' = tk_allowance t1"
    by (auto simp: burn_from_def rbind_simps)
  with spend_allowance_none(1) [OF sp] assms(3) show ?thesis by simp
qed (use assms in \<open>auto simp: token_defs rbind_simps\<close>)

lemma no_allowance_no_debit:
  assumes "token_exec env c t = Inr t'" and "\<not> authorized env R" and "\<forall>s. tk_allowance t (R, s) = None"
  shows "debit_of c R = 0"
proof (rule ccontr)
  assume "debit_of c R \<noteq> 0"
  then have pos: "0 < debit_of c R" using debit_nonneg [OF assms(1), of R] by simp
  from debit_signed [OF assms(1) pos] assms(2) obtain s where "debit_of c R \<le> allowance env t R s"
    by blast
  with assms(3) pos show False by (simp add: allowance_def read_allowance_def)
qed

lemma vrfy_foreign_effect:
  assumes "vrfy_inv R t" and "vrfy_foreign R t t'"
  shows "vrfy_inv R t' \<and> balance t R \<le> balance t' R"
  using assms(2,1)
proof (induction rule: vrfy_foreign.induct)
  case (call c env t t')
  have "debit_of c R = 0"
    using no_allowance_no_debit [OF call.hyps(3,2)] call.prems by (simp add: vrfy_inv_def)
  then have "balance t R \<le> balance t' R"
    using token_exec_balance [OF call.hyps(3), of R] credit_nonneg [OF call.hyps(3), of R]
    by (simp add: balance_def)
  moreover have "vrfy_inv R t'"
    using call ledger_inv_exec token_exec_no_allowance unfolding vrfy_inv_def by blast
  ultimately show ?case by simp
next
  case (expire t k v now)
  have "ledger_inv (evict k t)"
    using ledger_inv_step [OF token_step.expire [OF expire.hyps]] expire.prems
    by (simp add: vrfy_inv_def)
  then show ?case using expire.prems by (simp add: vrfy_inv_def balance_def) (simp add: evict_def)
qed

lemma vrfy_call_effect:
  assumes "vrfy_inv R t" and "token_exec env c t = Inr t'" and "0 \<le> call_amount c"
    and "call_amount c \<le> i128_max" and "\<And>s. tk_allowance t' (R, s) = tk_allowance t (R, s)"
  shows "vrfy_inv R t'" and "balance t' a = balance t a - debit_of c a + credit_of c a"
proof -
  have "call_typed c" using assms(3,4) by (simp add: call_typed_def in_i128_nonneg)
  with assms show "vrfy_inv R t'" by (auto simp: vrfy_inv_def intro: ledger_inv_exec)
  show "balance t' a = balance t a - debit_of c a + credit_of c a"
    using token_exec_balance [OF assms(2)] by (simp add: balance_def)
qed

lemma vrfy_bal_range: "vrfy_inv R t \<Longrightarrow> 0 \<le> balance t a \<and> balance t a \<le> i128_max"
  using token_okD(2,3) [OF ledger_inv_ok, of t a] by (simp add: vrfy_inv_def balance_def in_i128_def)

lemma vrfy_transfer_effect:
  assumes inv: "vrfy_inv R t" and tr: "tc_transfer (vrfy_client T) T env t f to n = Inr t'"
  shows "vrfy_inv R t' \<and>
    (\<forall>a. balance t' a = balance t a - (if a = f then n else 0) + (if a = to then n else 0))"
proof -
  let ?c = "Transfer_Call f \<lparr>mx_address = to, mx_id = None\<rparr> n"
  from tr have ex: "token_exec env ?c t = Inr t'" by (simp add: vrfy_client_def)
  then have "0 \<le> n" "n \<le> balance t f" and "\<And>s. tk_allowance t' (R, s) = tk_allowance t (R, s)"
    by (auto simp: transfer_def rbind_simps balance_def)
  with vrfy_call_effect [OF inv ex] vrfy_bal_range [OF inv, of f] show ?thesis by simp
qed

lemma vrfy_burn_effect:
  assumes inv: "vrfy_inv R t" and tr: "tc_burn (vrfy_client T) T env t f n = Inr t'"
  shows "vrfy_inv R t' \<and> (\<forall>a. balance t' a = balance t a - (if a = f then n else 0))"
proof -
  from tr have ex: "token_exec env (Burn_Call f n) t = Inr t'" by (simp add: vrfy_client_def)
  then have "0 \<le> n" "n \<le> balance t f" and "\<And>s. tk_allowance t' (R, s) = tk_allowance t (R, s)"
    by (auto simp: burn_def rbind_simps balance_def)
  with vrfy_call_effect [OF inv ex] vrfy_bal_range [OF inv, of f] show ?thesis by simp
qed

lemma spend_receive_total:
  assumes "token_ok t" and "0 \<le> n" and "n \<le> balance t f"
  shows "spend_balance t f n = Inr (write_balance t f (balance t f - n))"
  using assms token_okD(3) [OF assms(1), of f] in_i128_mono [of "balance t f" "balance t f - n"]
  by (simp add: spend_balance_Inr balance_def)

lemma vrfy_transfer_total:
  assumes "vrfy_inv R t" and "authorized env f" and "0 \<le> n" and "n \<le> balance t f"
    and "f \<noteq> to" and "balance t to + n \<le> i128_max"
  shows "\<exists>t'. tc_transfer (vrfy_client T) T env t f to n = Inr t'"
proof -
  have ok: "token_ok t" using assms(1) by (simp add: vrfy_inv_def ledger_inv_ok)
  have "in_i128 (mget (tk_balance t) to + n)"
    using assms(3,6) token_okD(2) [OF ok, of to] by (simp add: in_i128_nonneg balance_def)
  with assms spend_receive_total [OF ok assms(3,4)] show ?thesis
    by (simp add: vrfy_client_def transfer_def receive_balance_def balance_def)
qed

lemma vrfy_burn_total:
  assumes "vrfy_inv R t" and "authorized env f" and "0 \<le> n" and "n \<le> balance t f"
  shows "\<exists>t'. tc_burn (vrfy_client T) T env t f n = Inr t'"
  using assms spend_receive_total [OF _ assms(3,4)]
  by (simp add: vrfy_client_def burn_def vrfy_inv_def ledger_inv_ok)

interpretation vrfy: stake_token "vrfy_client T" T R balance "vrfy_inv R" "vrfy_foreign R" for T R
  by unfold_locales
    (rule vrfy_bal_range vrfy_transfer_effect vrfy_transfer_total vrfy_burn_effect vrfy_burn_total
      vrfy_foreign_effect; assumption)+

section \<open>Reachable systems\<close>

text \<open>
  The registry is constructed for the token at \<open>T\<close>, over any reachable ledger in which the new
  contract address \<open>R\<close> has given no allowance; from then on anything may happen.
\<close>

inductive vrfy_reachable :: "config \<Rightarrow> address \<Rightarrow> address \<Rightarrow> token system \<Rightarrow> bool" for cfg T R where
  deploy: "reg_constructor T m q w u b empty_registry = Inr r \<Longrightarrow> rg_config r = Some cfg \<Longrightarrow>
     token_reachable k \<Longrightarrow> (\<And>s. tk_allowance k (R, s) = None) \<Longrightarrow>
     vrfy_reachable cfg T R (now, r, k)"
| step: "vrfy_reachable cfg T R s \<Longrightarrow> sys_step (vrfy_client T) R (vrfy_foreign R) s s' \<Longrightarrow>
     vrfy_reachable cfg T R s'"

lemma reg_constructor_cfg_ok:
  assumes "reg_constructor T m q w u b r0 = Inr r" and "rg_config r = Some cfg"
  shows "cfg_ok cfg" and "cfg_token cfg = T"
  using assms by (auto simp: reg_constructor_def cfg_ok_def split: if_splits)

lemma vrfy_deploy_inv:
  assumes "reg_constructor T m q w u b empty_registry = Inr r" and "rg_config r = Some cfg"
    and "token_reachable k" and "\<And>s. tk_allowance k (R, s) = None"
  shows "sys_inv cfg T R balance (vrfy_inv R) (now, r, k)"
proof -
  from assms(1) have r: "rg_stake r = Map.empty" "rg_opened r = Map.empty"
    "rg_attesters r = Map.empty" "rg_att r = Map.empty" "rg_slashed r = Map.empty"
    by (auto simp: reg_constructor_def empty_registry_def split: if_splits)
  have k: "vrfy_inv R k" using assms(3,4) by (simp add: vrfy_inv_def token_reachable_inv)
  show ?thesis
    using assms(2) reg_constructor_cfg_ok [OF assms(1,2)] k vrfy_bal_range [OF k]
    by (intro sys_invI)
      (simp_all add: r stakes_ok_def read_stake_def total_staked_def claim_ok_def)
qed

lemma vrfy_reachable_inv:
  "vrfy_reachable cfg T R s \<Longrightarrow> sys_inv cfg T R balance (vrfy_inv R) s"
proof (induction rule: vrfy_reachable.induct)
  case (deploy m q w u b r k now)
  then show ?case by (rule vrfy_deploy_inv)
next
  case (step s s')
  then show ?case using vrfy.inv_step by blast
qed

lemma vrfy_reachable_steps:
  "sys_steps (vrfy_client T) R (vrfy_foreign R) s s' \<Longrightarrow> vrfy_reachable cfg T R s \<Longrightarrow>
   vrfy_reachable cfg T R s'"
  by (induction rule: sys_steps.induct) (auto intro: vrfy_reachable.step)

end
