(* ===== verification/RegistryProps.thy ===== *)
theory RegistryProps
  imports RegistryVrfy
begin

text \<open>
  What never changes while the system runs (closed claims, slash marks, the configuration), how
  long an attester's stake stays reachable for a slash, and the registry's properties.
\<close>

section \<open>What a run keeps\<close>

definition frame :: "config \<Rightarrow> 'tok system \<Rightarrow> 'tok system \<Rightarrow> bool" where
  "frame cfg = (\<lambda>(now, r, k) (now', r', k').
     now \<le> now' \<and> rg_config r' = Some cfg \<and>
     (\<forall>x. rg_slashed r x \<noteq> None \<longrightarrow> rg_slashed r' x \<noteq> None) \<and>
     (\<forall>c. closed cfg now r c \<longrightarrow> same_claim r r' c))"

lemma frameD:
  assumes "frame cfg (now, r, k) (now', r', k')"
  shows "now \<le> now'" "rg_config r' = Some cfg" "rg_slashed r x \<noteq> None \<Longrightarrow> rg_slashed r' x \<noteq> None"
    "closed cfg now r c \<Longrightarrow> same_claim r r' c"
  using assms unfolding frame_def prod.case by blast+

lemma frame_same:
  assumes "rg_config r = Some cfg" and "now \<le> now'" and "rg_config r' = rg_config r"
    and "rg_slashed r' = rg_slashed r" and "rg_opened r' = rg_opened r"
    and "rg_attesters r' = rg_attesters r" and "rg_att r' = rg_att r"
  shows "frame cfg (now, r, k) (now', r', k')"
  using assms by (simp add: frame_def same_claim_def)

lemma frame_attest:
  assumes "attest env (r, k) v w d h = Inr (r', k')" and "rg_config r = Some cfg"
    and "ledger_seq env = now"
  shows "frame cfg (now, r, k) (now, r', k')"
  using assms(1)
proof (cases rule: attest_Inr)
  case (1 cfg' o_led)
  have "\<not> closed cfg now r (w, d)"
    using 1(2,6) assms(2,3) by (auto simp: closed_def)
  then show ?thesis using assms(2) by (auto simp: frame_def same_claim_def 1)
qed

lemma frame_slash:
  assumes "slash tc env (r, k) w d v = Inr (n, r', k')" and "rg_config r = Some cfg"
  shows "frame cfg (now, r, k) (now, r', k')"
  using assms(1)
proof (cases rule: slash_Inr)
  case (1 cfg' opened att)
  show ?thesis using assms(2) by (auto simp: frame_def same_claim_def 1(12))
qed

lemma frame_exec:
  assumes "reg_exec tc env c (r, k) = Inr (r', k')" and "rg_config r = Some cfg"
    and "ledger_seq env = now"
  shows "frame cfg (now, r, k) (now, r', k')"
proof (cases c)
  case (Stake_Call v n)
  with assms(1) have "stake tc env (r, k) v n = Inr (r', k')" by simp
  then show ?thesis by (cases rule: stake_Inr) (simp add: frame_same [OF assms(2)])
next
  case (Request_Unstake v n)
  with assms(1) have "request_unstake env (r, k) v n = Inr (r', k')" by simp
  then show ?thesis by (cases rule: request_unstake_Inr) (simp add: frame_same [OF assms(2)])
next
  case (Withdraw_Call v)
  with assms(1) obtain n where "withdraw tc env (r, k) v = Inr (n, r', k')"
    by (auto simp: rbind_simps)
  then show ?thesis by (cases rule: withdraw_Inr) (simp add: frame_same [OF assms(2)])
next
  case (Attest_Call v w d h)
  with assms show ?thesis by (simp add: frame_attest)
next
  case (Slash_Call w d v)
  with assms(1) obtain n where "slash tc env (r, k) w d v = Inr (n, r', k')"
    by (auto simp: rbind_simps)
  then show ?thesis using assms(2) by (rule frame_slash)
qed

lemma frame_step:
  "sys_step tc home foreign s s' \<Longrightarrow> rg_config (fst (snd s)) = Some cfg \<Longrightarrow> frame cfg s s'"
proof (induction rule: sys_step.induct)
  case (call env now c r k r' k')
  then show ?case using frame_exec by simp
qed (simp_all add: frame_same)

lemma frame_trans: "frame cfg s t \<Longrightarrow> frame cfg t u \<Longrightarrow> frame cfg s u"
proof -
  assume st: "frame cfg s t" and tu: "frame cfg t u"
  obtain n1 r1 k1 n2 r2 k2 n3 r3 k3 where e: "s = (n1, r1, k1)" "t = (n2, r2, k2)" "u = (n3, r3, k3)"
    by (metis prod_cases3)
  have "same_claim r1 r3 c" if "closed cfg n1 r1 c" for c
  proof -
    have "same_claim r1 r2 c" and "n1 \<le> n2" using st that unfolding e by (simp_all add: frameD)
    moreover from this that have "closed cfg n2 r2 c" by (auto simp: closed_def same_claim_def)
    then have "same_claim r2 r3 c" using tu unfolding e by (simp add: frameD)
    ultimately show ?thesis by (simp add: same_claim_def)
  qed
  moreover have "n1 \<le> n3" using st tu e by (auto simp: frame_def)
  moreover have "rg_slashed r3 x \<noteq> None" if "rg_slashed r1 x \<noteq> None" for x
    using st tu that unfolding e by (blast dest: frameD)
  moreover have "rg_config r3 = Some cfg" using tu e by (simp add: frame_def)
  ultimately show ?thesis unfolding frame_def e by simp
qed

lemma frame_steps:
  "sys_steps tc home foreign s s' \<Longrightarrow> rg_config (fst (snd s)) = Some cfg \<Longrightarrow> frame cfg s s'"
proof (induction rule: sys_steps.induct)
  case (refl s)
  then show ?case by (cases s) (simp add: frame_same)
next
  case (step s t u)
  then have st: "frame cfg s t" by simp
  then have "rg_config (fst (snd t)) = Some cfg" by (auto simp: frame_def)
  with step.hyps(2) have "frame cfg t u" by (rule frame_step)
  with st show ?case by (rule frame_trans)
qed

section \<open>Stake that stays within reach\<close>

fun event_slash :: "address \<Rightarrow> reg_event \<Rightarrow> int" where
  "event_slash v (Slashed u w d n) = (if u = v then n else 0)"
| "event_slash v _ = 0"

definition slashed_of :: "registry \<Rightarrow> address \<Rightarrow> int" where
  "slashed_of r v = sum_list (map (event_slash v) (rg_events r))"

lemma slashed_of_publish [simp]:
  "slashed_of (publish_reg ev r) v = slashed_of r v + event_slash v ev"
  by (simp add: slashed_of_def publish_reg_def)

lemma slashed_of_put [simp]: "slashed_of (put_stake r v i) u = slashed_of r u"
  by (simp add: slashed_of_def put_stake_def)

lemma slashed_of_upd [simp]: "slashed_of (r\<lparr>rg_slashed := m\<rparr>) u = slashed_of r u"
  "slashed_of (r\<lparr>rg_att := m1\<rparr>) u = slashed_of r u"
  "slashed_of (r\<lparr>rg_attesters := m2\<rparr>) u = slashed_of r u"
  "slashed_of (r\<lparr>rg_opened := m3\<rparr>) u = slashed_of r u"
  by (simp_all add: slashed_of_def)

text \<open>
  From the attestation at ledger \<open>L\<close> on: either enough is still staked, or the unbonding pool it
  moved to is locked until \<open>L + unbond_period\<close>; slashes since then are counted back in.
\<close>

definition locked :: "config \<Rightarrow> nat \<Rightarrow> int \<Rightarrow> address \<Rightarrow> registry \<Rightarrow> bool" where
  "locked cfg L s0 v r \<longleftrightarrow>
     (let i = read_stake r v; s = slashed_of r v - s0 in
      cfg_min_stake cfg \<le> si_staked i + s \<or>
      (cfg_min_stake cfg \<le> si_staked i + si_unbonding i + s \<and>
       L + cfg_unbond_period cfg \<le> si_release i))"

lemma locked_exec:
  assumes "reg_exec tc env c (r, k) = Inr (r', k')" and "rg_config r = Some cfg" and "cfg_ok cfg"
    and "L \<le> ledger_seq env" and "ledger_seq env < L + cfg_unbond_period cfg"
    and "stakes_ok r" and "locked cfg L s0 v r"
  shows "locked cfg L s0 v r'"
proof (cases c)
  case (Stake_Call u n)
  with assms(1) have "stake tc env (r, k) u n = Inr (r', k')" by simp
  then show ?thesis using assms(7)
    by (cases rule: stake_Inr) (auto simp: locked_def Let_def)
next
  case (Request_Unstake u n)
  with assms(1) have "request_unstake env (r, k) u n = Inr (r', k')" by simp
  then show ?thesis using assms(2,4,7) stakes_okD(3) [OF assms(6), of v]
    by (cases rule: request_unstake_Inr) (auto simp: locked_def Let_def)
next
  case (Withdraw_Call u)
  with assms(1) obtain n where "withdraw tc env (r, k) u = Inr (n, r', k')"
    by (auto simp: rbind_simps)
  then show ?thesis using assms(5,7)
    by (cases rule: withdraw_Inr) (auto simp: locked_def Let_def)
next
  case (Attest_Call u w d h)
  with assms(1) have "attest env (r, k) u w d h = Inr (r', k')" by simp
  moreover from this have "rg_stake r' = rg_stake r" by (cases rule: attest_Inr) simp
  moreover have "slashed_of r' v = slashed_of r v" using calculation(1)
    by (auto simp: attest_def rbind_simps Let_def split: if_splits option.splits)
  ultimately show ?thesis using assms(7) by (simp add: locked_def read_stake_def)
next
  case (Slash_Call w d u)
  with assms(1) obtain n where "slash tc env (r, k) w d u = Inr (n, r', k')"
    by (auto simp: rbind_simps)
  then show ?thesis
  proof (cases rule: slash_Inr)
    case (1 cfg' opened att)
    let ?j = "(read_stake r u)\<lparr>
           si_staked := si_staked (read_stake r u) - min n (si_staked (read_stake r u)),
           si_unbonding := si_unbonding (read_stake r u) - (n - min n (si_staked (read_stake r u)))\<rparr>"
    have st: "read_stake r' v = (if v = u then ?j else read_stake r v)"
      unfolding 1(12) by (simp add: read_stake_def)
    have sl: "slashed_of r' v = slashed_of r v + (if v = u then n else 0)" by (simp add: 1(12))
    show ?thesis using assms(7) unfolding locked_def st sl by (auto simp: Let_def min_def)
  qed
qed

lemma stake_of_attester_kept:
  assumes "locked cfg L s0 v r" and "stakes_ok r"
  shows "cfg_min_stake cfg \<le> held r v + (slashed_of r v - s0)"
  using assms(1) stakes_okD(3) [OF assms(2), of v] by (auto simp: locked_def held_def Let_def)

lemma locked_steps:
  assumes "sys_steps (vrfy_client T) R (vrfy_foreign R) s s'"
    and "vrfy_reachable cfg T R s" and "locked cfg L s0 v (fst (snd s))" and "L \<le> fst s"
    and "fst s' < L + cfg_unbond_period cfg"
  shows "locked cfg L s0 v (fst (snd s'))"
  using assms
proof (induction rule: sys_steps.induct)
  case (refl s)
  then show ?case by simp
next
  case (step s t u)
  from step.hyps(1) step.prems(1) have "vrfy_reachable cfg T R t" by (rule vrfy_reachable_steps)
  then have inv: "sys_inv cfg T R balance (vrfy_inv R) t" by (rule vrfy_reachable_inv)
  have "frame cfg s t" using step.hyps(1) vrfy_reachable_inv [OF step.prems(1)]
    by (intro frame_steps) (auto simp: sys_inv_def)
  then have Lt: "L \<le> fst t" using step.prems(3) by (auto simp: frame_def)
  from step.hyps(2) show ?case
  proof (cases rule: sys_step.cases)
    case (call env now c r k r' k')
    have lk: "locked cfg L s0 v r"
      using step.IH step.prems call by simp
    from inv call have "rg_config r = Some cfg" "cfg_ok cfg" "stakes_ok r"
      by (auto simp: sys_inv_def)
    with lk call step.prems(4) Lt locked_exec [of "vrfy_client T" env c r k r' k' cfg L s0 v]
    show ?thesis by simp
  next
    case (other k k' now r)
    with step show ?thesis by simp
  next
    case (tick now now' r k)
    with step show ?thesis by simp
  qed
qed

section \<open>A concrete system\<close>

text \<open>
  Three verifiers, 1, 2 and 3, stake and attest on one claim; 3 dissents. The registry is contract
  99, its token contract 60.
\<close>

fun sys_run ::
  "'tok token_client \<Rightarrow> (ctx \<times> reg_call) list \<Rightarrow> registry \<times> 'tok \<Rightarrow> fail + (registry \<times> 'tok)" where
  "sys_run tc [] w = Inr w"
| "sys_run tc ((env, c) # cs) w = rbind (reg_exec tc env c w) (sys_run tc cs)"

fun in_order :: "nat \<Rightarrow> address \<Rightarrow> (ctx \<times> reg_call) list \<Rightarrow> bool" where
  "in_order now R [] = True"
| "in_order now R ((env, c) # cs) \<longleftrightarrow>
     self env = R \<and> \<not> authorized env R \<and> now \<le> ledger_seq env \<and> in_order (ledger_seq env) R cs"

fun end_ledger :: "nat \<Rightarrow> (ctx \<times> reg_call) list \<Rightarrow> nat" where
  "end_ledger now [] = now"
| "end_ledger now ((env, c) # cs) = end_ledger (ledger_seq env) cs"

lemma sys_run_steps:
  assumes "sys_run tc cs (r, k) = Inr (r', k')" and "in_order now home cs"
  shows "sys_steps tc home foreign (now, r, k) (end_ledger now cs, r', k')"
proof -
  have "sys_steps tc home foreign s (end_ledger now cs, r', k')"
    if "sys_run tc cs (r, k) = Inr (r', k')" "in_order now home cs"
      "sys_steps tc home foreign s (now, r, k)" for s
    using that
  proof (induction cs arbitrary: now r k)
    case Nil
    then show ?case by simp
  next
    case (Cons ec cs)
    obtain env c where ec: "ec = (env, c)" by fastforce
    with Cons.prems(1) obtain r1 k1 where ex: "reg_exec tc env c (r, k) = Inr (r1, k1)"
      and run: "sys_run tc cs (r1, k1) = Inr (r', k')" by (auto simp: rbind_simps)
    have "sys_steps tc home foreign s (ledger_seq env, r, k)"
      using Cons.prems(2,3) ec sys_steps.step [OF Cons.prems(3) sys_step.tick]
      by (cases "now = ledger_seq env") auto
    moreover have "sys_step tc home foreign (ledger_seq env, r, k) (ledger_seq env, r1, k1)"
      using Cons.prems(2) ec ex by (intro sys_step.call [of env home]) auto
    ultimately have "sys_steps tc home foreign s (ledger_seq env, r1, k1)" by (rule sys_steps.step)
    with Cons.IH [OF run] Cons.prems(2) ec show ?case by simp
  qed
  from this [OF assms sys_steps.refl] show ?thesis .
qed

definition demo_cfg :: config where
  "demo_cfg = \<lparr>cfg_token = 60, cfg_min_stake = 100, cfg_quorum = 3, cfg_attest_window = 10,
     cfg_unbond_period = 20, cfg_slash_bps = 5000\<rparr>"

definition demo_registry :: registry where
  "demo_registry = empty_registry\<lparr>rg_config := Some demo_cfg\<rparr>"

definition demo_funded :: token where
  "demo_funded = \<lparr>tk_admin = Some 0, tk_balance = [1 \<mapsto> 1000, 2 \<mapsto> 1000, 3 \<mapsto> 1000],
     tk_allowance = Map.empty, tk_meta = Some \<lparr>md_decimal = 7, md_name = ''Verify'', md_symbol = ''VRFY''\<rparr>,
     tk_events = [MintWithAmountOnly 1 1000, MintWithAmountOnly 2 1000, MintWithAmountOnly 3 1000]\<rparr>"

definition demo_calls :: "(ctx \<times> reg_call) list" where
  "demo_calls =
    [(demo_ctx 10 {1}, Stake_Call 1 400), (demo_ctx 10 {2}, Stake_Call 2 400),
     (demo_ctx 11 {3}, Stake_Call 3 401),
     (demo_ctx 12 {1}, Attest_Call 1 7 1 7), (demo_ctx 13 {3}, Attest_Call 3 7 1 9),
     (demo_ctx 14 {3}, Request_Unstake 3 101), (demo_ctx 21 {2}, Attest_Call 2 7 1 7)]"

definition demo_slash :: "(ctx \<times> reg_call) list" where
  "demo_slash = [(demo_ctx 22 {}, Slash_Call 7 1 3)]"

definition demo_world :: "registry \<times> token" where
  "demo_world = projr (sys_run (vrfy_client 60) demo_calls (demo_registry, demo_funded))"

definition demo_slashed :: "registry \<times> token" where
  "demo_slashed = projr (sys_run (vrfy_client 60) demo_slash demo_world)"

lemma demo_funded_reachable: "token_reachable demo_funded"
proof -
  let ?t0 = "\<lparr>tk_admin = Some 0, tk_balance = Map.empty, tk_allowance = Map.empty,
     tk_meta = Some \<lparr>md_decimal = 7, md_name = ''Verify'', md_symbol = ''VRFY''\<rparr>, tk_events = []\<rparr>"
  have mintable: "token_reachable t \<Longrightarrow> tk_admin t = Some 0 \<Longrightarrow> mget (tk_balance t) a = 0 \<Longrightarrow>
      token_reachable (publish (MintWithAmountOnly a 1000) (write_balance t a 1000))" for t a
    by (erule token_reachable.step, rule token_step.call [of "Mint a 1000" "demo_ctx 5 {0}"])
      (simp_all add: call_typed_def mint_def demo_ctx_def in_i128_def i128_min_def i128_max_def
        read_administrator_def receive_balance_def)
  have "token_reachable ?t0"
    by (rule token_reachable.deploy [of 0 7 "''Verify''" "''VRFY''"])
      (simp add: token_constructor_def empty_token_def write_administrator_def)
  from mintable [OF mintable [OF mintable [OF this, of 1], of 2], of 3]
  show ?thesis by (simp add: demo_funded_def publish_def write_balance_def)
qed

lemma demo_start_reachable: "vrfy_reachable demo_cfg 60 99 (10, demo_registry, demo_funded)"
  by (rule vrfy_reachable.deploy [of 60 100 3 10 20 5000])
    (simp_all add: demo_funded_reachable, simp_all add: reg_constructor_def demo_registry_def
      empty_registry_def demo_cfg_def MIN_QUORUM_def BPS_DENOMINATOR_def demo_funded_def)

lemmas demo_eval = demo_ctx_def demo_cfg_def demo_registry_def demo_funded_def empty_registry_def
  stake_def attest_def request_unstake_def slash_def withdraw_def trapping_def require_auth_def
  read_config_def read_stake_def put_stake_def publish_reg_def vrfy_client_def transfer_def burn_def
  spend_balance_def receive_balance_def write_balance_def read_balance_def publish_def Let_def
  chk_i128_def chk_u32_def in_i128_def i128_min_def i128_max_def u32_max_def
  check_nonnegative_amount_def subcall_def

lemma demo_world_run:
  "sys_run (vrfy_client 60) demo_calls (demo_registry, demo_funded) = Inr demo_world"
proof -
  have "\<exists>w. sys_run (vrfy_client 60) demo_calls (demo_registry, demo_funded) = Inr w"
    by (simp add: demo_calls_def demo_eval)
  then show ?thesis by (auto simp: demo_world_def)
qed

lemma demo_world_reachable: "vrfy_reachable demo_cfg 60 99 (21, demo_world)"
proof -
  obtain r k where w: "demo_world = (r, k)" by fastforce
  have "sys_steps (vrfy_client 60) 99 (vrfy_foreign 99) (10, demo_registry, demo_funded)
      (end_ledger 10 demo_calls, r, k)"
    using demo_world_run unfolding w
    by (rule sys_run_steps) (simp add: demo_calls_def demo_ctx_def)
  from vrfy_reachable_steps [OF this demo_start_reachable] show ?thesis
    by (simp add: w demo_calls_def demo_ctx_def)
qed

text \<open>Its registry, written out.\<close>

definition demo_att :: "address \<Rightarrow> hash32 \<Rightarrow> nat \<Rightarrow> attestation" where
  "demo_att v h l = \<lparr>at_verifier = v, at_rebuilt = h, at_ledger = l\<rparr>"

lemma demo_world_registry:
  "rg_config (fst demo_world) = Some demo_cfg" "rg_slashed (fst demo_world) = Map.empty"
  "rg_opened (fst demo_world) = [(7, 1) \<mapsto> 12]"
  "rg_attesters (fst demo_world) = [(7, 1) \<mapsto> [1, 3, 2]]"
  "rg_att (fst demo_world) = [((7, 1), 1) \<mapsto> demo_att 1 7 12, ((7, 1), 3) \<mapsto> demo_att 3 9 13,
     ((7, 1), 2) \<mapsto> demo_att 2 7 21]"
  "read_stake (fst demo_world) 1 = \<lparr>si_staked = 400, si_unbonding = 0, si_release = 0\<rparr>"
  "read_stake (fst demo_world) 3 = \<lparr>si_staked = 300, si_unbonding = 101, si_release = 34\<rparr>"
  "balance (snd demo_world) 99 = 1201" "balance (snd demo_world) 1 = 600"
  "balance (snd demo_world) 3 = 599"
  by (simp_all add: demo_world_def demo_calls_def demo_att_def demo_eval balance_def)

lemma demo_world_atts:
  "read_attestations (fst demo_world) (7, 1) = [demo_att 1 7 12, demo_att 3 9 13, demo_att 2 7 21]"
  by (simp add: read_attestations_def demo_world_registry)

lemma demo_ctx_simps [simp]:
  "ledger_seq (demo_ctx now S) = now" "self (demo_ctx now S) = 99"
  "authorized (demo_ctx now S) a \<longleftrightarrow> a \<in> S" "ttl_ok (demo_ctx now S) n"
  by (simp_all add: demo_ctx_def)

lemma sys_tick: "now \<le> now' \<Longrightarrow> sys_steps tc home foreign (now, w) (now', w)"
  by (cases w; cases "now = now'")
    (auto intro: sys_steps.refl sys_steps.step [OF sys_steps.refl sys_step.tick])

section \<open>Attestations of a sound claim\<close>

lemma map_filter_Some:
  assumes "\<And>x. x \<in> set xs \<Longrightarrow> f x \<noteq> None"
  shows "List.map_filter f xs = map (the \<circ> f) xs"
  using assms
proof (induction xs)
  case (Cons x xs)
  from Cons.prems [of x] obtain y where "f x = Some y" by auto
  with Cons show ?case by (simp add: List.map_filter_simps)
qed (simp add: List.map_filter_simps)

lemma claim_attestations:
  assumes "claim_ok cfg now r c" and "rg_attesters r c = Some as"
  shows "read_attestations r c = map (\<lambda>v. the (rg_att r (c, v))) as" and "distinct as"
    and "v \<in> set as \<Longrightarrow> at_verifier (the (rg_att r (c, v))) = v"
proof -
  obtain opened where op: "rg_opened r c = Some opened"
    using assms by (cases "rg_opened r c") (auto simp: claim_ok_def)
  with assms have as: "distinct as" "\<And>v. rg_att r (c, v) \<noteq> None \<longleftrightarrow> v \<in> set as"
    and at: "\<And>v a. rg_att r (c, v) = Some a \<Longrightarrow> at_verifier a = v"
    by (auto simp: claim_ok_def)
  show "distinct as" by (rule as(1))
  show "read_attestations r c = map (\<lambda>v. the (rg_att r (c, v))) as"
    using as(2) by (simp add: read_attestations_conv assms(2) map_filter_Some comp_def)
  show "v \<in> set as \<Longrightarrow> at_verifier (the (rg_att r (c, v))) = v"
    using as(2) [of v] at by auto
qed

lemma claim_attesters:
  assumes "claim_ok cfg now r c"
  shows "rg_attesters r c = None \<and> read_attestations r c = [] \<or> (\<exists>as. rg_attesters r c = Some as)"
  by (cases "rg_attesters r c") (simp_all add: read_attestations_conv List.map_filter_simps)

lemma outvoted_minority:
  assumes ok: "claim_ok cfg now r c"
    and out: "\<And>u. u \<in> S \<Longrightarrow> outvoted cfg now r c u" and ne: "S \<noteq> {}"
  shows "2 * card S < length (read_attestations r c)"
proof -
  let ?atts = "read_attestations r c"
  obtain u where "u \<in> S" using ne by blast
  obtain h where maj: "length ?atts < 2 * count_list (hashes ?atts) h"
    using out [OF \<open>u \<in> S\<close>] by (auto simp: outvoted_def)
  then have "?atts \<noteq> []" using count_list_le_length [of "hashes ?atts" h] by auto
  then obtain as where as: "rg_attesters r c = Some as" using claim_attesters [OF ok] by auto
  note at = claim_attestations [OF ok as]
  let ?hash = "\<lambda>v. at_rebuilt (the (rg_att r (c, v)))"
  have "S \<subseteq> set (filter (\<lambda>v. ?hash v \<noteq> h) as)"
  proof
    fix v assume "v \<in> S"
    then obtain a h' where a: "rg_att r (c, v) = Some a" "at_rebuilt a \<noteq> h'"
      and maj': "length ?atts < 2 * count_list (hashes ?atts) h'"
      using out [OF \<open>v \<in> S\<close>] by (auto simp: outvoted_def)
    have "h' = h" using maj maj' by (intro strict_majority_unique [of "hashes ?atts"]) simp_all
    moreover have "v \<in> set as" using ok as a(1) by (auto simp: claim_ok_def split: option.splits)
    ultimately show "v \<in> set (filter (\<lambda>v. ?hash v \<noteq> h) as)" using a by simp
  qed
  then have "card S \<le> length (filter (\<lambda>v. ?hash v \<noteq> h) as)"
    by (meson card_length card_mono finite_set le_trans)
  moreover have "length (filter (\<lambda>v. ?hash v \<noteq> h) as) + count_list (hashes ?atts) h = length ?atts"
    unfolding at(1) hashes_def by (induction as) auto
  ultimately show ?thesis using maj by linarith
qed

lemma outvoted_hash:
  assumes "outvoted cfg now r c v" and "rg_att r (c, v) = Some a"
  shows "\<not> length (read_attestations r c) < 2 * count_list (hashes (read_attestations r c)) (at_rebuilt a)"
  using assms strict_majority_unique [of "hashes (read_attestations r c)" _ "at_rebuilt a"]
  by (auto simp: outvoted_def)

section \<open>Properties\<close>

text \<open>
  Property C3. Solvency. In every reachable state the registry's token balance covers all stake it
  owes, staked and unbonding, and no verifier's stake is ever negative.
\<close>

theorem registry_solvent:
  assumes "vrfy_reachable cfg T R (now, r, k)"
  shows "total_staked r \<le> balance k R \<and>
    (\<forall>v. 0 \<le> si_staked (stake_of r v) \<and> 0 \<le> si_unbonding (stake_of r v) \<and>
         si_staked (stake_of r v) + si_unbonding (stake_of r v) \<le> balance k R)"
proof -
  note inv = sys_invD [OF vrfy_reachable_inv [OF assms]]
  have "held r v \<le> balance k R" for v using held_le_total [OF inv(5), of v] inv(6) by simp
  with inv(6) stakes_okD(2,3) [OF inv(5)] show ?thesis by (simp add: stake_of_def held_def)
qed

theorem registry_solvent_witness:
  "total_staked (fst demo_world) \<le> 1201 \<and> si_staked (stake_of (fst demo_world) 3) = 300"
proof -
  obtain r k where w: "demo_world = (r, k)" by fastforce
  show ?thesis
    using registry_solvent [OF demo_world_reachable [unfolded w]] demo_world_registry
    by (simp add: w stake_of_def)
qed

text \<open>
  Property C5. A verifier always gets its unbonding stake back. Once the release ledger is reached,
  at the latest an unbonding period from now, its withdrawal succeeds in every reachable state (its
  own balance must have room for the amount), pays exactly the pool, empties the pool, and touches
  nobody else's stake.
\<close>

theorem withdraw_pays:
  assumes reach: "vrfy_reachable cfg T R (now, r, k)" and home: "self env = R"
    and led: "now \<le> ledger_seq env" and auth: "authorized env v" and vR: "v \<noteq> R"
    and pool: "0 < si_unbonding (stake_of r v)" "balance k v + si_unbonding (stake_of r v) \<le> i128_max"
    and rel: "si_release (stake_of r v) \<le> ledger_seq env \<or> now + cfg_unbond_period cfg \<le> ledger_seq env"
  shows "\<exists>r' k'. withdraw (vrfy_client T) env (r, k) v = Inr (si_unbonding (stake_of r v), r', k') \<and>
    stake_of r' v = (stake_of r v)\<lparr>si_unbonding := 0\<rparr> \<and>
    (\<forall>u. u \<noteq> v \<longrightarrow> stake_of r' u = stake_of r u) \<and>
    balance k' v = balance k v + si_unbonding (stake_of r v) \<and>
    balance k' R = balance k R - si_unbonding (stake_of r v)"
proof -
  note inv = sys_invD [OF vrfy_reachable_inv [OF reach]]
  let ?n = "si_unbonding (read_stake r v)"
  have n: "?n \<le> balance k R"
    using held_le_total [OF inv(5), of v] inv(6) stakes_okD(2) [OF inv(5), of v]
    by (simp add: held_def)
  obtain k' where k': "tc_transfer (vrfy_client T) T (subcall env T) k R v ?n = Inr k'"
    using vrfy_transfer_total [OF inv(4), of "subcall env T" R ?n v T] n pool home vR
    by (auto simp: stake_of_def)
  have "si_release (read_stake r v) \<le> ledger_seq env"
    using rel inv(7) [of v] by (auto simp: stake_of_def)
  moreover note vrfy_transfer_effect [OF inv(4) k']
  ultimately show ?thesis
    using inv(1,2) auth pool(1) home k' vR
    by (simp add: withdraw_def rbind_simps Let_def stake_of_def)
qed

theorem withdraw_pays_witness:
  "\<exists>r' k'. withdraw (vrfy_client 60) (demo_ctx 34 {3}) demo_world 3 = Inr (101, r', k') \<and>
     balance k' 3 = 700"
proof -
  obtain r k where w: "demo_world = (r, k)" by fastforce
  show ?thesis
    using withdraw_pays [OF demo_world_reachable [unfolded w], of "demo_ctx 34 {3}" 3] demo_world_registry
    by (force simp: w stake_of_def i128_max_def)
qed

text \<open>When a slash goes through, in terms of what was attested.\<close>

lemma outvoted_tally:
  assumes "tally_of (read_attestations r (w, d)) = (mx, ty)"
  shows "outvoted cfg now r (w, d) v \<longleftrightarrow>
    (\<exists>opened a. rg_opened r (w, d) = Some opened \<and> opened + cfg_attest_window cfg \<le> now \<and>
       cfg_quorum cfg \<le> tl_total ty \<and> tl_total ty < 2 * tl_top_count ty \<and>
       rg_att r ((w, d), v) = Some a \<and> at_rebuilt a \<noteq> mx)" (is "?L \<longleftrightarrow> ?R")
proof
  assume ?L
  then obtain opened a h where o: "rg_opened r (w, d) = Some opened"
    "opened + cfg_attest_window cfg \<le> now" "cfg_quorum cfg \<le> length (read_attestations r (w, d))"
    "rg_att r ((w, d), v) = Some a" "at_rebuilt a \<noteq> h"
    and m: "length (read_attestations r (w, d)) < 2 * count_list (hashes (read_attestations r (w, d))) h"
    by (auto simp: outvoted_def)
  moreover have "mx = h" using assms m by (rule strict_majority_top)
  moreover have "tl_total ty < 2 * tl_top_count ty" using strict_majority_iff [OF assms] m by blast
  ultimately show ?R by (auto simp: tally_of_spec(1) [OF assms])
next
  assume ?R
  then show ?L unfolding outvoted_def
    by (auto simp: tally_of_spec(1,3) [OF assms])
qed

text \<open>
  Property C7. Exactly who can be slashed. In a reachable state (with ledger numbers and amounts in
  range) anyone's \<open>slash\<close> of a verifier succeeds if and only if the claim is closed and quorate,
  the verifier attested to another hash than a strict majority did, it was not slashed for this
  claim before, and its share of the stake held now is positive.
\<close>

theorem slash_succeeds_iff:
  assumes reach: "vrfy_reachable cfg T R (now, r, k)" and home: "self env = R"
    and led: "ledger_seq env = now"
    and fit: "\<And>opened. rg_opened r (w, d) = Some opened \<Longrightarrow> opened + cfg_attest_window cfg \<le> u32_max"
      "2 * length (read_attestations r (w, d)) \<le> u32_max"
      "balance k R * BPS_DENOMINATOR \<le> i128_max"
  shows "is_ok (slash (vrfy_client T) env (r, k) w d v) \<longleftrightarrow>
    outvoted cfg now r (w, d) v \<and> rg_slashed r ((w, d), v) = None \<and>
    0 < slash_amount cfg (read_stake r v)"
proof -
  note inv = sys_invD [OF vrfy_reachable_inv [OF reach]]
  let ?i = "read_stake r v" and ?atts = "read_attestations r (w, d)"
  obtain mx ty where t: "tally_of ?atts = (mx, ty)" by fastforce
  have i: "0 \<le> si_staked ?i" "0 \<le> si_unbonding ?i" using stakes_okD(2,3) [OF inv(5)] by simp_all
  have h: "si_staked ?i + si_unbonding ?i \<le> balance k R"
    using held_le_total [OF inv(5), of v] inv(6) by (simp add: held_def)
  have bps: "0 \<le> int (cfg_slash_bps cfg)" "int (cfg_slash_bps cfg) \<le> BPS_DENOMINATOR"
    using inv(3) by (simp_all add: cfg_ok_def)
  have hb: "(si_staked ?i + si_unbonding ?i) * int (cfg_slash_bps cfg) \<le> i128_max"
    using mult_mono [OF h bps(2)] i bps(1) fit(3) h by linarith
  note amt = slash_amount_bounds [OF inv(3) i]
  have top: "2 * tl_top_count ty \<le> u32_max"
    using fit(2) count_list_le_length [of "hashes ?atts" mx] by (simp add: tally_of_spec(3) [OF t])
  have burn: "0 \<le> n \<Longrightarrow> n \<le> balance k R \<Longrightarrow>
      \<exists>k'. tc_burn (vrfy_client T) T (subcall env T) k R n = Inr k'" for n
    using vrfy_burn_total [OF inv(4), of "subcall env T" R n T] home by simp
  have rng: "in_i128 (si_staked ?i + si_unbonding ?i)"
    "in_i128 ((si_staked ?i + si_unbonding ?i) * int (cfg_slash_bps cfg))"
    "in_i128 (si_staked ?i - min (slash_amount cfg ?i) (si_staked ?i))"
    "in_i128 (slash_amount cfg ?i - min (slash_amount cfg ?i) (si_staked ?i))"
    "in_i128 (si_unbonding ?i - (slash_amount cfg ?i - min (slash_amount cfg ?i) (si_staked ?i)))"
    using i h hb amt(1,2) bps vrfy_bal_range [OF inv(4), of R]
    by (auto simp: in_i128_def i128_min_def min_def intro: order_trans [of _ 0])
  show ?thesis
  proof
    assume "is_ok (slash (vrfy_client T) env (r, k) w d v)"
    then obtain n r' k' where sl: "slash (vrfy_client T) env (r, k) w d v = Inr (n, r', k')"
      by (auto simp: is_ok_iff)
    note slash_outvoted [OF sl inv(1) led]
    with sl inv(1) show "outvoted cfg now r (w, d) v \<and> rg_slashed r ((w, d), v) = None \<and>
        0 < slash_amount cfg (read_stake r v)"
      by (cases rule: slash_Inr) simp
  next
    assume a: "outvoted cfg now r (w, d) v \<and> rg_slashed r ((w, d), v) = None \<and>
        0 < slash_amount cfg (read_stake r v)"
    then obtain opened att where o: "rg_opened r (w, d) = Some opened"
      "opened + cfg_attest_window cfg \<le> now" "cfg_quorum cfg \<le> tl_total ty"
      "tl_total ty < 2 * tl_top_count ty" "rg_att r ((w, d), v) = Some att" "at_rebuilt att \<noteq> mx"
      using outvoted_tally [OF t] by blast
    obtain k' where "tc_burn (vrfy_client T) T (subcall env T) k R (slash_amount cfg ?i) = Inr k'"
      using burn [OF amt(1)] amt(2) h by auto
    with a o t inv(1,2) led home fit(1) [OF o(1)] top rng show
      "is_ok (slash (vrfy_client T) env (r, k) w d v)"
      by (simp add: slash_def Let_def read_config_def slash_amount_def [symmetric])
  qed
qed

lemma demo_outvoted: "outvoted demo_cfg 22 (fst demo_world) (7, 1) 3"
  unfolding outvoted_def demo_world_atts
  by (simp add: demo_world_registry demo_cfg_def hashes_def demo_att_def exI [of _ 7])

lemma demo_slash_amount: "slash_amount demo_cfg (read_stake (fst demo_world) 3) = 200"
  by (simp add: demo_world_registry slash_amount_def demo_cfg_def BPS_DENOMINATOR_def)

lemma demo_world_at_22: "vrfy_reachable demo_cfg 60 99 (22, demo_world)"
  using vrfy_reachable_steps [OF sys_tick demo_world_reachable] by simp

lemma demo_slash_ok: "is_ok (slash (vrfy_client 60) (demo_ctx 22 {}) demo_world 7 1 3)"
  by (simp add: demo_world_def demo_calls_def demo_eval read_attestations_def tally_of_def
      tally_outer_def tally_inner_def upt_rec BPS_DENOMINATOR_def)

theorem slash_succeeds_iff_witness:
  "is_ok (slash (vrfy_client 60) (demo_ctx 22 {}) demo_world 7 1 3)"
proof -
  obtain r k where w: "demo_world = (r, k)" by fastforce
  note d = demo_world_registry [unfolded w, simplified]
  have "is_ok (slash (vrfy_client 60) (demo_ctx 22 {}) (r, k) 7 1 3) \<longleftrightarrow>
      outvoted demo_cfg 22 r (7, 1) 3 \<and> rg_slashed r ((7, 1), 3) = None \<and>
      0 < slash_amount demo_cfg (read_stake r 3)"
    by (rule slash_succeeds_iff [OF demo_world_at_22 [unfolded w]])
      (use d demo_world_atts [unfolded w] in
        \<open>simp_all add: u32_max_def i128_max_def BPS_DENOMINATOR_def demo_cfg_def split: if_splits\<close>)
  with demo_outvoted [unfolded w fst_conv] demo_slash_amount [unfolded w fst_conv] d show ?thesis
    by (simp add: w)
qed

text \<open>
  What a slash does. The fraction of the stake held, rounded down, is taken from the
  staked part first and then from the unbonding part; it is burned from the registry's own tokens,
  so the supply shrinks by exactly that much; the verifier is marked as slashed for the claim;
  nobody else's stake, no claim and no other balance changes.
\<close>

theorem slash_effect:
  assumes reach: "vrfy_reachable cfg T R (now, r, k)" and home: "self env = R"
    and sl: "slash (vrfy_client T) env (r, k) w d v = Inr (n, r', k')"
  shows "n = held r v * int (cfg_slash_bps cfg) div 10000 \<and> 0 < n \<and> n \<le> held r v \<and>
    si_staked (stake_of r' v) = max 0 (si_staked (stake_of r v) - n) \<and>
    held r' v = held r v - n \<and> 0 \<le> si_unbonding (stake_of r' v) \<and>
    (\<forall>u. u \<noteq> v \<longrightarrow> stake_of r' u = stake_of r u) \<and>
    balance k' R = balance k R - n \<and> (\<forall>a. a \<noteq> R \<longrightarrow> balance k' a = balance k a) \<and>
    total_supply k' = total_supply k - n \<and>
    rg_slashed r' ((w, d), v) \<noteq> None \<and> (\<forall>c. same_claim r r' c)"
  using sl
proof (cases rule: slash_Inr)
  case (1 cfg' opened att)
  note inv = sys_invD [OF vrfy_reachable_inv [OF reach]]
  have cfg: "cfg' = cfg" using 1(1) inv(1) by simp
  let ?i = "read_stake r v"
  have i: "0 \<le> si_staked ?i" "0 \<le> si_unbonding ?i" using stakes_okD(2,3) [OF inv(5)] by simp_all
  note amt = slash_amount_bounds [OF inv(3) i]
  have burned: "tc_burn (vrfy_client T) T (subcall env T) k R n = Inr k'"
    using 1(11) cfg inv(2) home by simp
  then have ex: "token_exec (subcall env T) (Burn_Call R n) k = Inr k'" by (simp add: vrfy_client_def)
  have "token_ok k" using inv(4) by (simp add: vrfy_inv_def ledger_inv_ok)
  then have "total_supply k' = total_supply k - n"
    using token_exec_supply [OF ex] token_okD(1) by simp
  moreover note vrfy_burn_effect [OF inv(4) burned]
  moreover have st: "stake_of r' u = (if u = v then ?i\<lparr>si_staked := si_staked ?i - min n (si_staked ?i),
      si_unbonding := si_unbonding ?i - (n - min n (si_staked ?i))\<rparr> else stake_of r u)" for u
    by (simp add: 1(12) stake_of_def read_stake_def)
  moreover have "\<forall>c. same_claim r r' c" by (simp add: same_claim_def 1(12))
  moreover have "rg_slashed r' ((w, d), v) \<noteq> None" by (simp add: 1(12))
  moreover have "n \<le> held r v" using amt(2) 1(9) cfg by (simp add: held_def)
  moreover have "si_unbonding (stake_of r' v) \<ge> 0"
    using calculation(6) i(2) unfolding st by (auto simp: held_def min_def)
  moreover have "held r' v = held r v - n"
    using st [of v] by (simp add: held_def stake_of_def)
  moreover have "si_staked (stake_of r' v) = max 0 (si_staked (stake_of r v) - n)"
    unfolding st using i(1) by (simp add: stake_of_def max_def min_def)
  ultimately show ?thesis using amt(3) 1(9,10) cfg by (simp add: held_def)
qed

theorem slash_effect_witness:
  "\<exists>r' k'. slash (vrfy_client 60) (demo_ctx 22 {}) demo_world 7 1 3 = Inr (200, r', k') \<and>
     si_staked (stake_of r' 3) = 100 \<and> balance k' 99 = 1001"
proof -
  obtain r k where w: "demo_world = (r, k)" by fastforce
  note d = demo_world_registry [unfolded w, simplified]
  obtain n r' k' where sl: "slash (vrfy_client 60) (demo_ctx 22 {}) (r, k) 7 1 3 = Inr (n, r', k')"
    using demo_slash_ok by (auto simp: is_ok_iff w)
  from slash_effect [OF demo_world_at_22 [unfolded w] _ sl] d sl show ?thesis
    by (simp add: w held_def stake_of_def demo_cfg_def)
qed

text \<open>
  A verifier is slashed at most once for a claim: after a successful slash no later
  call, in any state the system moves on to, can slash it for that claim again.
\<close>

theorem slash_once:
  assumes "vrfy_reachable cfg T R (now, r, k)" and "self env = R"
    and "slash (vrfy_client T) env (r, k) w d v = Inr (n, r', k')"
    and "sys_steps (vrfy_client T) R (vrfy_foreign R) (now, r', k') (now2, r2, k2)"
  shows "\<not> is_ok (slash (vrfy_client T) env2 (r2, k2) w d v)"
proof
  assume "is_ok (slash (vrfy_client T) env2 (r2, k2) w d v)"
  then obtain n3 r3 k3 where sl2: "slash (vrfy_client T) env2 (r2, k2) w d v = Inr (n3, r3, k3)"
    by (auto simp: is_ok_iff)
  then have none: "rg_slashed r2 ((w, d), v) = None" by (cases rule: slash_Inr) simp
  have "rg_config r' = Some cfg" and "rg_slashed r' ((w, d), v) \<noteq> None"
    using assms(3) sys_invD(1) [OF vrfy_reachable_inv [OF assms(1)]]
    by (cases rule: slash_Inr, simp)+
  then have "frame cfg (now, r', k') (now2, r2, k2)" by (intro frame_steps [OF assms(4)]) simp
  then have "rg_slashed r2 ((w, d), v) \<noteq> None"
    using \<open>rg_slashed r' ((w, d), v) \<noteq> None\<close> by (rule frameD(3))
  with none show False by simp
qed

theorem slash_once_witness:
  "\<exists>n r' k'. slash (vrfy_client 60) (demo_ctx 22 {}) demo_world 7 1 3 = Inr (n, r', k') \<and>
     \<not> is_ok (slash (vrfy_client 60) (demo_ctx 23 {}) (r', k') 7 1 3)"
proof -
  obtain r k where w: "demo_world = (r, k)" by fastforce
  obtain n r' k' where sl: "slash (vrfy_client 60) (demo_ctx 22 {}) (r, k) 7 1 3 = Inr (n, r', k')"
    using demo_slash_ok by (auto simp: is_ok_iff w)
  have "\<not> is_ok (slash (vrfy_client 60) (demo_ctx 23 {}) (r', k') 7 1 3)"
    by (rule slash_once [OF demo_world_at_22 [unfolded w] _ sl sys_steps.refl]) simp
  with sl show ?thesis unfolding w by blast
qed

text \<open>
  Property C4. The majority is safe. In every reachable state whoever was slashed for a claim was
  outvoted on it by a strict majority of a closed, quorate vote; so the slashed of a claim are fewer
  than half of its attesters, and an attester of a hash with a strict majority is never slashed.
\<close>

theorem slashed_minority:
  assumes "vrfy_reachable cfg T R (now, r, k)"
  shows "(\<forall>c v. rg_slashed r (c, v) \<noteq> None \<longrightarrow> outvoted cfg now r c v) \<and>
    (\<forall>c. (\<exists>v. rg_slashed r (c, v) \<noteq> None) \<longrightarrow>
       2 * card {v. rg_slashed r (c, v) \<noteq> None} < length (attestations r c)) \<and>
    (\<forall>c v a. rg_att r (c, v) = Some a \<longrightarrow>
       length (attestations r c) < 2 * count_list (hashes (attestations r c)) (at_rebuilt a) \<longrightarrow>
       rg_slashed r (c, v) = None)"
proof -
  have cl: "claim_ok cfg now r c" for c by (rule sys_invD(8) [OF vrfy_reachable_inv [OF assms]])
  have out: "outvoted cfg now r c v" if "rg_slashed r (c, v) \<noteq> None" for c v
    using cl [of c] that by (auto simp: claim_ok_def split: option.splits)
  moreover have "2 * card {v. rg_slashed r (c, v) \<noteq> None} < length (attestations r c)"
    if "\<exists>v. rg_slashed r (c, v) \<noteq> None" for c
    using outvoted_minority [OF cl, of "{v. rg_slashed r (c, v) \<noteq> None}" c] out that
    by (auto simp: attestations_def)
  moreover have "rg_slashed r (c, v) = None"
    if "rg_att r (c, v) = Some a"
      "length (attestations r c) < 2 * count_list (hashes (attestations r c)) (at_rebuilt a)" for c v a
    using outvoted_hash [OF out that(1)] that(2) unfolding attestations_def by blast
  ultimately show ?thesis by blast
qed

theorem slashed_minority_witness:
  "\<exists>n r' k'. slash (vrfy_client 60) (demo_ctx 22 {}) demo_world 7 1 3 = Inr (n, r', k') \<and>
     outvoted demo_cfg 22 r' (7, 1) 3"
proof -
  obtain r k where w: "demo_world = (r, k)" by fastforce
  obtain n r' k' where sl: "slash (vrfy_client 60) (demo_ctx 22 {}) (r, k) 7 1 3 = Inr (n, r', k')"
    using demo_slash_ok by (auto simp: is_ok_iff w)
  then have "rg_slashed r' ((7, 1), 3) \<noteq> None" by (cases rule: slash_Inr) simp
  moreover have "vrfy_reachable demo_cfg 60 99 (22, r', k')"
    by (rule vrfy_reachable.step [OF demo_world_at_22 [unfolded w] sys_step.call
          [of "demo_ctx 22 {}" _ _ _ "Slash_Call 7 1 3"]]) (simp_all add: sl)
  ultimately show ?thesis using slashed_minority [of demo_cfg 60 99 22 r' k'] sl by (auto simp: w)
qed

text \<open>
  Property C6. What the consensus verdict means. In a reachable state whose claim window does not
  run past the last ledger number: Verified says the claim is closed, quorate, and every attestation
  is exactly the claimed Wasm hash; Mismatch that it is closed and quorate and all agree on one other
  hash; Disputed that it is closed and quorate and two attestations differ. There is no other way
  to each verdict.
\<close>

theorem consensus_verdicts:
  assumes reach: "vrfy_reachable cfg T R (now, r, k)" and led: "ledger_seq env = now"
    and fit: "\<And>opened. rg_opened r (w, d) = Some opened \<Longrightarrow> opened + cfg_attest_window cfg \<le> u32_max"
  shows "(consensus_of env r w d = Inr Verified \<longleftrightarrow> closed cfg now r (w, d) \<and>
            cfg_quorum cfg \<le> length (attestations r (w, d)) \<and>
            (\<forall>a \<in> set (attestations r (w, d)). at_rebuilt a = w)) \<and>
    (consensus_of env r w d = Inr Mismatch \<longleftrightarrow> closed cfg now r (w, d) \<and>
            cfg_quorum cfg \<le> length (attestations r (w, d)) \<and>
            (\<exists>h. h \<noteq> w \<and> (\<forall>a \<in> set (attestations r (w, d)). at_rebuilt a = h))) \<and>
    ((\<exists>t. consensus_of env r w d = Inr (Disputed t)) \<longleftrightarrow> closed cfg now r (w, d) \<and>
            cfg_quorum cfg \<le> length (attestations r (w, d)) \<and>
            (\<exists>a \<in> set (attestations r (w, d)). \<exists>b \<in> set (attestations r (w, d)).
               at_rebuilt a \<noteq> at_rebuilt b))"
proof (cases "rg_opened r (w, d)")
  case None
  with sys_invD(1) [OF vrfy_reachable_inv [OF reach]] show ?thesis
    by (simp add: consensus_of_def closed_def read_config_def)
next
  case (Some opened)
  note inv = sys_invD [OF vrfy_reachable_inv [OF reach]]
  let ?atts = "read_attestations r (w, d)"
  obtain mx ty where t: "tally_of ?atts = (mx, ty)" by fastforce
  have q: "0 < cfg_quorum cfg" using inv(3) by (simp add: cfg_ok_def MIN_QUORUM_def)
  have cl: "closed cfg now r (w, d) \<longleftrightarrow> \<not> now < opened + cfg_attest_window cfg"
    by (auto simp: closed_def Some)
  have run: "consensus_of env r w d = Inr (if \<not> closed cfg now r (w, d) then Open ty
      else if length ?atts < cfg_quorum cfg then Insufficient ty
      else if tl_distinct ty = 1 then (if mx = w then Verified else Mismatch) else Disputed ty)"
    using inv(1) Some led fit [OF Some]
    by (simp add: consensus_of_def read_config_def t tally_of_spec(1) [OF t] cl)
  show ?thesis
  proof (cases "closed cfg now r (w, d) \<and> cfg_quorum cfg \<le> length ?atts")
    case True
    with q have ne: "?atts \<noteq> []" by auto
    then obtain a0 where a0: "a0 \<in> set ?atts" "at_rebuilt a0 = mx"
      using tally_of_spec(5) [OF t] by (auto simp: hashes_def)
    have one: "tl_distinct ty = 1 \<longleftrightarrow> (\<forall>a \<in> set ?atts. at_rebuilt a = mx)"
      using t ne by (rule distinct_one_iff)
    show ?thesis unfolding run attestations_def using True one a0 by (auto 4 3)
  qed (auto simp: run attestations_def)
qed

theorem consensus_verdicts_witness:
  "\<exists>t. consensus_of (demo_ctx 22 {}) (fst demo_world) 7 1 = Inr (Disputed t)"
proof -
  obtain r k where w: "demo_world = (r, k)" by fastforce
  note d = demo_world_registry [unfolded w, simplified] demo_world_atts [unfolded w fst_conv]
  have "closed demo_cfg 22 r (7, 1)" by (simp add: closed_def d demo_cfg_def)
  with consensus_verdicts [OF demo_world_at_22 [unfolded w], of "demo_ctx 22 {}" 7 1] d show ?thesis
    by (auto simp: w u32_max_def attestations_def demo_att_def demo_cfg_def split: if_splits)
qed

text \<open>
  Property C8. A closed claim is final: whatever happens afterwards, slashes included, its
  attestations and its verdict stay what they were.
\<close>

theorem closed_claim_final:
  assumes "vrfy_reachable cfg T R (now, r, k)" and "closed cfg now r (w, d)"
    and "sys_steps (vrfy_client T) R (vrfy_foreign R) (now, r, k) (now', r', k')"
    and "ledger_seq env = now" and "ledger_seq env' = now'"
  shows "attestations r' (w, d) = attestations r (w, d) \<and>
    consensus_of env' r' w d = consensus_of env r w d"
proof -
  have cfg: "rg_config r = Some cfg" by (rule sys_invD(1) [OF vrfy_reachable_inv [OF assms(1)]])
  then have fr: "frame cfg (now, r, k) (now', r', k')" by (intro frame_steps [OF assms(3)]) simp
  have same: "same_claim r r' (w, d)" using fr assms(2) by (rule frameD(4))
  then have atts: "read_attestations r' (w, d) = read_attestations r (w, d)"
    by (rule same_claim_attestations)
  obtain opened where "rg_opened r (w, d) = Some opened" "opened + cfg_attest_window cfg \<le> now"
    using assms(2) by (auto simp: closed_def)
  moreover from this same have "rg_opened r' (w, d) = Some opened" by (simp add: same_claim_def)
  ultimately show ?thesis
    using atts cfg frameD(1,2) [OF fr] assms(4,5)
    by (simp add: attestations_def consensus_of_def read_config_def chk_u32_def)
qed

theorem closed_claim_final_witness:
  "\<exists>n r' k'. slash (vrfy_client 60) (demo_ctx 22 {}) demo_world 7 1 3 = Inr (n, r', k') \<and>
     consensus_of (demo_ctx 22 {}) r' 7 1 = consensus_of (demo_ctx 22 {}) (fst demo_world) 7 1"
proof -
  obtain r k where w: "demo_world = (r, k)" by fastforce
  obtain n r' k' where sl: "slash (vrfy_client 60) (demo_ctx 22 {}) (r, k) 7 1 3 = Inr (n, r', k')"
    using demo_slash_ok by (auto simp: is_ok_iff w)
  have "closed demo_cfg 22 r (7, 1)"
    using demo_world_registry [unfolded w] by (simp add: closed_def demo_cfg_def)
  moreover have "sys_steps (vrfy_client 60) 99 (vrfy_foreign 99) (22, r, k) (22, r', k')"
    by (rule sys_steps.step [OF sys_steps.refl sys_step.call
          [of "demo_ctx 22 {}" _ _ _ "Slash_Call 7 1 3"]]) (simp_all add: sl)
  ultimately show ?thesis
    using closed_claim_final [OF demo_world_at_22 [unfolded w]] sl by (auto simp: w)
qed

text \<open>
  Property C9. Bonded attestation. Once a verifier has attested, then in every state reached before
  an unbonding period has passed (so throughout the claim's window, which is no longer) its staked
  and unbonding stake together with what was slashed from it since is at least the minimum stake:
  it cannot take its bond out of reach while it can still be outvoted.
\<close>

theorem attester_stake_within_reach:
  assumes "vrfy_reachable cfg T R (now, r, k)" and "self env = R" and "ledger_seq env = now"
    and "\<not> authorized env R" and "attest env (r, k) v w d h = Inr (r1, k1)"
    and "sys_steps (vrfy_client T) R (vrfy_foreign R) (now, r1, k1) (now', r', k')"
    and "now' < now + cfg_unbond_period cfg"
  shows "cfg_min_stake cfg \<le> si_staked (stake_of r' v) + si_unbonding (stake_of r' v) +
    (slashed_of r' v - slashed_of r1 v)"
proof -
  have "sys_step (vrfy_client T) R (vrfy_foreign R) (now, r, k) (now, r1, k1)"
    by (rule sys_step.call [of env _ _ _ "Attest_Call v w d h"]) (use assms in simp_all)
  then have r1: "vrfy_reachable cfg T R (now, r1, k1)" by (rule vrfy_reachable.step [OF assms(1)])
  have "locked cfg now (slashed_of r1 v) v r1"
    using assms(5) sys_invD(1) [OF vrfy_reachable_inv [OF assms(1)]]
    by (cases rule: attest_Inr) (simp add: locked_def Let_def read_stake_def)
  then have "locked cfg now (slashed_of r1 v) v r'"
    using locked_steps [OF assms(6) r1, of now _ v] assms(7) by simp
  moreover have "stakes_ok r'"
    by (rule sys_invD(5) [OF vrfy_reachable_inv [OF vrfy_reachable_steps [OF assms(6) r1]]])
  ultimately show ?thesis using stake_of_attester_kept by (simp add: stake_of_def held_def)
qed

definition demo_fresh :: "registry \<times> token" where
  "demo_fresh = projr (sys_run (vrfy_client 60) (take 3 demo_calls) (demo_registry, demo_funded))"

lemma demo_fresh_reachable: "vrfy_reachable demo_cfg 60 99 (11, demo_fresh)"
proof -
  have "\<exists>w. sys_run (vrfy_client 60) (take 3 demo_calls) (demo_registry, demo_funded) = Inr w"
    by (simp add: demo_calls_def demo_eval)
  then have run: "sys_run (vrfy_client 60) (take 3 demo_calls) (demo_registry, demo_funded) = Inr demo_fresh"
    by (auto simp: demo_fresh_def)
  obtain r k where w: "demo_fresh = (r, k)" by fastforce
  have "sys_steps (vrfy_client 60) 99 (vrfy_foreign 99) (10, demo_registry, demo_funded)
      (end_ledger 10 (take 3 demo_calls), r, k)"
    using run unfolding w by (rule sys_run_steps) (simp add: demo_calls_def)
  from vrfy_reachable_steps [OF this demo_start_reachable] show ?thesis
    by (simp add: w demo_calls_def)
qed

lemma demo_fresh_attest: "\<exists>w. attest (demo_ctx 11 {1}) demo_fresh 1 7 1 7 = Inr w"
  by (simp add: demo_fresh_def demo_calls_def demo_eval)

theorem attester_stake_within_reach_witness:
  "\<exists>r1 k1. attest (demo_ctx 11 {1}) demo_fresh 1 7 1 7 = Inr (r1, k1) \<and>
     100 \<le> si_staked (stake_of r1 1) + si_unbonding (stake_of r1 1)"
proof -
  obtain r k where w: "demo_fresh = (r, k)" by fastforce
  obtain r1 k1 where at: "attest (demo_ctx 11 {1}) (r, k) 1 7 1 7 = Inr (r1, k1)"
    using demo_fresh_attest w by fastforce
  have "cfg_min_stake demo_cfg \<le> si_staked (stake_of r1 1) + si_unbonding (stake_of r1 1) +
    (slashed_of r1 1 - slashed_of r1 1)"
    by (rule attester_stake_within_reach
        [OF demo_fresh_reachable [unfolded w] _ _ _ at sys_tick [of 11 30]])
      (simp_all add: demo_cfg_def)
  with at show ?thesis by (simp add: w demo_cfg_def)
qed

text \<open>
  The record of a claim. In every reachable state each verifier appears at most once
  among a claim's attestations, every attestation is the stored one of its verifier, and it was made
  while the claim's window was open.
\<close>

theorem attestation_record_sound:
  assumes "vrfy_reachable cfg T R (now, r, k)"
  shows "distinct (map at_verifier (attestations r c)) \<and>
    (\<forall>a \<in> set (attestations r c). rg_att r (c, at_verifier a) = Some a \<and>
       (\<exists>opened. rg_opened r c = Some opened \<and> opened \<le> at_ledger a \<and>
          at_ledger a < opened + cfg_attest_window cfg \<and> at_ledger a \<le> now)) \<and>
    (\<forall>v a. rg_att r (c, v) = Some a \<longrightarrow> a \<in> set (attestations r c))"
proof -
  have ok: "claim_ok cfg now r c" by (rule sys_invD(8) [OF vrfy_reachable_inv [OF assms]])
  show ?thesis
  proof (cases "rg_opened r c")
    case None
    with ok show ?thesis
      by (simp add: claim_ok_def attestations_def read_attestations_conv List.map_filter_simps)
  next
    case (Some opened)
    with ok obtain as where as: "rg_attesters r c = Some as"
      and dom: "\<And>v. rg_att r (c, v) \<noteq> None \<longleftrightarrow> v \<in> set as"
      and att: "\<And>v a. rg_att r (c, v) = Some a \<Longrightarrow> at_verifier a = v \<and> opened \<le> at_ledger a \<and>
                at_ledger a < opened + cfg_attest_window cfg \<and> at_ledger a \<le> now"
      by (auto simp: claim_ok_def)
    note at = claim_attestations [OF ok as]
    have "map at_verifier (attestations r c) = as"
      unfolding attestations_def at(1) by (simp add: map_idI at(3))
    moreover have stored: "\<exists>v. v \<in> set as \<and> rg_att r (c, v) = Some a"
      if "a \<in> set (attestations r c)" for a
    proof -
      from that obtain v where "v \<in> set as" "a = the (rg_att r (c, v))"
        by (auto simp: attestations_def at(1))
      with dom [of v] show ?thesis by auto
    qed
    moreover have "a \<in> set (attestations r c)" if "rg_att r (c, v) = Some a" for v a
      using dom [of v] that by (force simp: attestations_def at(1))
    moreover have "rg_att r (c, at_verifier a) = Some a \<and>
       (\<exists>opened. rg_opened r c = Some opened \<and> opened \<le> at_ledger a \<and>
          at_ledger a < opened + cfg_attest_window cfg \<and> at_ledger a \<le> now)"
      if "a \<in> set (attestations r c)" for a
      using stored [OF that] att Some by auto
    ultimately show ?thesis using at(2) by blast
  qed
qed

theorem attestation_record_sound_witness:
  "distinct (map at_verifier (attestations (fst demo_world) (7, 1))) \<and>
   length (attestations (fst demo_world) (7, 1)) = 3"
proof -
  obtain r k where w: "demo_world = (r, k)" by fastforce
  show ?thesis
    using attestation_record_sound [OF demo_world_reachable [unfolded w], of "(7, 1)"]
      demo_world_atts [unfolded w fst_conv]
    by (simp add: w attestations_def)
qed

text \<open>
  Property C10. The vote count. The nested loops return the number of attestations, the number of
  different hashes, and a most frequent hash with its multiplicity; a strict majority exists
  exactly when twice that multiplicity exceeds the total, and then it is the returned hash.
\<close>

theorem tally_correct:
  "case tally_of atts of (mx, ty) \<Rightarrow>
     tl_total ty = length atts \<and> tl_distinct ty = card (set (hashes atts)) \<and>
     tl_top_count ty = count_list (hashes atts) mx \<and>
     (\<forall>h. count_list (hashes atts) h \<le> tl_top_count ty) \<and>
     (\<forall>h. length atts < 2 * count_list (hashes atts) h \<longleftrightarrow>
          h = mx \<and> tl_total ty < 2 * tl_top_count ty)"
proof -
  obtain mx ty where t: "tally_of atts = (mx, ty)" by fastforce
  have "count_list (hashes atts) h \<le> tl_top_count ty" for h
    using tally_of_spec(4) [OF t, of h] by (cases "h \<in> set (hashes atts)") auto
  moreover have "length atts < 2 * count_list (hashes atts) h \<longleftrightarrow>
      h = mx \<and> tl_total ty < 2 * tl_top_count ty" for h
    using strict_majority_top [OF t] unfolding tally_of_spec(1) [OF t] tally_of_spec(3) [OF t] by blast
  ultimately show ?thesis unfolding t prod.case
    using tally_of_spec(1) [OF t] tally_of_spec(2) [OF t] tally_of_spec(3) [OF t] by blast
qed

section \<open>Corner cases\<close>

text \<open>
  An outvoted verifier whose held stake is positive but whose share rounds down to zero is answered
  \<open>NothingToSlash\<close>, the error documented as \<open>no stake left\<close>.
\<close>

lemma slash_dust_refused:
  assumes "vrfy_reachable cfg T R (now, r, k)" and "ledger_seq env = now"
    and "outvoted cfg now r (w, d) v" and "rg_slashed r ((w, d), v) = None"
    and "0 < held r v" and "held r v * int (cfg_slash_bps cfg) < 10000"
    and "\<And>opened. rg_opened r (w, d) = Some opened \<Longrightarrow> opened + cfg_attest_window cfg \<le> u32_max"
    and "2 * length (read_attestations r (w, d)) \<le> u32_max"
  shows "slash (vrfy_client T) env (r, k) w d v = Inl (Contract NothingToSlash)"
proof -
  note inv = sys_invD [OF vrfy_reachable_inv [OF assms(1)]]
  let ?i = "read_stake r v" and ?atts = "read_attestations r (w, d)"
  obtain mx ty where t: "tally_of ?atts = (mx, ty)" by fastforce
  obtain opened att where o: "rg_opened r (w, d) = Some opened"
    "opened + cfg_attest_window cfg \<le> now" "cfg_quorum cfg \<le> tl_total ty"
    "tl_total ty < 2 * tl_top_count ty" "rg_att r ((w, d), v) = Some att" "at_rebuilt att \<noteq> mx"
    using assms(3) outvoted_tally [OF t] by blast
  have i: "0 \<le> si_staked ?i" "0 \<le> si_unbonding ?i" using stakes_okD(2,3) [OF inv(5)] by simp_all
  have bps: "0 < int (cfg_slash_bps cfg)" using inv(3) by (simp add: cfg_ok_def)
  have "slash_amount cfg ?i = 0"
    using slash_amount_bounds(3) [OF inv(3) i] assms(5,6) bps
    by (simp add: held_def div_pos_pos_trivial)
  moreover have "in_i128 (si_staked ?i + si_unbonding ?i)"
    using held_le_total [OF inv(5), of v] inv(6) vrfy_bal_range [OF inv(4), of R] i
    by (simp add: held_def in_i128_nonneg)
  moreover have "in_i128 ((si_staked ?i + si_unbonding ?i) * int (cfg_slash_bps cfg))"
    using assms(5,6) bps mult_pos_pos [OF assms(5) bps]
    by (simp add: held_def in_i128_nonneg i128_max_def)
  moreover have "2 * tl_top_count ty \<le> u32_max"
    using assms(8) count_list_le_length [of "hashes ?atts" mx] by (simp add: tally_of_spec(3) [OF t])
  ultimately show ?thesis
    using o t inv(1) assms(2,4) assms(7) [OF o(1)]
    by (simp add: slash_def Let_def read_config_def slash_amount_def [symmetric])
qed

text \<open>
  The constructor accepts windows so long that a claim's closing ledger does not fit a ledger
  number: its verdict then traps for ever, and no unstaking can be requested.
\<close>

lemma endless_window_traps:
  assumes "rg_config r = Some cfg" and "rg_opened r (w, d) = Some opened"
    and "u32_max < opened + cfg_attest_window cfg"
  shows "consensus_of env r w d = Inl (Trap Overflow)"
  using assms by (simp add: consensus_of_def read_config_def chk_u32_def split: prod.splits)

lemma endless_window_accepted:
  "is_ok (reg_constructor T 1 3 u32_max u32_max 1 r)"
  by (simp add: reg_constructor_def MIN_QUORUM_def BPS_DENOMINATOR_def u32_max_def)

lemma endless_unbonding_traps:
  assumes "rg_config r = Some cfg" and "u32_max < ledger_seq env + cfg_unbond_period cfg"
  shows "\<not> is_ok (request_unstake env (r, k) v n)"
  using assms
  by (auto simp: request_unstake_def is_ok_iff rbind_simps Let_def split: if_splits)

end
