(* ===== verification/Text.thy ===== *)
theory Text
  imports Prelude "HOL-Library.Sublist" "HOL-Library.Char_ord"
begin

text \<open>
  Rust strings and byte vectors. Both are lists of 8-bit characters: a string is the list of the
  bytes of its UTF-8 encoding. The functions of the standard library the program uses on them are
  defined here: validity and lossy decoding of UTF-8, trimming of Unicode white space, ASCII case,
  substring search, splitting, and decimal output.
\<close>

type_synonym bytes = "char list"

abbreviation byte :: "char \<Rightarrow> nat" where "byte c \<equiv> of_char c"

abbreviation chr :: "nat \<Rightarrow> char" where "chr n \<equiv> char_of n"

section \<open>UTF-8\<close>

definition in_range :: "nat \<Rightarrow> nat \<Rightarrow> char \<Rightarrow> bool" where
  "in_range lo hi c \<longleftrightarrow> lo \<le> byte c \<and> byte c \<le> hi"

abbreviation cont :: "char \<Rightarrow> bool" where "cont \<equiv> in_range 128 191"

text \<open>
  The first character of a byte list: how many bytes it takes and whether they are valid; an
  invalid prefix is as long as a valid character could still have begun with it, and at least one.
\<close>

definition second_ok :: "char \<Rightarrow> char \<Rightarrow> bool" where
  "second_ok a b \<longleftrightarrow>
     (if byte a = 224 then in_range 160 191 b
      else if byte a = 237 then in_range 128 159 b
      else if byte a = 240 then in_range 144 191 b
      else if byte a = 244 then in_range 128 143 b
      else cont b)"

definition char_width :: "char \<Rightarrow> nat" where
  "char_width a =
     (if byte a < 128 then 1
      else if in_range 194 223 a then 2
      else if in_range 224 239 a then 3
      else if in_range 240 244 a then 4
      else 0)"

fun utf8_head :: "bytes \<Rightarrow> nat \<times> bool" where
  "utf8_head [] = (0, True)"
| "utf8_head (a # bs) =
     (let w = char_width a in
      if w = 1 then (1, True)
      else if w = 0 then (1, False)
      else case bs of
        [] \<Rightarrow> (1, False)
      | b # bs \<Rightarrow>
          if \<not> second_ok a b then (1, False)
          else if w = 2 then (2, True)
          else case bs of
            [] \<Rightarrow> (2, False)
          | c # bs \<Rightarrow>
              if \<not> cont c then (2, False)
              else if w = 3 then (3, True)
              else case bs of
                [] \<Rightarrow> (3, False)
              | d # bs \<Rightarrow> if cont d then (4, True) else (3, False))"

lemma utf8_head_pos: "xs \<noteq> [] \<Longrightarrow> 0 < fst (utf8_head xs)"
  by (cases xs) (auto simp: Let_def split: list.splits)

lemma utf8_head_le: "fst (utf8_head xs) \<le> length xs"
  by (cases xs) (auto simp: Let_def split: list.splits)

definition utf8_rest :: "bytes \<Rightarrow> bytes" where
  "utf8_rest xs = drop (fst (utf8_head xs)) xs"

lemma utf8_rest_shorter [termination_simp]: "xs \<noteq> [] \<Longrightarrow> length (utf8_rest xs) < length xs"
  using utf8_head_pos [of xs] by (cases xs) (auto simp: utf8_rest_def)

text \<open>\<open>str::from_utf8\<close> succeeds.\<close>

function utf8_valid :: "bytes \<Rightarrow> bool" where
  "utf8_valid xs = (if xs = [] then True else snd (utf8_head xs) \<and> utf8_valid (utf8_rest xs))"
  by auto
termination by (relation "measure length") (auto simp: utf8_rest_shorter)

declare utf8_valid.simps [simp del]

text \<open>\<open>String::from_utf8_lossy\<close>: each invalid prefix becomes U+FFFD.\<close>

definition replacement_char :: bytes where
  "replacement_char = [CHR 0xEF, CHR 0xBF, CHR 0xBD]"

function utf8_lossy :: "bytes \<Rightarrow> string" where
  "utf8_lossy xs =
     (if xs = [] then []
      else (if snd (utf8_head xs) then take (fst (utf8_head xs)) xs else replacement_char)
             @ utf8_lossy (utf8_rest xs))"
  by auto
termination by (relation "measure length") (auto simp: utf8_rest_shorter)

declare utf8_lossy.simps [simp del]

lemma utf8_lossy_Nil [simp]: "utf8_lossy [] = []"
  by (simp add: utf8_lossy.simps)

lemma utf8_lossy_valid: "utf8_valid xs \<Longrightarrow> utf8_lossy xs = xs"
proof (induction xs rule: utf8_valid.induct)
  case (1 xs)
  then show ?case
    using utf8_lossy.simps [of xs] utf8_valid.simps [of xs]
    by (cases "xs = []") (simp_all add: utf8_rest_def)
qed

lemma utf8_valid_ascii: "\<forall>c \<in> set xs. byte c < 128 \<Longrightarrow> utf8_valid xs"
proof (induction xs)
  case Nil
  then show ?case by (simp add: utf8_valid.simps)
next
  case (Cons a xs)
  then have "utf8_head (a # xs) = (1, True)" by (simp add: char_width_def Let_def)
  with Cons show ?case using utf8_valid.simps [of "a # xs"] by (simp add: utf8_rest_def)
qed

section \<open>ASCII case\<close>

definition lower_char :: "char \<Rightarrow> char" where
  "lower_char c = (if in_range 65 90 c then chr (byte c + 32) else c)"

definition ascii_lower :: "string \<Rightarrow> string" where
  "ascii_lower s = map lower_char s"

definition eq_ignore_ascii_case :: "string \<Rightarrow> string \<Rightarrow> bool" where
  "eq_ignore_ascii_case a b \<longleftrightarrow> ascii_lower a = ascii_lower b"

lemma lower_char_idem [simp]: "lower_char (lower_char c) = lower_char c"
  by (auto simp: lower_char_def in_range_def)

lemma ascii_lower_idem [simp]: "ascii_lower (ascii_lower s) = ascii_lower s"
  by (simp add: ascii_lower_def)

lemma length_ascii_lower [simp]: "length (ascii_lower s) = length s"
  by (simp add: ascii_lower_def)

section \<open>Search and splitting\<close>

abbreviation starts_with :: "string \<Rightarrow> string \<Rightarrow> bool" where
  "starts_with s p \<equiv> prefix p s"

definition ends_with :: "string \<Rightarrow> string \<Rightarrow> bool" where
  "ends_with s p \<longleftrightarrow> prefix (rev p) (rev s)"

lemma ends_with_iff: "ends_with s p \<longleftrightarrow> (\<exists>u. s = u @ p)"
  unfolding ends_with_def suffix_to_prefix [symmetric] by (auto simp: suffix_def)

fun contains :: "string \<Rightarrow> string \<Rightarrow> bool" where
  "contains [] p \<longleftrightarrow> p = []"
| "contains (c # s) p \<longleftrightarrow> prefix p (c # s) \<or> contains s p"

lemma contains_iff: "contains s p \<longleftrightarrow> (\<exists>u v. s = u @ p @ v)"
proof (induction s)
  case Nil
  then show ?case by auto
next
  case (Cons c s)
  then show ?case
    by (auto simp: prefix_def Cons_eq_append_conv)
qed

text \<open>\<open>split\<close> on one character: always at least one piece.\<close>

fun split_on :: "char \<Rightarrow> string \<Rightarrow> string list" where
  "split_on sep [] = [[]]"
| "split_on sep (c # s) =
     (if c = sep then [] # split_on sep s
      else case split_on sep s of [] \<Rightarrow> [[c]] | p # ps \<Rightarrow> (c # p) # ps)"

lemma split_on_break:
  "split_on sep s = takeWhile (\<lambda>c. c \<noteq> sep) s #
     (case dropWhile (\<lambda>c. c \<noteq> sep) s of [] \<Rightarrow> [] | _ # r \<Rightarrow> split_on sep r)"
  by (induction s) (auto split: list.splits)

text \<open>\<open>split_once\<close>: what stands before and after the first occurrence.\<close>

fun split_once :: "string \<Rightarrow> string \<Rightarrow> (string \<times> string) option" where
  "split_once [] p = (if p = [] then Some ([], []) else None)"
| "split_once (c # s) p =
     (if starts_with (c # s) p then Some ([], drop (length p) (c # s))
      else map_option (\<lambda>(u, v). (c # u, v)) (split_once s p))"

lemma split_once_Some: "split_once s p = Some (u, v) \<Longrightarrow> s = u @ p @ v"
  by (induction s arbitrary: u v) (auto simp: prefix_def split: if_splits)

lemma split_once_None: "split_once s p = None \<longleftrightarrow> \<not> contains s p"
  by (induction s) auto

fun join :: "string \<Rightarrow> string list \<Rightarrow> string" where
  "join sep [] = []"
| "join sep [x] = x"
| "join sep (x # y # ys) = x @ sep @ join sep (y # ys)"

text \<open>Two characters outside ASCII that occur in messages.\<close>

definition ELLIPSIS :: string where "ELLIPSIS = map chr [226, 128, 166]"
definition EM_DASH :: string where "EM_DASH = map chr [226, 128, 148]"

section \<open>White space\<close>

text \<open>The UTF-8 encodings of the code points with the property White_Space.\<close>

definition whitespace :: "bytes list" where
  "whitespace =
     map (\<lambda>n. [chr n]) [9, 10, 11, 12, 13, 32] @
     map (\<lambda>n. [chr 194, chr n]) [133, 160] @
     [[chr 225, chr 154, chr 128]] @
     map (\<lambda>n. [chr 226, chr 128, chr n]) ([128..<139] @ [168, 169, 175]) @
     [[chr 226, chr 129, chr 159], [chr 227, chr 128, chr 128]]"

definition ws_prefix :: "bytes \<Rightarrow> nat" where
  "ws_prefix s = (case find (\<lambda>w. prefix w s) whitespace of None \<Rightarrow> 0 | Some w \<Rightarrow> length w)"

definition ws_suffix :: "bytes \<Rightarrow> nat" where
  "ws_suffix s = (case find (\<lambda>w. ends_with s w) whitespace of None \<Rightarrow> 0 | Some w \<Rightarrow> length w)"

lemma ws_prefix_le: "ws_prefix s \<le> length s"
  by (auto simp: ws_prefix_def find_Some_iff prefix_length_le split: option.splits)

function trim_start :: "string \<Rightarrow> string" where
  "trim_start s = (if s = [] \<or> ws_prefix s = 0 then s else trim_start (drop (ws_prefix s) s))"
  by auto
termination by (relation "measure length") auto

function trim_end :: "string \<Rightarrow> string" where
  "trim_end s = (if s = [] \<or> ws_suffix s = 0 then s else trim_end (take (length s - ws_suffix s) s))"
  by auto
termination by (relation "measure length") auto

declare trim_start.simps [simp del] trim_end.simps [simp del]

definition trim :: "string \<Rightarrow> string" where
  "trim s = trim_end (trim_start s)"

lemma trim_Nil [simp]: "trim [] = []"
  by (simp add: trim_def trim_start.simps trim_end.simps)

text \<open>Facts that evaluate trimming on a literal.\<close>

lemma whitespace_chars:
  "whitespace =
     [[CHR 0x09],
      [CHR 0x0A],
      [CHR 0x0B],
      [CHR 0x0C],
      [CHR 0x0D],
      [CHR 0x20],
      [CHR 0xC2, CHR 0x85],
      [CHR 0xC2, CHR 0xA0],
      [CHR 0xE1, CHR 0x9A, CHR 0x80],
      [CHR 0xE2, CHR 0x80, CHR 0x80],
      [CHR 0xE2, CHR 0x80, CHR 0x81],
      [CHR 0xE2, CHR 0x80, CHR 0x82],
      [CHR 0xE2, CHR 0x80, CHR 0x83],
      [CHR 0xE2, CHR 0x80, CHR 0x84],
      [CHR 0xE2, CHR 0x80, CHR 0x85],
      [CHR 0xE2, CHR 0x80, CHR 0x86],
      [CHR 0xE2, CHR 0x80, CHR 0x87],
      [CHR 0xE2, CHR 0x80, CHR 0x88],
      [CHR 0xE2, CHR 0x80, CHR 0x89],
      [CHR 0xE2, CHR 0x80, CHR 0x8A],
      [CHR 0xE2, CHR 0x80, CHR 0xA8],
      [CHR 0xE2, CHR 0x80, CHR 0xA9],
      [CHR 0xE2, CHR 0x80, CHR 0xAF],
      [CHR 0xE2, CHR 0x81, CHR 0x9F],
      [CHR 0xE3, CHR 0x80, CHR 0x80]]"
  by code_simp

lemmas ws_eval = trim_def trim_start.simps trim_end.simps ws_prefix_def ws_suffix_def whitespace_chars ends_with_def

section \<open>Numbers\<close>

fun show_nat :: "nat \<Rightarrow> string" where
  "show_nat n = (if n < 10 then [chr (48 + n)] else show_nat (n div 10) @ [chr (48 + n mod 10)])"

declare show_nat.simps [simp del]

definition show_int :: "int \<Rightarrow> string" where
  "show_int z = (if z < 0 then ''-'' @ show_nat (nat (- z)) else show_nat (nat z))"

fun read_digits :: "nat \<Rightarrow> string \<Rightarrow> nat option" where
  "read_digits acc [] = Some acc"
| "read_digits acc (c # s) =
     (if in_range 48 57 c then read_digits (10 * acc + (byte c - 48)) s else None)"

lemma read_digits_append:
  "read_digits acc (xs @ ys) = (case read_digits acc xs of None \<Rightarrow> None | Some a \<Rightarrow> read_digits a ys)"
  by (induction xs arbitrary: acc) auto

lemma read_show_nat: "read_digits 0 (show_nat n) = Some n"
proof (induction n rule: show_nat.induct)
  case (1 n)
  show ?case
  proof (cases "n < 10")
    case True
    then show ?thesis by (subst show_nat.simps) (simp add: in_range_def)
  next
    case False
    have "n mod 10 < 10" by simp
    with 1 False show ?thesis
      by (subst show_nat.simps) (simp add: read_digits_append in_range_def)
  qed
qed

lemma show_nat_inj: "show_nat m = show_nat n \<Longrightarrow> m = n"
  using read_show_nat by (metis option.inject)

end
