(* ===== verification/World.thy ===== *)
theory World
  imports Text
begin

text \<open>
  The outside of the verification engine. Everything the engine does to the machine it runs on is an
  event with the answer it got: processes, requests, name lookups, file operations. An environment
  answers each action in the light of everything that happened before, and tells the time. A
  computation passes the history on and ends in a \<open>VerifyError\<close> (\<open>error.rs\<close>) or a value; values
  whose \<open>Drop\<close> acts on the machine are scoped by \<open>with_drop\<close>.
\<close>

section \<open>Errors\<close>

datatype verify_error =
    SourceFetch string
  | SourceIntegrity string string
  | SourceLayout nat
  | UnpinnedImage string
  | BuildFailed int string
  | Timeout nat
  | NoWasmProduced
  | AmbiguousWasm nat "string list"
  | Docker string
  | Io string

section \<open>Events\<close>

datatype ip =
    V4 "8 word" "8 word" "8 word" "8 word"
  | V6 "16 word" "16 word" "16 word" "16 word" "16 word" "16 word" "16 word" "16 word"

text \<open>How a child process ends; its exit code is absent when a signal killed it.\<close>

datatype proc_end =
    Not_Started string
  | Write_Failed string
  | Wait_Failed string
  | Out_Of_Time
  | Exited "int option" bytes bytes

record response =
  rs_status :: nat
  rs_location :: "string option"
  rs_body :: "string + bytes"

text \<open>A process is a program, its arguments, what is piped to it and how long we wait for it.\<close>

record spawn =
  sp_program :: string
  sp_args :: "string list"
  sp_stdin :: "bytes option"
  sp_limit :: "nat option"

datatype file_op =
    Create_Dir string
  | Remove_Dir string
  | Write_File string bytes

datatype event =
    Process spawn proc_end
  | Get string "string + response"
  | Resolve string nat "string + ip list"
  | File file_op "string option"

record world =
  history :: "event list"
  tokens :: nat

record env =
  env_process :: "event list \<Rightarrow> spawn \<Rightarrow> proc_end"
  env_get :: "event list \<Rightarrow> string \<Rightarrow> string + response"
  env_resolve :: "event list \<Rightarrow> string \<Rightarrow> nat \<Rightarrow> string + ip list"
  env_file :: "event list \<Rightarrow> file_op \<Rightarrow> string option"
  env_clock :: "event list \<Rightarrow> nat"
  env_pid :: nat
  env_temp_dir :: string
  env_var :: "string \<Rightarrow> string option"
  env_windows :: bool

section \<open>Computations\<close>

type_synonym 'a io = "world \<Rightarrow> (verify_error + 'a) \<times> world"

definition ret :: "'a \<Rightarrow> 'a io" where
  "ret x w = (Inr x, w)"

definition fail_with :: "verify_error \<Rightarrow> 'a io" where
  "fail_with e w = (Inl e, w)"

definition lift_result :: "verify_error + 'a \<Rightarrow> 'a io" where
  "lift_result m w = (m, w)"

definition andThen :: "'a io \<Rightarrow> ('a \<Rightarrow> 'b io) \<Rightarrow> 'b io" where
  "andThen m f w = (case m w of (Inl e, w') \<Rightarrow> (Inl e, w') | (Inr x, w') \<Rightarrow> f x w')"

text \<open>Run \<open>m\<close>, then the clean-up, whatever \<open>m\<close> returned; the clean-up's own failure is ignored.\<close>

definition with_drop :: "'a io \<Rightarrow> 'b io \<Rightarrow> 'a io" where
  "with_drop m cleanup w = (case m w of (r, w') \<Rightarrow> (r, snd (cleanup w')))"

text \<open>The result of \<open>m\<close> as a value, to match on.\<close>

definition try_io :: "'a io \<Rightarrow> (verify_error + 'a) io" where
  "try_io m w = (case m w of (r, w') \<Rightarrow> (Inr r, w'))"

definition record_event :: "event \<Rightarrow> world \<Rightarrow> world" where
  "record_event ev w = w\<lparr>history := history w @ [ev]\<rparr>"

definition do_process :: "env \<Rightarrow> spawn \<Rightarrow> proc_end io" where
  "do_process env sp w =
     (let r = env_process env (history w) sp in (Inr r, record_event (Process sp r) w))"

definition do_get :: "env \<Rightarrow> string \<Rightarrow> (string + response) io" where
  "do_get env url w = (let r = env_get env (history w) url in (Inr r, record_event (Get url r) w))"

definition do_resolve :: "env \<Rightarrow> string \<Rightarrow> nat \<Rightarrow> (string + ip list) io" where
  "do_resolve env host port w =
     (let r = env_resolve env (history w) host port in (Inr r, record_event (Resolve host port r) w))"

definition do_file :: "env \<Rightarrow> file_op \<Rightarrow> unit io" where
  "do_file env op w =
     (let r = env_file env (history w) op
      in (case r of None \<Rightarrow> Inr () | Some e \<Rightarrow> Inl (Io e), record_event (File op r) w))"

definition now_io :: "env \<Rightarrow> nat io" where
  "now_io env w = (Inr (env_clock env (history w)), w)"

text \<open>\<open>unique_token\<close>: the process id and a counter that never repeats.\<close>

definition unique_token :: "env \<Rightarrow> string io" where
  "unique_token env w =
     (Inr (show_nat (env_pid env) @ ''-'' @ show_nat (tokens w)), w\<lparr>tokens := tokens w + 1\<rparr>)"

section \<open>Traces\<close>

text \<open>
  \<open>traces m Q\<close>: whatever the environment and the past, \<open>m\<close> only appends to the history, and its
  result and the events it appended satisfy \<open>Q\<close>.
\<close>

definition traces :: "'a io \<Rightarrow> (verify_error + 'a \<Rightarrow> event list \<Rightarrow> bool) \<Rightarrow> bool" where
  "traces m Q \<longleftrightarrow> (\<forall>w. \<exists>evs. history (snd (m w)) = history w @ evs \<and> Q (fst (m w)) evs)"

lemma tracesI:
  assumes "\<And>w. \<exists>evs. history (snd (m w)) = history w @ evs \<and> Q (fst (m w)) evs"
  shows "traces m Q"
  using assms by (simp add: traces_def)

lemma tracesD:
  assumes "traces m Q" and "m w = (r, w')"
  shows "\<exists>evs. history w' = history w @ evs \<and> Q r evs"
  using assms(1) unfolding traces_def by (metis assms(2) fst_conv snd_conv)

lemma traces_mono:
  assumes "traces m Q" and "\<And>r evs. Q r evs \<Longrightarrow> Q' r evs"
  shows "traces m Q'"
  using assms unfolding traces_def by blast

lemma traces_ret: "Q (Inr x) [] \<Longrightarrow> traces (ret x) Q"
  by (simp add: traces_def ret_def)

lemma traces_fail: "Q (Inl e) [] \<Longrightarrow> traces (fail_with e) Q"
  by (simp add: traces_def fail_with_def)

lemma traces_lift: "Q m [] \<Longrightarrow> traces (lift_result m) Q"
  by (simp add: traces_def lift_result_def)

lemma traces_andThen:
  assumes "traces m P"
    and "\<And>e evs. P (Inl e) evs \<Longrightarrow> Q (Inl e) evs"
    and "\<And>x evs. P (Inr x) evs \<Longrightarrow> traces (f x) (\<lambda>r evs'. Q r (evs @ evs'))"
  shows "traces (andThen m f) Q"
proof (rule tracesI)
  fix w
  obtain r w1 where m: "m w = (r, w1)" by fastforce
  then obtain evs where h: "history w1 = history w @ evs" and p: "P r evs"
    using tracesD [OF assms(1) m] by blast
  show "\<exists>evs. history (snd (andThen m f w)) = history w @ evs \<and> Q (fst (andThen m f w)) evs"
  proof (cases r)
    case (Inl e)
    with m h p assms(2) show ?thesis by (auto simp: andThen_def)
  next
    case (Inr x)
    obtain r2 w2 where f: "f x w1 = (r2, w2)" by fastforce
    from p Inr assms(3) have "traces (f x) (\<lambda>r evs'. Q r (evs @ evs'))" by blast
    from tracesD [OF this f] obtain evs2 where "history w2 = history w1 @ evs2" "Q r2 (evs @ evs2)"
      by blast
    with m f h Inr show ?thesis by (auto simp: andThen_def)
  qed
qed

lemma traces_with_drop:
  assumes "traces m P"
    and "\<And>r evs. P r evs \<Longrightarrow> traces c (\<lambda>_ evs'. Q r (evs @ evs'))"
  shows "traces (with_drop m c) Q"
proof (rule tracesI)
  fix w
  obtain r w1 where m: "m w = (r, w1)" by fastforce
  obtain r2 w2 where c: "c w1 = (r2, w2)" by fastforce
  obtain evs where h: "history w1 = history w @ evs" and p: "P r evs"
    using tracesD [OF assms(1) m] by blast
  from tracesD [OF assms(2) [OF p] c] obtain evs2 where
    "history w2 = history w1 @ evs2" "Q r (evs @ evs2)" by blast
  with m c h show "\<exists>evs. history (snd (with_drop m c w)) = history w @ evs \<and>
      Q (fst (with_drop m c w)) evs"
    by (auto simp: with_drop_def)
qed

lemma traces_try:
  assumes "traces m P" and "\<And>r evs. P r evs \<Longrightarrow> Q (Inr r) evs"
  shows "traces (try_io m) Q"
proof (rule tracesI)
  fix w
  obtain r w1 where m: "m w = (r, w1)" by fastforce
  from tracesD [OF assms(1) m] assms(2)
  show "\<exists>evs. history (snd (try_io m w)) = history w @ evs \<and> Q (fst (try_io m w)) evs"
    by (auto simp: try_io_def m)
qed

lemma record_event_history [simp]: "history (record_event ev w) = history w @ [ev]"
  by (simp add: record_event_def)

lemma traces_process:
  "(\<And>r. Q (Inr r) [Process sp r]) \<Longrightarrow> traces (do_process env sp) Q"
  by (simp add: traces_def do_process_def Let_def)

lemma traces_get: "(\<And>r. Q (Inr r) [Get url r]) \<Longrightarrow> traces (do_get env url) Q"
  by (simp add: traces_def do_get_def Let_def)

lemma traces_resolve:
  "(\<And>r. Q (Inr r) [Resolve host port r]) \<Longrightarrow> traces (do_resolve env host port) Q"
  by (simp add: traces_def do_resolve_def Let_def)

lemma traces_file:
  assumes "Q (Inr ()) [File op None]" and "\<And>e. Q (Inl (Io e)) [File op (Some e)]"
  shows "traces (do_file env op) Q"
  using assms by (auto simp: traces_def do_file_def Let_def split: option.splits)

lemma traces_now: "(\<And>t. Q (Inr t) []) \<Longrightarrow> traces (now_io env) Q"
  by (simp add: traces_def now_io_def)

lemma traces_token: "(\<And>s. Q (Inr s) []) \<Longrightarrow> traces (unique_token env) Q"
  by (simp add: traces_def unique_token_def)

text \<open>An invariant of every single event holds of a whole computation.\<close>

definition all_events :: "(event \<Rightarrow> bool) \<Rightarrow> 'a io \<Rightarrow> bool" where
  "all_events p m \<longleftrightarrow> traces m (\<lambda>_ evs. list_all p evs)"

lemma all_events_andThen:
  "all_events p m \<Longrightarrow> (\<And>x. all_events p (f x)) \<Longrightarrow> all_events p (andThen m f)"
  unfolding all_events_def
  by (rule traces_andThen [where P = "\<lambda>_ evs. list_all p evs"])
    (auto elim!: traces_mono)

lemma all_events_with_drop:
  "all_events p m \<Longrightarrow> all_events p c \<Longrightarrow> all_events p (with_drop m c)"
  unfolding all_events_def
  by (rule traces_with_drop [where P = "\<lambda>_ evs. list_all p evs"]) (auto elim!: traces_mono)

lemma all_events_try: "all_events p m \<Longrightarrow> all_events p (try_io m)"
  unfolding all_events_def by (rule traces_try) auto

lemma all_events_basic:
  "all_events p (ret x)" "all_events p (fail_with e)" "all_events p (lift_result r)"
  "all_events p (now_io env)" "all_events p (unique_token env)"
  "(\<And>r. p (Process sp r)) \<Longrightarrow> all_events p (do_process env sp)"
  "(\<And>r. p (Get url r)) \<Longrightarrow> all_events p (do_get env url)"
  "(\<And>r. p (Resolve host port r)) \<Longrightarrow> all_events p (do_resolve env host port)"
  "(\<And>r. p (File op r)) \<Longrightarrow> all_events p (do_file env op)"
  unfolding all_events_def
  by (auto intro!: traces_ret traces_fail traces_lift traces_now traces_token traces_process
      traces_get traces_resolve traces_file)

lemmas all_events_intros = all_events_andThen all_events_with_drop all_events_try all_events_basic

section \<open>Code that is not in the repository\<close>

text \<open>
  The libraries the engine calls, as arguments of the model: SHA-256, hexadecimal output, reading
  and writing tar archives, JSON arrays of strings, URL parsing, and the Unicode tables behind
  \<open>to_lowercase\<close> and the display of addresses.
\<close>

datatype entry_type = Regular | Directory | Link | Symlink | Pax_Global | Pax_Local | Other_Entry nat

record tar_entry =
  te_type :: entry_type
  te_path :: bytes
  te_link :: "bytes option"
  te_mode :: "nat option"
  te_mtime :: "nat option"
  te_data :: "string + bytes"

record staged_entry =
  se_type :: entry_type
  se_path :: string
  se_link :: "string option"
  se_mode :: nat
  se_mtime :: nat
  se_uid :: nat
  se_gid :: nat
  se_size :: nat
  se_data :: bytes

record url =
  url_scheme :: string
  url_host :: "string option"
  url_port :: "nat option"
  url_text :: string

record libs =
  lib_sha256 :: "bytes \<Rightarrow> bytes"
  lib_hex :: "bytes \<Rightarrow> string"
  lib_unhex :: "string \<Rightarrow> string + bytes"
  lib_untar :: "bytes \<Rightarrow> string + (string + tar_entry) list"
  lib_tar_append :: "staged_entry \<Rightarrow> string option"
  lib_tar_finish :: "staged_entry list \<Rightarrow> string + bytes"
  lib_json_strings :: "bytes \<Rightarrow> string + string list"
  lib_url_parse :: "string \<Rightarrow> string + url"
  lib_url_join :: "url \<Rightarrow> string \<Rightarrow> string + url"
  lib_show_ip :: "ip \<Rightarrow> string"
  lib_lowercase :: "string \<Rightarrow> string"

text \<open>\<open>sha256_hex\<close> of \<open>lib.rs\<close>.\<close>

definition sha256_hex :: "libs \<Rightarrow> bytes \<Rightarrow> string" where
  "sha256_hex l b = lib_hex l (lib_sha256 l b)"

end
