(* ===== verification/NetGuard.thy ===== *)
theory NetGuard
  imports World
begin

unbundle bit_operations_syntax

text \<open>
  The SSRF guard of \<open>crates/verifier-core/src/source.rs\<close>: which addresses are internal, the check
  of a URL before it is dialed, and the download that follows redirects itself so that every hop is
  checked. URL parsing and the machine's resolver are arguments of the model.
\<close>

section \<open>Internal addresses\<close>

text \<open>The predicates of \<open>std::net::Ipv4Addr\<close> and \<open>Ipv6Addr\<close> the code uses.\<close>

definition v4_is_private :: "8 word \<Rightarrow> 8 word \<Rightarrow> bool" where
  "v4_is_private a b \<longleftrightarrow> a = 10 \<or> (a = 172 \<and> 16 \<le> b \<and> b \<le> 31) \<or> (a = 192 \<and> b = 168)"

definition v4_is_documentation :: "8 word \<Rightarrow> 8 word \<Rightarrow> 8 word \<Rightarrow> bool" where
  "v4_is_documentation a b c \<longleftrightarrow>
     (a = 192 \<and> b = 0 \<and> c = 2) \<or> (a = 198 \<and> b = 51 \<and> c = 100) \<or> (a = 203 \<and> b = 0 \<and> c = 113)"

definition is_internal_v4 :: "8 word \<Rightarrow> 8 word \<Rightarrow> 8 word \<Rightarrow> 8 word \<Rightarrow> bool" where
  "is_internal_v4 a b c d \<longleftrightarrow>
     a = 127
   \<or> v4_is_private a b
   \<or> (a = 169 \<and> b = 254)
   \<or> (a = 255 \<and> b = 255 \<and> c = 255 \<and> d = 255)
   \<or> v4_is_documentation a b c
   \<or> (a = 0 \<and> b = 0 \<and> c = 0 \<and> d = 0)
   \<or> a = 0
   \<or> (a = 100 \<and> b AND 0xc0 = 0x40)"

definition high_octet :: "16 word \<Rightarrow> 8 word" where
  "high_octet s = ucast (drop_bit 8 s)"

definition low_octet :: "16 word \<Rightarrow> 8 word" where
  "low_octet s = ucast s"

fun to_ipv4_mapped :: "ip \<Rightarrow> ip option" where
  "to_ipv4_mapped (V4 a b c d) = None"
| "to_ipv4_mapped (V6 s0 s1 s2 s3 s4 s5 s6 s7) =
     (if s0 = 0 \<and> s1 = 0 \<and> s2 = 0 \<and> s3 = 0 \<and> s4 = 0 \<and> s5 = 0xffff
      then Some (V4 (high_octet s6) (low_octet s6) (high_octet s7) (low_octet s7)) else None)"

fun is_internal :: "ip \<Rightarrow> bool" where
  "is_internal (V4 a b c d) = is_internal_v4 a b c d"
| "is_internal (V6 s0 s1 s2 s3 s4 s5 s6 s7) =
     (if s0 = 0 \<and> s1 = 0 \<and> s2 = 0 \<and> s3 = 0 \<and> s4 = 0 \<and> s5 = 0 \<and> s6 = 0 \<and> (s7 = 0 \<or> s7 = 1) then True
      else case to_ipv4_mapped (V6 s0 s1 s2 s3 s4 s5 s6 s7) of
        Some (V4 a b c d) \<Rightarrow> is_internal_v4 a b c d
      | _ \<Rightarrow> (s0 AND 0xfe00) = 0xfc00 \<or> (s0 AND 0xffc0) = 0xfe80)"

section \<open>The same set as address blocks\<close>

text \<open>A block is its base address, as a number, and its prefix length.\<close>

definition v4_value :: "8 word \<Rightarrow> 8 word \<Rightarrow> 8 word \<Rightarrow> 8 word \<Rightarrow> nat" where
  "v4_value a b c d = ((unat a * 256 + unat b) * 256 + unat c) * 256 + unat d"

definition in_block :: "nat \<Rightarrow> nat \<times> nat \<Rightarrow> bool" where
  "in_block addr = (\<lambda>(base, len). addr div 2 ^ (32 - len) = base div 2 ^ (32 - len))"

text \<open>
  0/8, 10/8, 100.64/10, 127/8, 169.254/16, 172.16/12, 192.0.2/24, 192.168/16, 198.51.100/24,
  203.0.113/24 and 255.255.255.255/32.
\<close>

definition internal_blocks :: "(nat \<times> nat) list" where
  "internal_blocks =
    [(0, 8), (v4_value 10 0 0 0, 8), (v4_value 100 64 0 0, 10), (v4_value 127 0 0 0, 8),
     (v4_value 169 254 0 0, 16), (v4_value 172 16 0 0, 12), (v4_value 192 0 2 0, 24),
     (v4_value 192 168 0 0, 16), (v4_value 198 51 100 0, 24), (v4_value 203 0 113 0, 24),
     (v4_value 255 255 255 255, 32)]"

lemma and_push_mask:
  "(w :: 'a::len word) AND push_bit n (mask m) = push_bit n (take_bit m (drop_bit n w))"
  by (rule bit_word_eqI) (auto simp: bit_simps)

lemmas unat_bits = unsigned_push_bit_eq unsigned_take_bit_eq unat_drop_bit_eq
lemmas nat_bits = take_bit_eq_mod drop_bit_eq_div push_bit_eq_mult

lemma unat8: "unat (w :: 8 word) < 256"
  using unsigned_less [of w] by simp

lemma unat16: "unat (w :: 16 word) < 65536"
  using unsigned_less [of w] by simp

lemma and_mask_8: "(w :: 8 word) AND 0xc0 = 0x40 \<longleftrightarrow> unat w div 64 = 1"
proof -
  have m: "(0xc0 :: 8 word) = push_bit 6 (mask 2)" by (simp add: mask_eq_exp_minus_1 push_bit_eq_mult)
  have "unat w div 64 < 4" using unat8 [of w] by simp
  then have "unat (w AND 0xc0) = unat w div 64 * 64"
    unfolding m and_push_mask unat_bits by (simp add: nat_bits)
  then show ?thesis by (simp add: word_unat_eq_iff)
qed

lemma and_mask_16:
  "(w :: 16 word) AND 0xfe00 = 0xfc00 \<longleftrightarrow> unat w div 512 = 126"
  "(w :: 16 word) AND 0xffc0 = 0xfe80 \<longleftrightarrow> unat w div 64 = 1018"
proof -
  have m: "(0xfe00 :: 16 word) = push_bit 9 (mask 7)" "(0xffc0 :: 16 word) = push_bit 6 (mask 10)"
    by (simp_all add: mask_eq_exp_minus_1 push_bit_eq_mult)
  have "unat w div 512 < 128" "unat w div 64 < 1024" using unat16 [of w] by simp_all
  then have "unat (w AND 0xfe00) = unat w div 512 * 512" "unat (w AND 0xffc0) = unat w div 64 * 64"
    unfolding m and_push_mask unat_bits by (simp_all add: nat_bits)
  then show "w AND 0xfe00 = 0xfc00 \<longleftrightarrow> unat w div 512 = 126"
    "w AND 0xffc0 = 0xfe80 \<longleftrightarrow> unat w div 64 = 1018" by (simp_all add: word_unat_eq_iff)
qed

lemma v4_value_div:
  fixes A B C D :: nat
  assumes "B < 256" "C < 256" "D < 256"
  defines "v \<equiv> ((A * 256 + B) * 256 + C) * 256 + D"
  shows "v div 2 ^ 24 = A" "v div 2 ^ 22 = A * 4 + B div 64" "v div 2 ^ 20 = A * 16 + B div 16"
    "v div 2 ^ 16 = A * 256 + B" "v div 2 ^ 8 = (A * 256 + B) * 256 + C"
  using assms(1-3) unfolding v_def by simp_all

lemma block_bases:
  "v4_value 10 0 0 0 = 10 * 2 ^ 24" "v4_value 100 64 0 0 = 401 * 2 ^ 22"
  "v4_value 127 0 0 0 = 127 * 2 ^ 24" "v4_value 169 254 0 0 = 43518 * 2 ^ 16"
  "v4_value 172 16 0 0 = 2753 * 2 ^ 20" "v4_value 192 0 2 0 = 12582914 * 2 ^ 8"
  "v4_value 192 168 0 0 = 49320 * 2 ^ 16" "v4_value 198 51 100 0 = 12989284 * 2 ^ 8"
  "v4_value 203 0 113 0 = 13303921 * 2 ^ 8" "v4_value 255 255 255 255 = 4294967295"
  by (simp_all add: v4_value_def)

lemma block_shifts:
  "(32::nat) - 8 = 24" "(32::nat) - 10 = 22" "(32::nat) - 16 = 16" "(32::nat) - 12 = 20"
  "(32::nat) - 24 = 8" "(32::nat) - 32 = 0"
  by simp_all

lemma digit_iff: "y < m \<Longrightarrow> x * m + y = c \<longleftrightarrow> x = c div m \<and> y = c mod (m :: nat)"
  by auto

lemma internal_blocks_iff:
  "is_internal_v4 a b c d \<longleftrightarrow> list_ex (in_block (v4_value a b c d)) internal_blocks"
proof -
  note bnd = unat8 [of a] unat8 [of b] unat8 [of c] unat8 [of d]
  note w = v4_value_div [OF bnd(2-4), of "unat a", folded v4_value_def]
  have blocks: "list_ex (in_block (v4_value a b c d)) internal_blocks \<longleftrightarrow>
      unat a = 0 \<or> unat a = 10 \<or> unat a * 4 + unat b div 64 = 401 \<or> unat a = 127 \<or>
      unat a * 256 + unat b = 43518 \<or> unat a * 16 + unat b div 16 = 2753 \<or>
      (unat a * 256 + unat b) * 256 + unat c = 12582914 \<or> unat a * 256 + unat b = 49320 \<or>
      (unat a * 256 + unat b) * 256 + unat c = 12989284 \<or>
      (unat a * 256 + unat b) * 256 + unat c = 13303921 \<or>
      v4_value a b c d = 4294967295"
    unfolding internal_blocks_def in_block_def list_ex_Cons_iff list_ex_Nil_iff prod.case block_bases
    by (simp only: block_shifts w) simp
  have word: "is_internal_v4 a b c d \<longleftrightarrow>
      unat a = 127 \<or> unat a = 10 \<or> (unat a = 172 \<and> 16 \<le> unat b \<and> unat b \<le> 31) \<or>
      (unat a = 192 \<and> unat b = 168) \<or> (unat a = 169 \<and> unat b = 254) \<or>
      (unat a = 255 \<and> unat b = 255 \<and> unat c = 255 \<and> unat d = 255) \<or>
      (unat a = 192 \<and> unat b = 0 \<and> unat c = 2) \<or> (unat a = 198 \<and> unat b = 51 \<and> unat c = 100) \<or>
      (unat a = 203 \<and> unat b = 0 \<and> unat c = 113) \<or> unat a = 0 \<or>
      (unat a = 100 \<and> unat b div 64 = 1)"
    unfolding is_internal_v4_def v4_is_private_def v4_is_documentation_def and_mask_8
    by (auto simp: word_unat_eq_iff word_le_nat_alt)
  have q: "unat b div 64 < 4" "unat b div 16 < 16" using bnd(2) by simp_all
  note dig = digit_iff [OF bnd(2)] digit_iff [OF bnd(3)] digit_iff [OF bnd(4)]
    digit_iff [OF q(1)] digit_iff [OF q(2)]
  have e1: "v4_value a b c d = 4294967295 \<longleftrightarrow>
      unat a = 255 \<and> unat b = 255 \<and> unat c = 255 \<and> unat d = 255"
    unfolding v4_value_def dig by simp
  have e2: "unat a * 4 + unat b div 64 = 401 \<longleftrightarrow> unat a = 100 \<and> unat b div 64 = 1"
    "unat a * 256 + unat b = 43518 \<longleftrightarrow> unat a = 169 \<and> unat b = 254"
    "unat a * 256 + unat b = 49320 \<longleftrightarrow> unat a = 192 \<and> unat b = 168"
    "(unat a * 256 + unat b) * 256 + unat c = 12582914 \<longleftrightarrow>
      unat a = 192 \<and> unat b = 0 \<and> unat c = 2"
    "(unat a * 256 + unat b) * 256 + unat c = 12989284 \<longleftrightarrow>
      unat a = 198 \<and> unat b = 51 \<and> unat c = 100"
    "(unat a * 256 + unat b) * 256 + unat c = 13303921 \<longleftrightarrow>
      unat a = 203 \<and> unat b = 0 \<and> unat c = 113"
    unfolding dig by simp_all
  have e3: "unat a * 16 + unat b div 16 = 2753 \<longleftrightarrow> unat a = 172 \<and> 16 \<le> unat b \<and> unat b \<le> 31"
  proof -
    have k: "2753 div 16 = (172::nat)" "2753 mod 16 = (1::nat)" by simp_all
    have "n div 16 = 1 \<longleftrightarrow> 16 \<le> n \<and> n \<le> 31" for n :: nat by linarith
    then show ?thesis unfolding dig(5) k by blast
  qed
  show ?thesis unfolding blocks word e1 e2 e3 by argo
qed

section \<open>The check before dialing\<close>

definition MAX_REDIRECTS :: nat where "MAX_REDIRECTS = 5"

text \<open>The loop over the resolved addresses.\<close>

fun check_addrs :: "libs \<Rightarrow> string \<Rightarrow> ip list \<Rightarrow> verify_error + unit" where
  "check_addrs l host [] = Inr ()"
| "check_addrs l host (addr # addrs) =
     (if is_internal addr
      then Inl (SourceFetch (''source host `'' @ host @ ''` resolves to a non-public address ('' @
             lib_show_ip l addr @ ''); refusing (SSRF guard)''))
      else check_addrs l host addrs)"

definition guard_public_url :: "env \<Rightarrow> libs \<Rightarrow> string \<Rightarrow> unit io" where
  "guard_public_url env l raw =
     (case lib_url_parse l raw of
        Inl e \<Rightarrow> fail_with (SourceFetch (''invalid source URL `'' @ raw @ ''`: '' @ e))
      | Inr url \<Rightarrow>
          if url_scheme url \<noteq> ''http'' \<and> url_scheme url \<noteq> ''https''
          then fail_with (SourceFetch (''source URL scheme `'' @ url_scheme url @
                 ''` is not allowed; use https''))
          else case url_host url of
            None \<Rightarrow> fail_with (SourceFetch (''source URL `'' @ raw @ ''` has no host''))
          | Some host \<Rightarrow>
              let port = (case url_port url of Some p \<Rightarrow> p | None \<Rightarrow> 443) in
              andThen (do_resolve env host port) (\<lambda>r.
              case r of
                Inl e \<Rightarrow> fail_with (SourceFetch (''cannot resolve source host `'' @ host @ ''`: '' @ e))
              | Inr addrs \<Rightarrow>
                  andThen (lift_result (check_addrs l host addrs)) (\<lambda>_.
                  if addrs = [] then fail_with (SourceFetch (''source host `'' @ host @
                       ''` did not resolve to any address''))
                  else ret ())))"

section \<open>Following redirects\<close>

definition resolve_redirect :: "libs \<Rightarrow> string \<Rightarrow> string \<Rightarrow> verify_error + string" where
  "resolve_redirect l current location =
     (case lib_url_parse l current of
        Inl e \<Rightarrow> Inl (SourceFetch (''invalid redirect base `'' @ current @ ''`: '' @ e))
      | Inr base \<Rightarrow>
          case lib_url_join l base location of
            Inl e \<Rightarrow> Inl (SourceFetch (''invalid redirect target `'' @ location @ ''`: '' @ e))
          | Inr next \<Rightarrow> Inr (url_text next))"

fun get_hops :: "env \<Rightarrow> libs \<Rightarrow> nat \<Rightarrow> string \<Rightarrow> response io" where
  "get_hops env l 0 current =
     fail_with (SourceFetch (''source URL redirected more than '' @ show_nat MAX_REDIRECTS @
       '' times; refusing''))"
| "get_hops env l (Suc n) current =
     andThen (guard_public_url env l current) (\<lambda>_.
     andThen (do_get env current) (\<lambda>r.
     case r of
       Inl e \<Rightarrow> fail_with (SourceFetch (''GET '' @ current @ '' failed: '' @ e))
     | Inr resp \<Rightarrow>
         if \<not> (300 \<le> rs_status resp \<and> rs_status resp < 400) then ret resp
         else case rs_location resp of
           None \<Rightarrow> fail_with (SourceFetch (''redirect from `'' @ current @ ''` (status '' @
                    show_nat (rs_status resp) @ '') had no Location header''))
         | Some location \<Rightarrow>
             andThen (lift_result (resolve_redirect l current location)) (get_hops env l n)))"

definition get_with_guarded_redirects :: "env \<Rightarrow> libs \<Rightarrow> string \<Rightarrow> response io" where
  "get_with_guarded_redirects env l url = get_hops env l (Suc MAX_REDIRECTS) url"

section \<open>What the guard guarantees\<close>

lemma check_addrs_Inr: "check_addrs l host addrs = Inr u \<longleftrightarrow> (\<forall>a \<in> set addrs. \<not> is_internal a)"
  by (induction addrs) auto

lemma check_addrs_Inl: "check_addrs l host addrs = Inl e \<Longrightarrow> \<exists>a \<in> set addrs. is_internal a"
  by (induction addrs) (auto split: if_splits)

text \<open>
  A name lookup vouches for a URL: it asked for that URL's host, over http or https, it found
  addresses, and none of them is internal.
\<close>

definition vouches :: "libs \<Rightarrow> string \<Rightarrow> event \<Rightarrow> bool" where
  "vouches l u ev = (case ev of
     Resolve host port (Inr addrs) \<Rightarrow>
       (case lib_url_parse l u of Inl _ \<Rightarrow> False
        | Inr url \<Rightarrow> url_host url = Some host \<and> url_scheme url \<in> {''http'', ''https''} \<and>
            addrs \<noteq> [] \<and> list_all (\<lambda>a. \<not> is_internal a) addrs)
   | _ \<Rightarrow> False)"

lemma guard_traces:
  "traces (guard_public_url env l raw) (\<lambda>r evs.
     (evs = [] \<or> (\<exists>host port a. evs = [Resolve host port a])) \<and>
     (\<forall>u. r = Inr u \<longrightarrow> (\<exists>ev. evs = [ev] \<and> vouches l raw ev)))"
proof (rule tracesI)
  fix w
  show "\<exists>evs. history (snd (guard_public_url env l raw w)) = history w @ evs \<and>
     (evs = [] \<or> (\<exists>host port a. evs = [Resolve host port a])) \<and>
     (\<forall>u. fst (guard_public_url env l raw w) = Inr u \<longrightarrow> (\<exists>ev. evs = [ev] \<and> vouches l raw ev))"
    by (auto simp: guard_public_url_def fail_with_def andThen_def do_resolve_def lift_result_def
        ret_def Let_def vouches_def list_all_iff check_addrs_Inr
        split: sum.splits option.splits if_splits)
qed

text \<open>A lookup and the request it vouches for alternate; only a last lookup may go unused.\<close>

fun hops_ok :: "libs \<Rightarrow> event list \<Rightarrow> bool" where
  "hops_ok l [] \<longleftrightarrow> True"
| "hops_ok l [Resolve host port a] \<longleftrightarrow> True"
| "hops_ok l (Resolve host port a # Get u r # evs) \<longleftrightarrow>
     vouches l u (Resolve host port a) \<and> hops_ok l evs"
| "hops_ok l _ \<longleftrightarrow> False"

fun is_get :: "event \<Rightarrow> bool" where
  "is_get (Get u r) = True"
| "is_get _ = False"

definition final_response :: "verify_error + response \<Rightarrow> bool" where
  "final_response r \<longleftrightarrow> (\<forall>x. r = Inr x \<longrightarrow> \<not> (300 \<le> rs_status x \<and> rs_status x < 400))"

lemma vouches_resolve: "vouches l u ev \<Longrightarrow> \<exists>host port a. ev = Resolve host port a"
  by (auto simp: vouches_def split: event.splits)

lemma get_hops_traces:
  "traces (get_hops env l n url) (\<lambda>r evs.
     hops_ok l evs \<and> length (filter is_get evs) \<le> n \<and> final_response r)"
proof (induction n arbitrary: url)
  case 0
  then show ?case by (auto intro!: traces_fail simp: final_response_def)
next
  case (Suc n)
  show ?case
    unfolding get_hops.simps
  proof (rule traces_andThen [OF guard_traces])
    fix e :: verify_error and evs
    assume "(evs = [] \<or> (\<exists>host port a. evs = [Resolve host port a])) \<and>
      (\<forall>u. Inl e = Inr u \<longrightarrow> (\<exists>ev. evs = [ev] \<and> vouches l url ev))"
    then show "hops_ok l evs \<and> length (filter is_get evs) \<le> Suc n \<and> final_response (Inl e)"
      by (auto simp: final_response_def)
  next
    fix x evs
    assume "(evs = [] \<or> (\<exists>host port a. evs = [Resolve host port a])) \<and>
      (\<forall>u. Inr x = Inr u \<longrightarrow> (\<exists>ev. evs = [ev] \<and> vouches l url ev))"
    then obtain ev where evs: "evs = [ev]" and v: "vouches l url ev" by blast
    obtain host port a where ev: "ev = Resolve host port a" using vouches_resolve [OF v] by blast
    let ?Q = "\<lambda>g r evs'. hops_ok l ([ev, Get url g] @ evs') \<and>
      length (filter is_get ([ev, Get url g] @ evs')) \<le> Suc n \<and> final_response r"
    have stop: "?Q g r []" if "final_response r" for g r using v that by (simp add: ev)
    have next_hop: "traces (andThen (lift_result m) (get_hops env l n)) (?Q g)" for m g
    proof (rule traces_andThen [where P = "\<lambda>r evs. evs = []"])
      show "traces (lift_result m) (\<lambda>r evs. evs = [])" by (rule traces_lift) simp
      show "?Q g (Inl e) evs" if "evs = []" for e :: verify_error and evs
        using stop [of "Inl e" g] unfolding that by (simp add: final_response_def)
      show "traces (get_hops env l n x) (\<lambda>r evs'. ?Q g r (evs @ evs'))" if "evs = []" for x evs
        by (rule traces_mono [OF Suc.IH]) (use v that in \<open>auto simp: ev\<close>)
    qed
    show "traces (andThen (do_get env url) (\<lambda>r.
     case r of
       Inl e \<Rightarrow> fail_with (SourceFetch (''GET '' @ url @ '' failed: '' @ e))
     | Inr resp \<Rightarrow>
         if \<not> (300 \<le> rs_status resp \<and> rs_status resp < 400) then ret resp
         else case rs_location resp of
           None \<Rightarrow> fail_with (SourceFetch (''redirect from `'' @ url @ ''` (status '' @
                    show_nat (rs_status resp) @ '') had no Location header''))
         | Some location \<Rightarrow>
             andThen (lift_result (resolve_redirect l url location)) (get_hops env l n)))
      (\<lambda>r evs'. hops_ok l (evs @ evs') \<and> length (filter is_get (evs @ evs')) \<le> Suc n \<and>
         final_response r)"
    proof (rule traces_andThen [OF traces_get [where Q = "\<lambda>r evs. \<exists>g. r = Inr g \<and> evs = [Get url g]"]])
      fix r evs'
      assume "\<exists>g. Inr r = Inr g \<and> evs' = [Get url g]"
      then have evs': "evs' = [Get url r]" by simp
      show "traces (case r of
       Inl e \<Rightarrow> fail_with (SourceFetch (''GET '' @ url @ '' failed: '' @ e))
     | Inr resp \<Rightarrow>
         if \<not> (300 \<le> rs_status resp \<and> rs_status resp < 400) then ret resp
         else case rs_location resp of
           None \<Rightarrow> fail_with (SourceFetch (''redirect from `'' @ url @ ''` (status '' @
                    show_nat (rs_status resp) @ '') had no Location header''))
         | Some location \<Rightarrow>
             andThen (lift_result (resolve_redirect l url location)) (get_hops env l n))
        (\<lambda>r evs''. hops_ok l (evs @ evs' @ evs'') \<and>
           length (filter is_get (evs @ evs' @ evs'')) \<le> Suc n \<and> final_response r)"
        using v next_hop [of _ r] unfolding evs evs' ev
        by (auto intro!: traces_fail traces_ret simp: final_response_def
            split: sum.splits option.splits)
    qed auto
  qed
qed

section \<open>Properties\<close>

text \<open>
  Property C19. The bit tests of \<open>is_internal\<close> are the address blocks they stand for: an IPv4 address
  is internal exactly when it lies in one of the listed CIDR blocks, an IPv6 address exactly when it
  is unspecified or loopback, maps such an IPv4 address, or lies in fc00::/7 or fe80::/10.
\<close>

theorem internal_addresses:
  "(is_internal (V4 a b c d) \<longleftrightarrow> list_ex (in_block (v4_value a b c d)) internal_blocks) \<and>
   (is_internal (V6 s0 s1 s2 s3 s4 s5 s6 s7) \<longleftrightarrow>
     (if [s0, s1, s2, s3, s4, s5] = [0, 0, 0, 0, 0, 0] then s6 = 0 \<and> s7 \<in> {0, 1}
      else if [s0, s1, s2, s3, s4, s5] = [0, 0, 0, 0, 0, 0xffff]
      then list_ex (in_block (v4_value (high_octet s6) (low_octet s6) (high_octet s7) (low_octet s7)))
             internal_blocks
      else unat s0 div 2 ^ 9 = 0xfc00 div 2 ^ 9 \<or> unat s0 div 2 ^ 6 = 0xfe80 div 2 ^ 6))"
  by (auto simp: internal_blocks_iff and_mask_16)

text \<open>
  Property C18. No unchecked hop. Whatever the servers and the resolver answer, the download of an
  archive alternates name lookups and requests, and every request goes to a URL whose host was looked
  up immediately before, over http or https, with only public addresses in the answer; at most six
  requests are made, and a response that is handed on is not a redirect.
\<close>

theorem dialed_urls_guarded:
  "\<exists>evs. history (snd (get_with_guarded_redirects env l url w)) = history w @ evs \<and>
     hops_ok l evs \<and> length (filter is_get evs) \<le> 6 \<and>
     final_response (fst (get_with_guarded_redirects env l url w))"
  using get_hops_traces [of env l "Suc MAX_REDIRECTS" url]
  unfolding traces_def get_with_guarded_redirects_def MAX_REDIRECTS_def by simp

text \<open>
  When the guard lets a URL through: exactly when it parses, is http or https, names a
  host, and the resolver finds at least one address for it and no internal one.
\<close>

theorem guard_accepts_iff:
  "is_ok (fst (guard_public_url env l raw w)) \<longleftrightarrow>
     (\<exists>url host addrs. lib_url_parse l raw = Inr url \<and> url_scheme url \<in> {''http'', ''https''} \<and>
        url_host url = Some host \<and>
        env_resolve env (history w) host (case url_port url of Some p \<Rightarrow> p | None \<Rightarrow> 443) = Inr addrs \<and>
        addrs \<noteq> [] \<and> list_all (\<lambda>a. \<not> is_internal a) addrs)"
  by (auto simp: list_all_iff guard_public_url_def fail_with_def andThen_def do_resolve_def lift_result_def ret_def
      Let_def is_ok_iff check_addrs_Inr dest: check_addrs_Inl
      split: sum.splits option.splits if_splits)

section \<open>Corner cases\<close>

text \<open>
  Addresses that lead to the internal network without being flagged: the NAT64 form of
  169.254.169.254 and the IPv4-compatible form of 127.0.0.1; multicast passes too.
\<close>

lemma nat64_not_flagged:
  "\<not> is_internal (V6 0x64 0xff9b 0 0 0 0 0xa9fe 0xa9fe)"
  "\<not> is_internal (V6 0 0 0 0 0 0 0x7f00 1)"
  "\<not> is_internal (V4 224 0 0 1)"
  by (simp_all add: is_internal_v4_def v4_is_private_def v4_is_documentation_def)

end
