(* ===== verification/Staging.thy ===== *)
theory Staging
  imports NetGuard
begin

text \<open>
  Obtaining the source tree, \<open>crates/verifier-core/src/source.rs\<close>: the git and the archive route,
  the integrity check, the single top-level directory, and the rewriting of the tar into the shape
  that is staged in the container.
\<close>

section \<open>Data\<close>

datatype source_ref =
    Git string string
  | Archive string string

record source_archive =
  sa_tar :: bytes
  sa_sha256 :: string

definition STAGED_TOP_DIR :: string where "STAGED_TOP_DIR = ''source''"
definition BUILDER_UID :: nat where "BUILDER_UID = 1000"
definition MAX_ARCHIVE_BYTES :: nat where "MAX_ARCHIVE_BYTES = 256 * 1024 * 1024"

section \<open>Paths\<close>

text \<open>\<open>Path::components\<close> on Unix: empty pieces and dots vanish, except a leading dot.\<close>

datatype component = Root_Dir | Cur_Dir | Parent_Dir | Normal bytes

fun component_of :: "bytes \<Rightarrow> component option" where
  "component_of p =
     (if p = [] \<or> p = ''.'' then None else if p = ''..'' then Some Parent_Dir else Some (Normal p))"

definition components :: "bytes \<Rightarrow> component list" where
  "components p =
     (case split_on (CHR ''/'') p of
        [] \<Rightarrow> []
      | first # pieces \<Rightarrow>
          (if first = [] then (if pieces = [] then [] else [Root_Dir])
           else if first = ''.'' then [Cur_Dir]
           else List.map_filter component_of [first]) @
          List.map_filter component_of pieces)"

fun component_text :: "component \<Rightarrow> bytes" where
  "component_text Root_Dir = ''/''"
| "component_text Cur_Dir = ''.''"
| "component_text Parent_Dir = ''..''"
| "component_text (Normal s) = s"

definition is_unsafe :: "component \<Rightarrow> bool" where
  "is_unsafe c \<longleftrightarrow> c = Parent_Dir \<or> c = Root_Dir"

definition is_pax_meta :: "tar_entry \<Rightarrow> bool" where
  "is_pax_meta e \<longleftrightarrow> te_type e = Pax_Global \<or> te_type e = Pax_Local"

definition is_gzip :: "bytes \<Rightarrow> bool" where
  "is_gzip b \<longleftrightarrow> prefix [chr 0x1f, chr 0x8b] b"

section \<open>The top-level directory\<close>

fun top_dirs :: "(string + tar_entry) list \<Rightarrow> string list \<Rightarrow> verify_error + string list" where
  "top_dirs [] tops = Inr tops"
| "top_dirs (Inl e # es) tops = Inl (SourceFetch (''bad tar entry: '' @ e))"
| "top_dirs (Inr entry # es) tops =
     (if is_pax_meta entry then top_dirs es tops
      else let cs = components (te_path entry) in
        if list_ex is_unsafe cs
        then Inl (SourceFetch (''source archive contains an unsafe path: '' @ utf8_lossy (te_path entry)))
        else top_dirs es (case cs of [] \<Rightarrow> tops
                            | c # _ \<Rightarrow> List.insert (utf8_lossy (component_text c)) tops))"

definition single_top_dir :: "libs \<Rightarrow> bytes \<Rightarrow> verify_error + string" where
  "single_top_dir l tar =
     (case lib_untar l tar of
        Inl e \<Rightarrow> Inl (SourceFetch (''source archive is not a valid tar: '' @ e))
      | Inr entries \<Rightarrow>
          rbind (top_dirs entries []) (\<lambda>tops.
          if length tops \<noteq> 1 then Inl (SourceLayout (length tops)) else Inr (hd tops)))"

section \<open>Rewriting the archive\<close>

definition entry_name :: "bytes \<Rightarrow> verify_error + string" where
  "entry_name raw =
     (if utf8_valid raw then Inr raw
      else Inl (SourceFetch ''source archive has a non-UTF-8 entry name''))"

definition restage_path :: "bytes \<Rightarrow> verify_error + string" where
  "restage_path raw =
     (case dropWhile (\<lambda>b. b \<noteq> CHR ''/'') raw of
        [] \<Rightarrow> Inr STAGED_TOP_DIR
      | rest \<Rightarrow> rbind (entry_name rest) (\<lambda>r. Inr (STAGED_TOP_DIR @ r)))"

text \<open>A link is written without a body, under the size of what was read.\<close>

definition stage_entry :: "libs \<Rightarrow> tar_entry \<Rightarrow> verify_error + staged_entry" where
  "stage_entry l entry =
     (let mode = (case te_mode entry of Some m \<Rightarrow> m
                  | None \<Rightarrow> if te_type entry = Directory then 493 else 420);
          mtime = (case te_mtime entry of Some t \<Rightarrow> t | None \<Rightarrow> 0) in
      rbind (restage_path (te_path entry)) (\<lambda>path.
      rbind (map_err Io (te_data entry)) (\<lambda>data.
      let header = \<lparr>se_type = te_type entry, se_path = path, se_link = None, se_mode = mode,
            se_mtime = mtime, se_uid = BUILDER_UID, se_gid = BUILDER_UID, se_size = length data, se_data = data\<rparr> in
      case te_link entry of
        Some link \<Rightarrow>
          rbind (if te_type entry = Link then restage_path link else entry_name link) (\<lambda>target.
          let out = header\<lparr>se_link := Some target, se_data := []\<rparr> in
          case lib_tar_append l out of
            Some e \<Rightarrow> Inl (SourceFetch (''rewriting tar link: '' @ e))
          | None \<Rightarrow> Inr out)
      | None \<Rightarrow>
          (case lib_tar_append l header of
             Some e \<Rightarrow> Inl (SourceFetch (''rewriting tar entry: '' @ e))
           | None \<Rightarrow> Inr header))))"

fun stage_entries ::
  "libs \<Rightarrow> (string + tar_entry) list \<Rightarrow> staged_entry list \<Rightarrow> verify_error + staged_entry list" where
  "stage_entries l [] out = Inr out"
| "stage_entries l (Inl e # es) out = Inl (SourceFetch (''bad tar entry: '' @ e))"
| "stage_entries l (Inr entry # es) out =
     (if is_pax_meta entry then stage_entries l es out
      else rbind (stage_entry l entry) (\<lambda>s. stage_entries l es (out @ [s])))"

definition normalize_for_staging :: "libs \<Rightarrow> bytes \<Rightarrow> verify_error + bytes" where
  "normalize_for_staging l tar =
     (case lib_untar l tar of
        Inl e \<Rightarrow> Inl (SourceFetch (''source archive is not a valid tar: '' @ e))
      | Inr entries \<Rightarrow>
          rbind (stage_entries l entries []) (\<lambda>out.
          map_err (\<lambda>e. SourceFetch (''finishing rewritten tar: '' @ e)) (lib_tar_finish l out)))"

section \<open>Fetching\<close>

definition gunzip_spawn :: "bytes \<Rightarrow> spawn" where
  "gunzip_spawn b = \<lparr>sp_program = ''gzip'', sp_args = [''-dc''], sp_stdin = Some b, sp_limit = None\<rparr>"

definition gunzip :: "env \<Rightarrow> bytes \<Rightarrow> bytes io" where
  "gunzip env b =
     andThen (do_process env (gunzip_spawn b)) (\<lambda>r.
     lift_result (case r of
        Not_Started e \<Rightarrow> Inl (SourceFetch (''could not run gzip: '' @ e))
      | Write_Failed e \<Rightarrow> Inl (Io e)
      | Wait_Failed e \<Rightarrow> Inl (SourceFetch (''gzip failed: '' @ e))
      | Out_Of_Time \<Rightarrow> Inl (SourceFetch ''gzip failed: timed out'')
      | Exited code out err \<Rightarrow>
          if code = Some 0 then Inr out
          else Inl (SourceFetch (''gunzip of source archive failed: '' @ trim (utf8_lossy err)))))"

text \<open>The digest is checked before anything decompresses or unpacks the bytes.\<close>

definition check_and_stage :: "env \<Rightarrow> libs \<Rightarrow> string \<Rightarrow> bytes \<Rightarrow> source_archive io" where
  "check_and_stage env l expected_sha256 data =
     (let actual = sha256_hex l data in
      if \<not> eq_ignore_ascii_case actual expected_sha256
      then fail_with (SourceIntegrity (lib_lowercase l expected_sha256) actual)
      else
        andThen (if is_gzip data then gunzip env data else ret data) (\<lambda>tar.
        andThen (lift_result (single_top_dir l tar)) (\<lambda>_.
        andThen (lift_result (normalize_for_staging l tar)) (\<lambda>out.
        ret \<lparr>sa_tar = out, sa_sha256 = actual\<rparr>))))"

definition fetch_archive :: "env \<Rightarrow> libs \<Rightarrow> string \<Rightarrow> string \<Rightarrow> source_archive io" where
  "fetch_archive env l uri expected_sha256 =
     andThen (get_with_guarded_redirects env l uri) (\<lambda>resp.
     case rs_body resp of
       Inl e \<Rightarrow> fail_with (SourceFetch (''reading '' @ uri @ '': '' @ e))
     | Inr body \<Rightarrow>
         let data = take (MAX_ARCHIVE_BYTES + 1) body in
         if MAX_ARCHIVE_BYTES < length data
         then fail_with (SourceFetch (''source archive exceeds the '' @ show_nat MAX_ARCHIVE_BYTES @
                '' byte limit''))
         else check_and_stage env l expected_sha256 data)"

definition git_clone_spawn :: "string \<Rightarrow> string \<Rightarrow> spawn" where
  "git_clone_spawn repo tmp =
     \<lparr>sp_program = ''git'', sp_args = [''-c'', ''http.followRedirects=false'', ''clone'', ''--quiet'',
        ''--no-checkout'', repo, tmp], sp_stdin = None, sp_limit = None\<rparr>"

definition git_archive_spawn :: "string \<Rightarrow> string \<Rightarrow> spawn" where
  "git_archive_spawn tmp commit =
     \<lparr>sp_program = ''git'', sp_args = [''-C'', tmp, ''archive'', ''--format=tar'',
        ''--prefix=source/'', commit], sp_stdin = None, sp_limit = None\<rparr>"

definition git_output :: "string \<Rightarrow> string \<Rightarrow> proc_end \<Rightarrow> verify_error + bytes" where
  "git_output not_run failed r =
     (case r of
        Exited code out err \<Rightarrow>
          if code = Some 0 then Inr out else Inl (SourceFetch (failed @ trim (utf8_lossy err)))
      | Not_Started e \<Rightarrow> Inl (SourceFetch (not_run @ e))
      | Write_Failed e \<Rightarrow> Inl (SourceFetch (not_run @ e))
      | Wait_Failed e \<Rightarrow> Inl (SourceFetch (not_run @ e))
      | Out_Of_Time \<Rightarrow> Inl (SourceFetch (not_run @ ''timed out'')))"

text \<open>The scratch directory is removed before it is used and again when its guard is dropped.\<close>

definition clone_and_export :: "env \<Rightarrow> string \<Rightarrow> string \<Rightarrow> string \<Rightarrow> bytes io" where
  "clone_and_export env repo commit tmp =
     andThen (try_io (do_file env (Remove_Dir tmp))) (\<lambda>_.
     andThen (do_file env (Create_Dir tmp)) (\<lambda>_.
     with_drop
       (andThen (do_process env (git_clone_spawn repo tmp)) (\<lambda>clone.
        andThen (lift_result (git_output ''could not run git: ''
            (''git clone of `'' @ repo @ ''` failed: '') clone)) (\<lambda>_.
        andThen (do_process env (git_archive_spawn tmp commit)) (\<lambda>archive.
        lift_result (git_output ''could not run git archive: ''
            (''git archive of rev `'' @ commit @ ''` failed: '') archive)))))
       (do_file env (Remove_Dir tmp))))"

definition is_http :: "string \<Rightarrow> bool" where
  "is_http repo \<longleftrightarrow> starts_with repo ''http://'' \<or> starts_with repo ''https://''"

definition fetch_git :: "env \<Rightarrow> libs \<Rightarrow> string \<Rightarrow> string \<Rightarrow> source_archive io" where
  "fetch_git env l repo commit =
     andThen (if is_http repo then guard_public_url env l repo else ret ()) (\<lambda>_.
     andThen (unique_token env) (\<lambda>token.
     andThen (clone_and_export env repo commit (env_temp_dir env @ ''/verify-src-'' @ token)) (\<lambda>out.
     let sha = sha256_hex l out in
     andThen (lift_result (normalize_for_staging l out)) (\<lambda>tar.
     ret \<lparr>sa_tar = tar, sa_sha256 = sha\<rparr>))))"

fun fetch :: "env \<Rightarrow> libs \<Rightarrow> source_ref \<Rightarrow> source_archive io" where
  "fetch env l (Git repo commit) = fetch_git env l repo commit"
| "fetch env l (Archive uri source_sha256) = fetch_archive env l uri source_sha256"

section \<open>Staged paths\<close>

text \<open>The components after the first separator.\<close>

definition below :: "bytes \<Rightarrow> component list" where
  "below p = (case dropWhile (\<lambda>c. c \<noteq> CHR ''/'') p of [] \<Rightarrow> []
     | _ # r \<Rightarrow> List.map_filter component_of (split_on (CHR ''/'') r))"

lemma components_below:
  "components p =
     (let first = takeWhile (\<lambda>c. c \<noteq> CHR ''/'') p in
      (if first = [] then (if p = [] then [] else [Root_Dir])
       else if first = ''.'' then [Cur_Dir]
       else List.map_filter component_of [first]) @ below p)"
proof (cases "dropWhile (\<lambda>c. c \<noteq> CHR ''/'') p")
  case Nil
  then have tk: "takeWhile (\<lambda>c. c \<noteq> CHR ''/'') p = p"
    by (simp add: dropWhile_eq_Nil_conv takeWhile_eq_all_conv)
  show ?thesis
    unfolding components_def split_on_break [of _ p] below_def Nil tk
    by (simp add: List.map_filter_simps Let_def)
next
  case (Cons c r)
  have "split_on (CHR ''/'') r \<noteq> []" by (subst split_on_break) simp
  moreover have "p \<noteq> []" using Cons by auto
  ultimately show ?thesis
    unfolding components_def split_on_break [of _ p] below_def Cons by (simp add: Let_def)
qed

lemma restage_path_text:
  assumes "restage_path raw = Inr p"
  shows "p = STAGED_TOP_DIR @ dropWhile (\<lambda>c. c \<noteq> CHR ''/'') raw"
  using assms
  by (auto simp: restage_path_def entry_name_def rbind_simps split: list.splits if_splits)

lemma break_append:
  assumes "d = [] \<or> (\<exists>r. d = c # r)" and "c \<notin> set s"
  shows "takeWhile (\<lambda>x. x \<noteq> c) (s @ d) = s" and "dropWhile (\<lambda>x. x \<noteq> c) (s @ d) = d"
  using assms by (induction s) auto

lemma restage_path_components:
  assumes "restage_path raw = Inr p"
  shows "components p = Normal ''source'' # below raw"
proof -
  let ?d = "dropWhile (\<lambda>c. c \<noteq> CHR ''/'') raw"
  have "?d = [] \<or> (\<exists>r. ?d = CHR ''/'' # r)"
    using hd_dropWhile [of "\<lambda>c. c \<noteq> CHR ''/''" raw] by (cases ?d) auto
  moreover have "CHR ''/'' \<notin> set ''source''" by simp
  moreover have "p = ''source'' @ ?d" using restage_path_text [OF assms] by (simp add: STAGED_TOP_DIR_def)
  ultimately have t: "takeWhile (\<lambda>c. c \<noteq> CHR ''/'') p = ''source''"
    "dropWhile (\<lambda>c. c \<noteq> CHR ''/'') p = ?d"
    using break_append by metis+
  have "below p = below raw" by (simp add: below_def t)
  then show ?thesis
    by (simp add: components_below [of p] t List.map_filter_simps Let_def)
qed

lemma top_dirs_grow:
  assumes "top_dirs es tops = Inr tops'"
  shows "set tops \<subseteq> set tops'"
  using assms by (induction es tops rule: top_dirs.induct) (auto simp: Let_def split: if_splits list.splits)

text \<open>Every entry has been checked: no component climbs, and its first one is among the directories found.\<close>

lemma top_dirs_checked:
  assumes "top_dirs es tops = Inr tops'" and "Inr e \<in> set es" and "\<not> is_pax_meta e"
  shows "\<not> list_ex is_unsafe (components (te_path e)) \<and>
    (\<forall>c cs. components (te_path e) = c # cs \<longrightarrow> utf8_lossy (component_text c) \<in> set tops')"
  using assms
proof (induction es tops rule: top_dirs.induct)
  case (3 entry es tops)
  show ?case
  proof (cases "is_pax_meta entry")
    case True
    with 3 show ?thesis by auto
  next
    case False
    let ?tops = "case components (te_path entry) of [] \<Rightarrow> tops
      | c # _ \<Rightarrow> List.insert (utf8_lossy (component_text c)) tops"
    from False "3.prems"(1) have safe: "\<not> list_ex is_unsafe (components (te_path entry))"
      and rest: "top_dirs es ?tops = Inr tops'" by (auto simp: Let_def split: if_splits)
    show ?thesis
    proof (cases "entry = e")
      case True
      have "set ?tops \<subseteq> set tops'" by (rule top_dirs_grow [OF rest])
      with safe True show ?thesis by auto
    next
      case other: False
      with "3.prems" have "Inr e \<in> set es" by auto
      from "3.IH"(2) [OF False HOL.refl safe rest this "3.prems"(3)] show ?thesis .
    qed
  qed
qed simp_all

lemma below_safe: "\<not> list_ex is_unsafe (components p) \<Longrightarrow> \<not> list_ex is_unsafe (below p)"
  unfolding components_below [of p] by (auto simp: Let_def split: if_splits)

text \<open>Past a first component that does not climb lies what is below the first separator.\<close>

lemma components_tl:
  assumes "components p = c # cs" and "\<not> list_ex is_unsafe (components p)"
  shows "cs = below p"
  using assms unfolding components_below [of p]
  by (auto simp: Let_def is_unsafe_def List.map_filter_simps below_def split: if_splits option.splits)

text \<open>
  How a staged entry comes from an entry of the archive: everything below the first component kept, the
  owner replaced. And where it lies: at the same place below the staging directory as the entry did
  below \<open>root\<close>, with no component that leaves it.
\<close>

definition staged_as :: "tar_entry \<Rightarrow> staged_entry \<Rightarrow> bool" where
  "staged_as e s \<longleftrightarrow>
     se_path s = ''source'' @ dropWhile (\<lambda>c. c \<noteq> CHR ''/'') (te_path e) \<and>
     se_uid s = BUILDER_UID \<and> se_gid s = BUILDER_UID \<and> se_type s = te_type e \<and>
     se_mode s = (case te_mode e of Some m \<Rightarrow> m | None \<Rightarrow> if te_type e = Directory then 493 else 420) \<and>
     se_mtime s = (case te_mtime e of Some t \<Rightarrow> t | None \<Rightarrow> 0) \<and>
     (\<exists>data. te_data e = Inr data \<and> se_size s = length data \<and>
       (case te_link e of
          None \<Rightarrow> se_data s = data \<and> se_link s = None
        | Some lk \<Rightarrow> se_data s = [] \<and> se_link s = Some
            (if te_type e = Link then ''source'' @ dropWhile (\<lambda>c. c \<noteq> CHR ''/'') lk else lk)))"

definition confined_as :: "string \<Rightarrow> tar_entry \<Rightarrow> staged_entry \<Rightarrow> bool" where
  "confined_as root e s \<longleftrightarrow> (\<exists>rest. components (se_path s) = Normal ''source'' # rest \<and>
     Parent_Dir \<notin> set rest \<and> Root_Dir \<notin> set rest \<and>
     (\<forall>c cs. components (te_path e) = c # cs \<longrightarrow> utf8_lossy (component_text c) = root \<and> cs = rest))"

lemma stage_entry_path: "stage_entry l e = Inr s \<Longrightarrow> restage_path (te_path e) = Inr (se_path s)"
  by (auto simp: stage_entry_def Let_def rbind_eq_Inr map_err_eq_Inr split: option.splits if_splits)

lemma stage_entry_Inr:
  assumes "stage_entry l e = Inr s"
  shows "staged_as e s"
proof -
  obtain path data where p: "restage_path (te_path e) = Inr path" and d: "te_data e = Inr data"
    using assms by (auto simp: stage_entry_def Let_def rbind_eq_Inr map_err_eq_Inr)
  note path = restage_path_text [OF p, unfolded STAGED_TOP_DIR_def]
  show ?thesis
  proof (cases "te_link e")
    case None
    with assms p d path show ?thesis by (auto simp: stage_entry_def staged_as_def Let_def split: option.splits)
  next
    case (Some lk)
    show ?thesis
    proof (cases "te_type e = Link")
      case True
      with assms p d Some obtain target where t: "restage_path lk = Inr target"
        by (auto simp: stage_entry_def Let_def rbind_eq_Inr)
      note target = restage_path_text [OF t, unfolded STAGED_TOP_DIR_def]
      from assms True p d Some path target t show ?thesis
        by (auto simp: stage_entry_def staged_as_def Let_def split: option.splits)
    next
      case False
      with assms p d Some path show ?thesis
        by (auto simp: stage_entry_def staged_as_def Let_def rbind_eq_Inr entry_name_def
            split: option.splits if_splits)
    qed
  qed
qed

lemma stage_entries_Inr:
  assumes "stage_entries l es out = Inr out'"
  shows "\<exists>staged ts. out' = out @ staged \<and> es = map Inr ts \<and>
    list_all2 (\<lambda>e s. stage_entry l e = Inr s) (filter (\<lambda>e. \<not> is_pax_meta e) ts) staged"
  using assms
proof (induction l es out rule: stage_entries.induct)
  case (3 l entry es out)
  show ?case
  proof (cases "is_pax_meta entry")
    case True
    with 3 obtain staged ts where "out' = out @ staged" "es = map Inr ts"
      "list_all2 (\<lambda>e s. stage_entry l e = Inr s) (filter (\<lambda>e. \<not> is_pax_meta e) ts) staged" by auto
    with True show ?thesis by (intro exI [of _ staged] exI [of _ "entry # ts"]) simp
  next
    case False
    with "3.prems" obtain s where s: "stage_entry l entry = Inr s"
      and rest: "stage_entries l es (out @ [s]) = Inr out'"
      by (auto simp: rbind_simps)
    from "3.IH"(2) [OF False rest] obtain staged ts where "out' = (out @ [s]) @ staged" "es = map Inr ts"
      "list_all2 (\<lambda>e s. stage_entry l e = Inr s) (filter (\<lambda>e. \<not> is_pax_meta e) ts) staged" by blast
    with s False show ?thesis by (intro exI [of _ "s # staged"] exI [of _ "entry # ts"]) simp
  qed
qed simp_all

text \<open>What the normalisation stages, with no check before it.\<close>

lemma normalize_stages:
  assumes "normalize_for_staging l tar = Inr out_tar"
  shows "\<exists>es out. lib_untar l tar = Inr (map Inr es) \<and> lib_tar_finish l out = Inr out_tar \<and>
    list_all2 (\<lambda>e s. stage_entry l e = Inr s) (filter (\<lambda>e. \<not> is_pax_meta e) es) out"
proof -
  from assms obtain entries out where e: "lib_untar l tar = Inr entries"
    and o: "stage_entries l entries [] = Inr out" and f: "lib_tar_finish l out = Inr out_tar"
    by (auto simp: normalize_for_staging_def rbind_eq_Inr map_err_eq_Inr split: sum.splits)
  from stage_entries_Inr [OF o] e f show ?thesis by auto
qed

lemma single_top_dir_confines:
  assumes "single_top_dir l tar = Inr root" and "lib_untar l tar = Inr (map Inr es)"
    and "e \<in> set es" and "\<not> is_pax_meta e" and "stage_entry l e = Inr s"
  shows "confined_as root e s"
proof -
  from assms(1,2) obtain tops where t: "top_dirs (map Inr es) [] = Inr tops" "length tops = 1" "hd tops = root"
    by (auto simp: single_top_dir_def rbind_eq_Inr split: if_splits)
  then have tops: "set tops = {root}" by (cases tops) auto
  have "Inr e \<in> set (map Inr es)" using assms(3) by simp
  note checked = top_dirs_checked [OF t(1) this assms(4), unfolded tops]
  then have safe: "\<not> list_ex is_unsafe (components (te_path e))" by blast
  have "components (se_path s) = Normal ''source'' # below (te_path e)"
    by (rule restage_path_components [OF stage_entry_path [OF assms(5)]])
  with below_safe [OF safe] checked components_tl [OF _ safe] show ?thesis
    by (fastforce simp: confined_as_def is_unsafe_def list_ex_iff)
qed

section \<open>A concrete environment\<close>

text \<open>
  Libraries and a machine to try the definitions on: an archive is written as its list of names
  separated by commas, a digest is the text itself, every URL is https and names the host h.
\<close>

definition demo_libs :: libs where
  "demo_libs = \<lparr>lib_sha256 = (\<lambda>b. b), lib_hex = (\<lambda>b. b), 
     lib_unhex = (\<lambda>s. Inr (take 32 (s @ replicate 32 CHR ''0''))),
     lib_untar = (\<lambda>b. Inr (map (\<lambda>n. Inr \<lparr>te_type = Regular, te_path = n, te_link = None,
        te_mode = None, te_mtime = None, te_data = Inr n\<rparr>) (split_on (CHR '','') b))),
     lib_tar_append = (\<lambda>_. None), lib_tar_finish = (\<lambda>es. Inr (join '','' (map se_path es))),
     lib_json_strings = (\<lambda>b. Inr [b]),
     lib_url_parse = (\<lambda>u. Inr \<lparr>url_scheme = ''https'', url_host = Some ''h'', url_port = None, url_text = u\<rparr>),
     lib_url_join = (\<lambda>_ u. Inr \<lparr>url_scheme = ''https'', url_host = Some ''h'', url_port = None, url_text = u\<rparr>),
     lib_show_ip = (\<lambda>_. ''ip''), lib_lowercase = ascii_lower\<rparr>"

definition demo_env :: "bytes \<Rightarrow> env" where
  "demo_env body = \<lparr>env_process = (\<lambda>_ _. Exited (Some 0) ''x'' []),
     env_get = (\<lambda>_ _. Inr \<lparr>rs_status = 200, rs_location = None, rs_body = Inr body\<rparr>),
     env_resolve = (\<lambda>_ _ _. Inr [V4 140 82 121 3]), env_file = (\<lambda>_ _. None),
     env_clock = (\<lambda>evs. length evs), env_pid = 1, env_temp_dir = ''/tmp'',
     env_var = (\<lambda>_. None), env_windows = False\<rparr>"

definition demo_start :: world where
  "demo_start = \<lparr>history = [], tokens = 0\<rparr>"

lemma demo_download:
  "\<exists>w1. get_with_guarded_redirects (demo_env body) demo_libs u demo_start =
     (Inr \<lparr>rs_status = 200, rs_location = None, rs_body = Inr body\<rparr>, w1)"
  by (simp add: get_with_guarded_redirects_def guard_public_url_def demo_env_def demo_libs_def
      andThen_def ret_def lift_result_def do_get_def do_resolve_def is_internal_v4_def
      v4_is_private_def v4_is_documentation_def Let_def)

lemma demo_stage:
  "fst (check_and_stage env demo_libs ''T/A,t/b/c'' ''t/a,t/b/c'' w) =
     Inr \<lparr>sa_tar = ''source/a,source/b/c'', sa_sha256 = ''t/a,t/b/c''\<rparr>"
proof -
  have "\<not> is_gzip ''t/a,t/b/c''" by code_simp
  moreover have "eq_ignore_ascii_case (sha256_hex demo_libs ''t/a,t/b/c'') ''T/A,t/b/c''" by code_simp
  moreover have "single_top_dir demo_libs ''t/a,t/b/c'' = Inr ''t''" by code_simp
  moreover have "normalize_for_staging demo_libs ''t/a,t/b/c'' = Inr ''source/a,source/b/c''" by code_simp
  moreover have "sha256_hex demo_libs b = b" for b by (simp add: sha256_hex_def demo_libs_def)
  ultimately show ?thesis
    by (simp add: check_and_stage_def Let_def andThen_def ret_def lift_result_def)
qed

section \<open>Properties\<close>

lemma andThen_Inr:
  "andThen m f w = (Inr y, w') \<longleftrightarrow> (\<exists>x w1. m w = (Inr x, w1) \<and> f x w1 = (Inr y, w'))"
  by (auto simp: andThen_def split: prod.splits sum.splits)

lemma lift_result_Inr: "lift_result m w = (Inr y, w') \<longleftrightarrow> m = Inr y \<and> w' = w"
  by (auto simp: lift_result_def)

lemma ret_eq: "ret x w = (Inr y, w') \<longleftrightarrow> y = x \<and> w' = w"
  by (auto simp: ret_def)

lemma fail_with_Inr [simp]: "fail_with e w \<noteq> (Inr y, w')"
  by (simp add: fail_with_def)

lemmas io_simps = andThen_Inr lift_result_Inr ret_eq

text \<open>What the archive route makes of a download.\<close>

definition archive_body :: "env \<Rightarrow> libs \<Rightarrow> string \<Rightarrow> string \<Rightarrow> response \<Rightarrow> source_archive io" where
  "archive_body env l uri declared resp = (case rs_body resp of
     Inl e \<Rightarrow> fail_with (SourceFetch (''reading '' @ uri @ '': '' @ e))
   | Inr body \<Rightarrow>
       if MAX_ARCHIVE_BYTES < length body
       then fail_with (SourceFetch (''source archive exceeds the '' @ show_nat MAX_ARCHIVE_BYTES @ '' byte limit''))
       else check_and_stage env l declared body)"

lemma fetch_archive_body:
  "fetch_archive env l uri declared = andThen (get_with_guarded_redirects env l uri) (archive_body env l uri declared)"
  by (auto simp: fetch_archive_def archive_body_def Let_def intro!: arg_cong2 [where f = andThen] split: sum.splits)

lemma fetch_archive_Inr:
  assumes "fetch_archive env l uri declared w = (Inr sa, w')"
  shows "\<exists>data w1. length data \<le> MAX_ARCHIVE_BYTES \<and> check_and_stage env l declared data w1 = (Inr sa, w')"
proof -
  from assms obtain resp w1 where run: "archive_body env l uri declared resp w1 = (Inr sa, w')"
    by (auto simp: fetch_archive_body andThen_Inr)
  then show ?thesis
    by (cases "rs_body resp") (auto simp: archive_body_def not_less split: if_splits)
qed

lemma gunzip_Inr:
  assumes "gunzip env data w = (Inr tar, w')"
  shows "\<exists>err. Process (gunzip_spawn data) (Exited (Some 0) tar err) \<in> set (history w')"
  using assms
  by (auto simp: gunzip_def io_simps do_process_def Let_def split: proc_end.splits if_splits)

text \<open>
  Property C20. What a fetch stages. The entries of the tree (pax headers apart) come out one for one and
  in order, at their own path below their first component, with their type, mode, time and data kept, a
  symbolic link's target verbatim, a hard link's moved with the tree, and the owner replaced. The tree is
  the export whose digest is recorded, on the git route; on the archive route the download, within the size limit and with
  the declared digest, or what gzip made of it. In a download every entry has the same first component,
  and every staged path is that of the entry below the directory source, with no parent or root
  component that would leave it.
\<close>

theorem staging_keeps_contents:
  assumes "fetch env l src w = (Inr sa, w')"
  shows "\<exists>tar es out. lib_untar l tar = Inr (map Inr es) \<and> lib_tar_finish l out = Inr (sa_tar sa) \<and>
     list_all2 staged_as (filter (\<lambda>e. \<not> is_pax_meta e) es) out \<and>
     (case src of
        Git _ _ \<Rightarrow> sa_sha256 sa = sha256_hex l tar
      | Archive uri declared \<Rightarrow> \<exists>data root. length data \<le> MAX_ARCHIVE_BYTES \<and>
          sa_sha256 sa = sha256_hex l data \<and> eq_ignore_ascii_case (sa_sha256 sa) declared \<and>
          (if is_gzip data then \<exists>err. Process (gunzip_spawn data) (Exited (Some 0) tar err) \<in> set (history w')
           else tar = data) \<and>
          list_all2 (confined_as root) (filter (\<lambda>e. \<not> is_pax_meta e) es) out)"
proof (cases src)
  case (Git repo commit)
  with assms obtain tar where norm: "normalize_for_staging l tar = Inr (sa_tar sa)"
    and sa: "sa_sha256 sa = sha256_hex l tar"
    by (auto simp: fetch_git_def io_simps Let_def)
  from normalize_stages [OF norm] obtain es out where "lib_untar l tar = Inr (map Inr es)"
    "lib_tar_finish l out = Inr (sa_tar sa)"
    "list_all2 (\<lambda>e s. stage_entry l e = Inr s) (filter (\<lambda>e. \<not> is_pax_meta e) es) out" by blast
  moreover from this(3) have "list_all2 staged_as (filter (\<lambda>e. \<not> is_pax_meta e) es) out"
    by (rule list_all2_mono) (rule stage_entry_Inr)
  ultimately show ?thesis using sa unfolding Git source_ref.case by blast
next
  case (Archive uri declared)
  obtain data w1 where len: "length data \<le> MAX_ARCHIVE_BYTES"
    and rest: "check_and_stage env l declared data w1 = (Inr sa, w')"
    using fetch_archive_Inr assms unfolding Archive fetch.simps by blast
  then have sha: "eq_ignore_ascii_case (sha256_hex l data) declared"
    by (auto simp: check_and_stage_def Let_def split: if_splits)
  with rest obtain tar root where tar: "(if is_gzip data then gunzip env data else ret data) w1 = (Inr tar, w')"
    and top: "single_top_dir l tar = Inr root" and norm: "normalize_for_staging l tar = Inr (sa_tar sa)"
    and sa: "sa_sha256 sa = sha256_hex l data"
    by (auto simp: check_and_stage_def Let_def io_simps)
  from normalize_stages [OF norm] obtain es out where u: "lib_untar l tar = Inr (map Inr es)"
    and f: "lib_tar_finish l out = Inr (sa_tar sa)"
    and rel: "list_all2 (\<lambda>e s. stage_entry l e = Inr s) (filter (\<lambda>e. \<not> is_pax_meta e) es) out" by blast
  have "list_all2 staged_as (filter (\<lambda>e. \<not> is_pax_meta e) es) out"
    using rel by (rule list_all2_mono) (rule stage_entry_Inr)
  moreover have "list_all2 (confined_as root) (filter (\<lambda>e. \<not> is_pax_meta e) es) out"
    using rel by (rule list.rel_mono_strong) (auto intro: single_top_dir_confines [OF top u])
  moreover have "if is_gzip data then \<exists>err. Process (gunzip_spawn data) (Exited (Some 0) tar err) \<in> set (history w')
      else tar = data" using tar by (auto simp: ret_eq dest: gunzip_Inr)
  moreover have "eq_ignore_ascii_case (sa_sha256 sa) declared" using sha sa by simp
  ultimately show ?thesis using len sa u f unfolding Archive source_ref.case by blast
qed

lemma demo_fetched:
  "\<exists>w'. fetch (demo_env ''t/a,t/b/c'') demo_libs (Archive ''u'' ''T/A,t/b/c'') demo_start =
     (Inr \<lparr>sa_tar = ''source/a,source/b/c'', sa_sha256 = ''t/a,t/b/c''\<rparr>, w')"
proof -
  have "fst (fetch_archive (demo_env ''t/a,t/b/c'') demo_libs ''u'' ''T/A,t/b/c'' demo_start) =
      Inr \<lparr>sa_tar = ''source/a,source/b/c'', sa_sha256 = ''t/a,t/b/c''\<rparr>"
    using demo_download [of "''t/a,t/b/c''" "''u''"] demo_stage
    by (auto simp: fetch_archive_def andThen_def MAX_ARCHIVE_BYTES_def Let_def)
  then show ?thesis unfolding fetch.simps by (metis prod.collapse)
qed

theorem staging_keeps_contents_witness:
  "\<exists>w' es out. fetch (demo_env ''t/a,t/b/c'') demo_libs (Archive ''u'' ''T/A,t/b/c'') demo_start =
     (Inr \<lparr>sa_tar = ''source/a,source/b/c'', sa_sha256 = ''t/a,t/b/c''\<rparr>, w') \<and>
     join '','' (map se_path out) = ''source/a,source/b/c'' \<and>
     list_all2 (\<lambda>e s. staged_as e s \<and> (\<exists>root. confined_as root e s)) es out"
proof -
  obtain w' where run: "fetch (demo_env ''t/a,t/b/c'') demo_libs (Archive ''u'' ''T/A,t/b/c'') demo_start =
     (Inr \<lparr>sa_tar = ''source/a,source/b/c'', sa_sha256 = ''t/a,t/b/c''\<rparr>, w')" using demo_fetched ..
  from staging_keeps_contents [OF run] obtain es out root where
    "lib_tar_finish demo_libs out = Inr ''source/a,source/b/c''"
    "list_all2 staged_as es out" "list_all2 (confined_as root) es out" by (auto simp: demo_libs_def)
  then have "join '','' (map se_path out) = ''source/a,source/b/c''"
    "list_all2 (\<lambda>e s. staged_as e s \<and> (\<exists>root. confined_as root e s)) es out"
    by (auto simp: demo_libs_def list_all2_conv_all_nth)
  with run show ?thesis by blast
qed

definition demo_entry :: "bytes \<Rightarrow> tar_entry" where
  "demo_entry p = \<lparr>te_type = Symlink, te_path = p, te_link = Some ''../x'', te_mode = None,
     te_mtime = None, te_data = Inr []\<rparr>"

text \<open>The same tree under another top-level name.\<close>

definition retop :: "bytes \<Rightarrow> tar_entry \<Rightarrow> tar_entry" where
  "retop t e = e\<lparr>te_path := t @ dropWhile (\<lambda>c. c \<noteq> CHR ''/'') (te_path e),
     te_link := (if te_type e = Link
       then map_option (\<lambda>p. t @ dropWhile (\<lambda>c. c \<noteq> CHR ''/'') p) (te_link e) else te_link e)\<rparr>"

lemma restage_retop:
  assumes "CHR ''/'' \<notin> set t"
  shows "restage_path (t @ dropWhile (\<lambda>c. c \<noteq> CHR ''/'') p) = restage_path p"
proof -
  let ?d = "dropWhile (\<lambda>c. c \<noteq> CHR ''/'') p"
  have "?d = [] \<or> (\<exists>r. ?d = CHR ''/'' # r)"
    using hd_dropWhile [of "\<lambda>c. c \<noteq> CHR ''/''" p] by (cases ?d) auto
  from break_append(2) [OF this assms] show ?thesis by (simp only: restage_path_def)
qed

text \<open>
  One staging path for all. What is staged does not depend on the name of the
  archive's top-level directory: renaming it, in paths and hard links, gives the same staged entries,
  so two verifiers handed the same tree in different shapes build the same files at the same path.
\<close>

theorem staging_forgets_top_dir:
  assumes "CHR ''/'' \<notin> set t"
  shows "stage_entries l (map (map_sum (\<lambda>e. e) (retop t)) es) out = stage_entries l es out"
proof -
  have "stage_entry l (retop t e) = stage_entry l e" for e
    using restage_retop [OF assms]
    by (cases "te_link e"; cases "te_type e = Link") (simp_all add: stage_entry_def retop_def Let_def)
  moreover have "is_pax_meta (retop t e) = is_pax_meta e" for e by (simp add: is_pax_meta_def retop_def)
  ultimately show ?thesis
    by (induction l es out rule: stage_entries.induct) (auto simp: rbind_def split: sum.splits)
qed

theorem staging_forgets_top_dir_witness:
  "stage_entries demo_libs [Inr (retop ''repo-abc'' (demo_entry ''source/a''))] [] =
   stage_entries demo_libs [Inr (demo_entry ''source/a'')] []"
  using staging_forgets_top_dir [of "''repo-abc''" demo_libs "[Inr (demo_entry ''source/a'')]" "[]"] by simp

section \<open>Traces of the two routes\<close>

definition checked_process :: "libs \<Rightarrow> string \<Rightarrow> event \<Rightarrow> bool" where
  "checked_process l declared ev = (case ev of
     Process sp r \<Rightarrow> (\<exists>data. sp = gunzip_spawn data \<and> eq_ignore_ascii_case (sha256_hex l data) declared)
   | _ \<Rightarrow> True)"

lemma guard_all_events:
  "(\<And>host port r. p (Resolve host port r)) \<Longrightarrow> all_events p (guard_public_url env l raw)"
  unfolding all_events_def
  by (rule traces_mono [OF guard_traces]) auto

lemma get_hops_all_events:
  assumes "\<And>host port r. p (Resolve host port r)" and "\<And>u r. p (Get u r)"
  shows "all_events p (get_hops env l n url)"
proof (induction n arbitrary: url)
  case 0
  then show ?case by (simp add: all_events_basic)
next
  case (Suc n)
  have "all_events p (case r of
       Inl e \<Rightarrow> fail_with (SourceFetch (''GET '' @ url @ '' failed: '' @ e))
     | Inr resp \<Rightarrow>
         if \<not> (300 \<le> rs_status resp \<and> rs_status resp < 400) then ret resp
         else case rs_location resp of
           None \<Rightarrow> fail_with (SourceFetch (''redirect from `'' @ url @ ''` (status '' @
                    show_nat (rs_status resp) @ '') had no Location header''))
         | Some location \<Rightarrow>
             andThen (lift_result (resolve_redirect l url location)) (get_hops env l n))" for r
    using Suc by (auto intro!: all_events_andThen simp: all_events_basic
        split: sum.splits option.splits)
  then show ?case
    unfolding get_hops.simps by (intro all_events_andThen guard_all_events all_events_basic assms)
qed

text \<open>The download does not depend on the tar library.\<close>

lemma download_ignores_tar:
  "get_with_guarded_redirects env (l\<lparr>lib_untar := untar, lib_tar_append := writer, lib_tar_finish := finish\<rparr>) uri =
     get_with_guarded_redirects env l uri"
proof -
  let ?l = "l\<lparr>lib_untar := untar, lib_tar_append := writer, lib_tar_finish := finish\<rparr>"
  have addrs: "check_addrs ?l host ips = check_addrs l host ips" for host ips
    by (induction ips) simp_all
  have guard: "guard_public_url env ?l = guard_public_url env l"
  proof (intro ext)
    fix raw w
    show "guard_public_url env ?l raw w = guard_public_url env l raw w"
      unfolding guard_public_url_def addrs by simp
  qed
  have redirect: "resolve_redirect ?l = resolve_redirect l"
    by (auto simp: fun_eq_iff resolve_redirect_def split: sum.split)
  have "get_hops env ?l n u = get_hops env l n u" for n u
  proof (induction n arbitrary: u)
    case (Suc n)
    then have "get_hops env ?l n = get_hops env l n" by blast
    then show ?case by (simp only: get_hops.simps guard redirect)
  qed simp
  then show ?thesis by (simp only: get_with_guarded_redirects_def)
qed

lemma fetch_archive_checked:
  "\<exists>evs. history (snd (fetch_archive env l uri declared w)) = history w @ evs \<and>
     list_all (checked_process l declared) evs"
proof -
  let ?p = "checked_process l declared"
  have "all_events ?p (check_and_stage env l declared data)" for data
  proof (cases "eq_ignore_ascii_case (sha256_hex l data) declared")
    case True
    then have "all_events ?p (if is_gzip data then gunzip env data else ret data)"
      by (auto simp: gunzip_def checked_process_def intro!: all_events_intros)
    with True show ?thesis
      unfolding check_and_stage_def Let_def by (simp add: all_events_intros)
  qed (simp add: check_and_stage_def Let_def all_events_basic)
  then have "all_events ?p (archive_body env l uri declared resp)" for resp
    by (simp add: archive_body_def all_events_basic split: sum.splits)
  moreover have "all_events ?p (get_hops env l (Suc MAX_REDIRECTS) uri)"
    by (rule get_hops_all_events) (simp_all add: checked_process_def)
  ultimately have "all_events ?p (fetch_archive env l uri declared)"
    unfolding fetch_archive_body get_with_guarded_redirects_def by (intro all_events_andThen)
  then show ?thesis by (simp add: all_events_def traces_def)
qed

text \<open>
  Property C21. Integrity before decompression and parsing. On the archive route the only program that is
  ever run is the decompressor, and only on bytes whose digest is the declared one. And a download within
  the limit whose digest is another one is answered by the integrity error, with nothing done after the
  download: whatever the tar parser and writer would say to these bytes, well-formed or not.
\<close>

theorem archive_unpacked_only_if_declared:
  assumes "get_with_guarded_redirects env l uri w = (Inr resp, w1)" and "rs_body resp = Inr body"
    and "length body \<le> MAX_ARCHIVE_BYTES" and "\<not> eq_ignore_ascii_case (sha256_hex l body) declared"
  shows "fetch_archive env (l\<lparr>lib_untar := untar, lib_tar_append := writer, lib_tar_finish := finish\<rparr>) uri declared w =
      (Inl (SourceIntegrity (lib_lowercase l declared) (sha256_hex l body)), w1) \<and>
    (\<forall>env' l' uri' declared' w'. \<exists>evs. history (snd (fetch_archive env' l' uri' declared' w')) = history w' @ evs \<and>
      list_all (checked_process l' declared') evs)"
proof -
  let ?l = "l\<lparr>lib_untar := untar, lib_tar_append := writer, lib_tar_finish := finish\<rparr>"
  have "get_with_guarded_redirects env ?l uri w = (Inr resp, w1)"
    using assms(1) by (simp only: download_ignores_tar)
  then have "fetch_archive env ?l uri declared w = (Inl (SourceIntegrity (lib_lowercase l declared) (sha256_hex l body)), w1)"
    using assms(2-4)
    by (simp add: fetch_archive_body andThen_def archive_body_def check_and_stage_def sha256_hex_def fail_with_def)
  then show ?thesis using fetch_archive_checked by blast
qed

theorem archive_unpacked_only_if_declared_witness:
  "\<exists>w1. fetch_archive (demo_env ''x'') (demo_libs\<lparr>lib_untar := \<lambda>_. Inl ''bad''\<rparr>) ''u'' ''y'' demo_start =
     (Inl (SourceIntegrity ''y'' ''x''), w1)"
proof -
  obtain w1 where dl: "get_with_guarded_redirects (demo_env ''x'') demo_libs ''u'' demo_start =
     (Inr \<lparr>rs_status = 200, rs_location = None, rs_body = Inr ''x''\<rparr>, w1)" using demo_download ..
  have sha: "sha256_hex demo_libs ''x'' = ''x''" "lib_lowercase demo_libs ''y'' = ''y''" "\<not> eq_ignore_ascii_case ''x'' ''y''"
    by code_simp+
  from archive_unpacked_only_if_declared [OF dl, where body = "''x''" and declared = "''y''" and untar = "\<lambda>_. Inl ''bad''"
      and writer = "lib_tar_append demo_libs" and finish = "lib_tar_finish demo_libs"] show ?thesis by (simp add: MAX_ARCHIVE_BYTES_def sha)
qed

text \<open>
  The shape of the git route's events for the scratch directory \<open>tmp\<close>: it is cleared and created; if
  that works, at most a clone and an export run in it, and then it is removed.
\<close>

definition clone_shape :: "string \<Rightarrow> string \<Rightarrow> string \<Rightarrow> event list \<Rightarrow> bool" where
  "clone_shape repo commit tmp evs \<longleftrightarrow>
     (\<exists>x e. evs = [File (Remove_Dir tmp) x, File (Create_Dir tmp) (Some e)]) \<or>
     (\<exists>x procs z. evs = [File (Remove_Dir tmp) x, File (Create_Dir tmp) None] @ procs @
          [File (Remove_Dir tmp) z] \<and>
        (\<exists>r. procs = [Process (git_clone_spawn repo tmp) r] \<or>
          (\<exists>out err r'. r = Exited (Some 0) out err \<and>
             procs = [Process (git_clone_spawn repo tmp) r, Process (git_archive_spawn tmp commit) r'])))"

lemma git_output_Inr: "git_output a b r = Inr out \<Longrightarrow> \<exists>err. r = Exited (Some 0) out err"
  by (auto simp: git_output_def split: proc_end.splits if_splits)

lemma clone_traces:
  "traces (clone_and_export env repo commit tmp) (\<lambda>_ evs. clone_shape repo commit tmp evs)"
proof (rule tracesI)
  fix w
  show "\<exists>evs. history (snd (clone_and_export env repo commit tmp w)) = history w @ evs \<and>
      clone_shape repo commit tmp evs"
  proof (cases "env_file env (history w @ [File (Remove_Dir tmp) (env_file env (history w) (Remove_Dir tmp))])
      (Create_Dir tmp)")
    case (Some e)
    then show ?thesis
      by (auto simp: clone_and_export_def andThen_def try_io_def do_file_def Let_def clone_shape_def
          split: option.splits)
  next
    case None
    let ?h = "history w @ [File (Remove_Dir tmp) (env_file env (history w) (Remove_Dir tmp)),
        File (Create_Dir tmp) None]"
    let ?r = "env_process env ?h (git_clone_spawn repo tmp)"
    show ?thesis
    proof (cases "git_output ''could not run git: '' (''git clone of `'' @ repo @ ''` failed: '') ?r")
      case (Inl e)
      with None show ?thesis
        by (auto simp: clone_and_export_def andThen_def try_io_def do_file_def Let_def clone_shape_def
            with_drop_def do_process_def lift_result_def split: option.splits)
    next
      case (Inr out)
      from git_output_Inr [OF Inr] obtain err where "?r = Exited (Some 0) out err" by blast
      with None Inr show ?thesis
        by (auto simp: clone_and_export_def andThen_def try_io_def do_file_def Let_def clone_shape_def
            with_drop_def do_process_def lift_result_def split: option.splits)
    qed
  qed
qed

lemma git_route_trace:
  "\<exists>evs. history (snd (fetch_git env l repo commit w)) = history w @ evs \<and>
     ((\<exists>host port r. is_http repo \<and> evs = [Resolve host port r]) \<or> (is_http repo \<and> evs = []) \<or>
      (\<exists>tmp pre post. evs = pre @ post \<and> clone_shape repo commit tmp post \<and>
         (if is_http repo then (\<exists>ev. pre = [ev] \<and> vouches l repo ev) else pre = [])))"
proof -
  let ?Q = "\<lambda>evs. (\<exists>host port r. is_http repo \<and> evs = [Resolve host port r]) \<or> (is_http repo \<and> evs = []) \<or>
      (\<exists>tmp pre post. evs = pre @ post \<and> clone_shape repo commit tmp post \<and>
         (if is_http repo then (\<exists>ev. pre = [ev] \<and> vouches l repo ev) else pre = []))"
  have guard: "traces (if is_http repo then guard_public_url env l repo else ret ()) (\<lambda>r evs.
      (case r of Inl e \<Rightarrow> is_http repo \<and> (evs = [] \<or> (\<exists>host port a. evs = [Resolve host port a]))
       | Inr _ \<Rightarrow> if is_http repo then (\<exists>ev. evs = [ev] \<and> vouches l repo ev) else evs = []))"
  proof (cases "is_http repo")
    case True
    then have eq: "(if is_http repo then guard_public_url env l repo else ret ()) = guard_public_url env l repo"
      by simp
    show ?thesis unfolding eq
    proof (rule traces_mono [OF guard_traces])
      fix r :: "verify_error + unit" and evs
      assume "(evs = [] \<or> (\<exists>host port a. evs = [Resolve host port a])) \<and>
        (\<forall>u. r = Inr u \<longrightarrow> (\<exists>ev. evs = [ev] \<and> vouches l repo ev))"
      with True show "case r of
          Inl e \<Rightarrow> is_http repo \<and> (evs = [] \<or> (\<exists>host port a. evs = [Resolve host port a]))
        | Inr _ \<Rightarrow> if is_http repo then \<exists>ev. evs = [ev] \<and> vouches l repo ev else evs = []"
        by (cases r) simp_all
    qed
  next
    case False
    then show ?thesis by (simp add: traces_ret)
  qed
  have stage: "traces (let sha = sha256_hex l out in
     andThen (lift_result (normalize_for_staging l out)) (\<lambda>tar. ret \<lparr>sa_tar = tar, sa_sha256 = sha\<rparr>))
     (\<lambda>r evs. evs = [])" for out
    unfolding Let_def
    by (rule traces_andThen [where P = "\<lambda>r evs. evs = []"]) (auto intro!: traces_lift traces_ret)
  have "traces (fetch_git env l repo commit) (\<lambda>_ evs. ?Q evs)"
    unfolding fetch_git_def
  proof (rule traces_andThen [OF guard])
    fix u pre
    assume "case Inr u of Inl e \<Rightarrow> is_http repo \<and> (pre = [] \<or> (\<exists>host port a. pre = [Resolve host port a]))
       | Inr _ \<Rightarrow> if is_http repo then (\<exists>ev. pre = [ev] \<and> vouches l repo ev) else pre = []"
    then have pre: "if is_http repo then (\<exists>ev. pre = [ev] \<and> vouches l repo ev) else pre = []" by simp
    have "traces (andThen (clone_and_export env repo commit tmp) (\<lambda>out.
        let sha = sha256_hex l out in
        andThen (lift_result (normalize_for_staging l out)) (\<lambda>tar. ret \<lparr>sa_tar = tar, sa_sha256 = sha\<rparr>)))
        (\<lambda>_ post. clone_shape repo commit tmp post)" for tmp
      by (rule traces_andThen [OF clone_traces]) (assumption, rule traces_mono [OF stage], simp)
    then have run: "traces (andThen (clone_and_export env repo commit tmp) (\<lambda>out.
        let sha = sha256_hex l out in
        andThen (lift_result (normalize_for_staging l out)) (\<lambda>tar. ret \<lparr>sa_tar = tar, sa_sha256 = sha\<rparr>)))
        (\<lambda>_ post. ?Q (pre @ post))" for tmp
      by (rule traces_mono) (use pre in blast)
    show "traces (andThen (unique_token env) (\<lambda>token.
        andThen (clone_and_export env repo commit (env_temp_dir env @ ''/verify-src-'' @ token)) (\<lambda>out.
        let sha = sha256_hex l out in
        andThen (lift_result (normalize_for_staging l out)) (\<lambda>tar. ret \<lparr>sa_tar = tar, sa_sha256 = sha\<rparr>))))
        (\<lambda>_ post. ?Q (pre @ post))"
      by (rule traces_andThen [OF traces_token [where Q = "\<lambda>r evs. evs = [] \<and> is_ok r"]])
        (use run in auto)
  qed auto
  then show ?thesis unfolding traces_def by blast
qed

text \<open>
  The git route. A repository named by an http or https URL is cloned only after a
  lookup has vouched for its host, and always with redirects switched off; whatever the tools answer,
  the scratch directory is removed once the clone and the export are done with.
\<close>

theorem git_route_contained:
  "\<exists>evs. history (snd (fetch_git env l repo commit w)) = history w @ evs \<and>
     ((\<exists>host port r. is_http repo \<and> evs = [Resolve host port r]) \<or> (is_http repo \<and> evs = []) \<or>
      (\<exists>tmp pre post. evs = pre @ post \<and> clone_shape repo commit tmp post \<and>
         (if is_http repo then (\<exists>ev. pre = [ev] \<and> vouches l repo ev) else pre = [])))"
  by (rule git_route_trace)

section \<open>Corner cases\<close>

text \<open>
  A repository reached by another scheme than http and https is cloned without any lookup, also when
  it names an internal address.
\<close>

lemma other_schemes_unguarded:
  assumes "\<not> is_http repo"
  shows "\<exists>evs tmp. history (snd (fetch_git env l repo commit w)) = history w @ evs \<and>
    clone_shape repo commit tmp evs"
  using git_route_trace [of env l repo commit w] assms by auto

lemma git_scheme_not_http: "\<not> is_http ''git://169.254.169.254/x''" "\<not> is_http ''ssh://10.0.0.1/x''"
  by (simp_all add: is_http_def)

text \<open>
  Archives that pass as having one top-level directory: a single file, and two trees below a leading
  dot. A first component that is not UTF-8 is staged, not refused.
\<close>

lemma lone_file_accepted: "single_top_dir demo_libs ''Cargo.toml'' = Inr ''Cargo.toml''"
  by code_simp

lemma dotted_trees_accepted: "single_top_dir demo_libs ''./a/x,./b/y'' = Inr ''.''"
  by code_simp

lemma non_utf8_top_staged: "restage_path [chr 255, CHR ''/'', CHR ''a''] = Inr ''source/a''"
  by code_simp

end
