(* ===== verification/DockerCli.thy ===== *)
theory DockerCli
  imports World
begin

text \<open>
  The wrapper over the \<open>docker\<close> command line, \<open>crates/verifier-core/src/docker.rs\<close>: how the
  program is chosen, the argument vector of \<open>docker create\<close>, and the operations on volumes and
  containers, each an exchange with a child process.
\<close>

section \<open>Choosing the program\<close>

record docker =
  dk_program :: string
  dk_prefix :: "string list"

definition docker_local :: docker where
  "docker_local = \<lparr>dk_program = ''docker'', dk_prefix = []\<rparr>"

definition docker_wsl :: "string \<Rightarrow> docker" where
  "docker_wsl distro = \<lparr>dk_program = ''wsl'', dk_prefix = [''-d'', distro, ''--'', ''docker'']\<rparr>"

text \<open>\<open>split_whitespace\<close>: the non-empty pieces between white space.\<close>

function split_whitespace_aux :: "string \<Rightarrow> string \<Rightarrow> string list" where
  "split_whitespace_aux cur s =
     (if s = [] then (if cur = [] then [] else [cur])
      else if ws_prefix s = 0 then split_whitespace_aux (cur @ [hd s]) (tl s)
      else (if cur = [] then [] else [cur]) @ split_whitespace_aux [] (drop (ws_prefix s) s))"
  by auto
termination by (relation "measure (length \<circ> snd)") (auto simp: neq_Nil_conv)

declare split_whitespace_aux.simps [simp del]

definition split_whitespace :: "string \<Rightarrow> string list" where
  "split_whitespace s = split_whitespace_aux [] s"

definition autodetect :: "env \<Rightarrow> docker" where
  "autodetect env =
     (case (case env_var env ''VERIFY_DOCKER'' of None \<Rightarrow> [] | Some spec \<Rightarrow> split_whitespace spec) of
        program # parts \<Rightarrow> \<lparr>dk_program = program, dk_prefix = parts\<rparr>
      | [] \<Rightarrow> if env_windows env then docker_wsl ''Ubuntu'' else docker_local)"

section \<open>Container specifications\<close>

datatype network = Bridge | No_Network | Named string

record resource_limits =
  rl_memory :: "string option"
  rl_memory_swap :: "string option"
  rl_cpus :: "string option"
  rl_pids :: "nat option"
  rl_storage_opt_size :: "string option"

record security_opts =
  so_cap_drop_all :: bool
  so_no_new_privileges :: bool

record container_spec =
  cs_image :: string
  cs_entrypoint :: "string option"
  cs_argv :: "string list"
  cs_workdir :: string
  cs_env :: "(string \<times> string) list"
  cs_volumes :: "(string \<times> string) list"
  cs_network :: network
  cs_limits :: resource_limits
  cs_security :: security_opts

definition create_args :: "container_spec \<Rightarrow> string list" where
  "create_args spec =
     [''create''] @
     (case cs_network spec of Bridge \<Rightarrow> [] | No_Network \<Rightarrow> [''--network=none'']
        | Named name \<Rightarrow> [''--network='' @ name]) @
     (if so_cap_drop_all (cs_security spec) then [''--cap-drop=ALL''] else []) @
     (if so_no_new_privileges (cs_security spec) then [''--security-opt=no-new-privileges''] else []) @
     (case rl_memory (cs_limits spec) of None \<Rightarrow> []
        | Some memory \<Rightarrow> [''--memory'', memory] @
            (case rl_memory_swap (cs_limits spec) of None \<Rightarrow> [] | Some swap \<Rightarrow> [''--memory-swap'', swap])) @
     (case rl_cpus (cs_limits spec) of None \<Rightarrow> [] | Some cpus \<Rightarrow> [''--cpus'', cpus]) @
     (case rl_pids (cs_limits spec) of None \<Rightarrow> [] | Some pids \<Rightarrow> [''--pids-limit'', show_nat pids]) @
     (case rl_storage_opt_size (cs_limits spec) of None \<Rightarrow> []
        | Some sz \<Rightarrow> [''--storage-opt'', ''size='' @ sz]) @
     (case cs_entrypoint spec of None \<Rightarrow> [] | Some e \<Rightarrow> [''--entrypoint'', e]) @
     [''--workdir'', cs_workdir spec] @
     concat (map (\<lambda>(name, mount). [''--volume'', name @ '':'' @ mount]) (cs_volumes spec)) @
     concat (map (\<lambda>(k, v). [''--env'', k @ ''='' @ v]) (cs_env spec)) @
     [cs_image spec] @ cs_argv spec"

section \<open>Running docker\<close>

definition docker_spawn :: "docker \<Rightarrow> string list \<Rightarrow> bytes option \<Rightarrow> nat option \<Rightarrow> spawn" where
  "docker_spawn d args stdin limit =
     \<lparr>sp_program = dk_program d, sp_args = dk_prefix d @ args, sp_stdin = stdin, sp_limit = limit\<rparr>"

text \<open>\<open>Command::output\<close>: any failure to run the program is one I/O error.\<close>

definition output_of :: "proc_end \<Rightarrow> string + (int option \<times> bytes \<times> bytes)" where
  "output_of r = (case r of
      Exited code out err \<Rightarrow> Inr (code, out, err)
    | Not_Started e \<Rightarrow> Inl e | Write_Failed e \<Rightarrow> Inl e | Wait_Failed e \<Rightarrow> Inl e
    | Out_Of_Time \<Rightarrow> Inl ''timed out'')"

definition docker_run :: "env \<Rightarrow> docker \<Rightarrow> string list \<Rightarrow> bytes io" where
  "docker_run env d args =
     andThen (do_process env (docker_spawn d args None None)) (\<lambda>r.
     lift_result (case output_of r of
        Inl e \<Rightarrow> Inl (Docker (''could not run `'' @ dk_program d @ ''`: '' @ e))
      | Inr (code, out, err) \<Rightarrow>
          if code = Some 0 then Inr out
          else Inl (Docker (''`docker '' @ join '' '' args @ ''` failed: '' @ trim (utf8_lossy err)))))"

definition preflight :: "env \<Rightarrow> docker \<Rightarrow> unit io" where
  "preflight env d =
     andThen (docker_run env d [''version'', ''--format'', ''{{.Server.Version}}'']) (\<lambda>_. ret ())"

definition image_digest :: "env \<Rightarrow> libs \<Rightarrow> docker \<Rightarrow> string \<Rightarrow> string option io" where
  "image_digest env l d img =
     andThen (docker_run env d
       [''image'', ''inspect'', img, ''--format'', ''{{json .RepoDigests}}'']) (\<lambda>raw.
     lift_result (case lib_json_strings l raw of
        Inl e \<Rightarrow> Inl (Docker (''could not parse RepoDigests: '' @ e))
      | Inr [] \<Rightarrow> Inr None
      | Inr (digest # _) \<Rightarrow> Inr (Some digest)))"

definition docker_create :: "env \<Rightarrow> docker \<Rightarrow> container_spec \<Rightarrow> string io" where
  "docker_create env d spec =
     andThen (docker_run env d (create_args spec)) (\<lambda>out.
     let cid = trim (utf8_lossy out) in
     lift_result (if cid = [] then Inl (Docker ''`docker create` returned no container id'')
                  else Inr cid))"

definition create_volume :: "env \<Rightarrow> docker \<Rightarrow> string \<Rightarrow> string io" where
  "create_volume env d name =
     andThen (docker_run env d [''volume'', ''create'', name]) (\<lambda>_. ret name)"

definition drop_volume :: "env \<Rightarrow> docker \<Rightarrow> string \<Rightarrow> bytes io" where
  "drop_volume env d name = docker_run env d [''volume'', ''rm'', ''--force'', name]"

definition drop_container :: "env \<Rightarrow> docker \<Rightarrow> string \<Rightarrow> bytes io" where
  "drop_container env d cid = docker_run env d [''rm'', ''--force'', ''--volumes'', cid]"

section \<open>Using a container\<close>

record run_output =
  ro_exit_code :: int
  ro_log :: string

definition put_archive :: "env \<Rightarrow> docker \<Rightarrow> string \<Rightarrow> string \<Rightarrow> bytes \<Rightarrow> unit io" where
  "put_archive env d cid dest tar =
     andThen (do_process env (docker_spawn d [''cp'', ''-'', cid @ '':'' @ dest] (Some tar) None)) (\<lambda>r.
     lift_result (case r of
        Not_Started e \<Rightarrow> Inl (Docker (''`docker cp` (in) failed to start: '' @ e))
      | Write_Failed e \<Rightarrow> Inl (Docker (''writing source tar to `docker cp`: '' @ e))
      | Wait_Failed e \<Rightarrow> Inl (Docker (''`docker cp` (in) failed: '' @ e))
      | Out_Of_Time \<Rightarrow> Inl (Docker ''`docker cp` (in) failed: timed out'')
      | Exited code out err \<Rightarrow>
          if code = Some 0 then Inr ()
          else Inl (Docker (''`docker cp` (in) failed: '' @ trim (utf8_lossy err)))))"

definition get_archive :: "env \<Rightarrow> docker \<Rightarrow> string \<Rightarrow> string \<Rightarrow> bytes io" where
  "get_archive env d cid src =
     andThen (do_process env (docker_spawn d [''cp'', cid @ '':'' @ src, ''-''] None None)) (\<lambda>r.
     lift_result (case output_of r of
        Inl e \<Rightarrow> Inl (Docker (''`docker cp` (out) failed: '' @ e))
      | Inr (code, out, err) \<Rightarrow>
          if code = Some 0 then Inr out
          else Inl (Docker (''`docker cp` (out) of `'' @ src @ ''` failed: '' @ trim (utf8_lossy err)))))"

text \<open>On time-out the client is killed, then the container, whatever the answer.\<close>

definition run_to_completion :: "env \<Rightarrow> docker \<Rightarrow> string \<Rightarrow> nat \<Rightarrow> run_output io" where
  "run_to_completion env d cid timeout =
     andThen (do_process env (docker_spawn d [''start'', ''--attach'', cid] None (Some timeout))) (\<lambda>r.
     case r of
        Not_Started e \<Rightarrow> fail_with (Docker (''`docker start` failed to start: '' @ e))
      | Write_Failed e \<Rightarrow> fail_with (Docker (''waiting on build container: '' @ e))
      | Wait_Failed e \<Rightarrow> fail_with (Docker (''waiting on build container: '' @ e))
      | Out_Of_Time \<Rightarrow>
          andThen (try_io (docker_run env d [''kill'', cid])) (\<lambda>_. fail_with (Timeout timeout))
      | Exited code out err \<Rightarrow>
          ret \<lparr>ro_exit_code = (case code of Some c \<Rightarrow> c | None \<Rightarrow> - 1),
               ro_log = utf8_lossy out @ utf8_lossy err\<rparr>)"

section \<open>The events of each operation\<close>

text \<open>The docker sub-command of an event, if it is one.\<close>

definition is_docker :: "docker \<Rightarrow> string list \<Rightarrow> event \<Rightarrow> bool" where
  "is_docker d args ev \<longleftrightarrow> (\<exists>stdin limit r. ev = Process (docker_spawn d args stdin limit) r)"

lemma docker_spawn_inj [simp]:
  "docker_spawn d args stdin limit = docker_spawn d args' stdin' limit' \<longleftrightarrow>
     args = args' \<and> stdin = stdin' \<and> limit = limit'"
  by (auto simp: docker_spawn_def)

lemma is_docker_spawn [simp]:
  "is_docker d args (Process (docker_spawn d args' stdin limit) r) \<longleftrightarrow> args = args'"
  by (auto simp: is_docker_def)

lemma docker_run_traces:
  assumes "\<And>r x. Q x [Process (docker_spawn d args None None) r]"
  shows "traces (docker_run env d args) Q"
  unfolding docker_run_def
  by (rule traces_andThen [OF traces_process [where
        Q = "\<lambda>r evs. \<exists>x. evs = [Process (docker_spawn d args None None) x]"]])
    (auto intro!: traces_lift assms)

text \<open>On success the command ran and exited with code 0.\<close>

lemma docker_run_ok_traces:
  "traces (docker_run env d args) (\<lambda>r evs. \<exists>e. evs = [Process (docker_spawn d args None None) e] \<and>
     (\<forall>out. r = Inr out \<longleftrightarrow> (\<exists>err. e = Exited (Some 0) out err)))"
  unfolding docker_run_def
  by (rule traces_andThen [OF traces_process [where
        Q = "\<lambda>r evs. \<exists>x. r = Inr x \<and> evs = [Process (docker_spawn d args None None) x]"]])
    (auto intro!: traces_lift simp: output_of_def split: proc_end.splits prod.splits if_splits)

lemma all_events_lets: "all_events p (f x) \<Longrightarrow> all_events p (let y = x in f y)"
  by simp

lemma docker_all_events:
  assumes "\<And>stdin limit e. p (Process (docker_spawn d args stdin limit) e)"
  shows "all_events p (docker_run env d args)"
  unfolding docker_run_def using assms by (intro all_events_intros)

lemma create_all_events:
  assumes "\<And>stdin limit e. p (Process (docker_spawn d (create_args spec) stdin limit) e)"
  shows "all_events p (docker_create env d spec)"
  unfolding docker_create_def Let_def by (intro all_events_intros docker_all_events assms)

lemma create_volume_all_events:
  assumes "\<And>stdin limit e. p (Process (docker_spawn d [''volume'', ''create'', name] stdin limit) e)"
  shows "all_events p (create_volume env d name)"
  unfolding create_volume_def by (intro all_events_intros docker_all_events assms)

lemma put_archive_all_events:
  assumes "\<And>stdin limit e. p (Process (docker_spawn d [''cp'', ''-'', cid @ '':'' @ dest] stdin limit) e)"
  shows "all_events p (put_archive env d cid dest tar)"
  unfolding put_archive_def by (intro all_events_intros assms)

lemma get_archive_all_events:
  assumes "\<And>stdin limit e. p (Process (docker_spawn d [''cp'', cid @ '':'' @ src, ''-''] stdin limit) e)"
  shows "all_events p (get_archive env d cid src)"
  unfolding get_archive_def by (intro all_events_intros assms)

lemma run_all_events:
  assumes "\<And>stdin limit e. p (Process (docker_spawn d [''start'', ''--attach'', cid] stdin limit) e)"
    and "\<And>stdin limit e. p (Process (docker_spawn d [''kill'', cid] stdin limit) e)"
  shows "all_events p (run_to_completion env d cid timeout)"
proof -
  have "all_events p (case r of
        Not_Started e \<Rightarrow> fail_with (Docker (''`docker start` failed to start: '' @ e))
      | Write_Failed e \<Rightarrow> fail_with (Docker (''waiting on build container: '' @ e))
      | Wait_Failed e \<Rightarrow> fail_with (Docker (''waiting on build container: '' @ e))
      | Out_Of_Time \<Rightarrow>
          andThen (try_io (docker_run env d [''kill'', cid])) (\<lambda>_. fail_with (Timeout timeout))
      | Exited code out err \<Rightarrow> ret (f code out err))" for r and f :: "int option \<Rightarrow> bytes \<Rightarrow> bytes \<Rightarrow> run_output"
    by (cases r) (simp_all add: all_events_basic, intro all_events_intros docker_all_events assms)
  then show ?thesis unfolding run_to_completion_def by (intro all_events_intros assms)
qed

end
