(* ===== verification/Reproduce.thy ===== *)
theory Reproduce
  imports Staging DockerCli
begin

text \<open>
  The reproduction pipeline, \<open>crates/verifier-core/src/reproduce.rs\<close>: fetch the source, fetch its
  dependencies with the network on, build with the network off, pick the artifact, compare hashes.
\<close>

section \<open>Constants and selection\<close>

definition STAGE_DIR :: string where "STAGE_DIR = ''/build''"
definition CARGO_HOME :: string where "CARGO_HOME = ''/cargo-home''"
definition WASM_TARGET :: string where "WASM_TARGET = ''wasm32v1-none''"
definition FETCH_TIMEOUT_FRACTION :: nat where "FETCH_TIMEOUT_FRACTION = 3"

definition BUILD_LIMITS :: resource_limits where
  "BUILD_LIMITS = \<lparr>rl_memory = Some ''3g'', rl_memory_swap = Some ''3g'', rl_cpus = Some ''2'',
     rl_pids = Some 2048, rl_storage_opt_size = None\<rparr>"

definition BUILD_SECURITY :: security_opts where
  "BUILD_SECURITY = \<lparr>so_cap_drop_all = True, so_no_new_privileges = True\<rparr>"

definition network_for :: "string option \<Rightarrow> network" where
  "network_for configured =
     (case configured of Some nm \<Rightarrow> if trim nm \<noteq> [] then Named nm else Bridge | None \<Rightarrow> Bridge)"

definition fetch_network :: "env \<Rightarrow> network" where
  "fetch_network env =
     network_for (case env_var env ''VERIFY_FETCH_NETWORK'' of
       Some s \<Rightarrow> if trim s \<noteq> [] then Some s else None | None \<Rightarrow> None)"

section \<open>Requests and reports\<close>

record request =
  rq_source :: source_ref
  rq_bldimg :: string
  rq_bldopt :: "string list"
  rq_expected :: string
  rq_timeout :: nat
  rq_allow_unpinned :: bool
  rq_emit_wasm :: "string option"

datatype trust_level = Arbitrary | Publicly_Auditable | Sdf_Maintained

datatype verification_result = Result_Verified | Result_Mismatch | Result_Pending | Result_Error

record report =
  rp_result :: verification_result
  rp_expected :: string
  rp_rebuilt :: string
  rp_wasm_size :: nat
  rp_artifact :: string
  rp_bldimg :: string
  rp_bldimg_digest :: "string option"
  rp_bldopt :: "string list"
  rp_source_sha256 :: string
  rp_trust_level :: trust_level
  rp_build_time :: nat
  rp_build_log :: "string option"

section \<open>The artifact\<close>

definition is_missing_path :: "string \<Rightarrow> bool" where
  "is_missing_path docker_error =
     (let msg = ascii_lower docker_error in
      contains msg ''no such file or directory'' \<or> contains msg ''could not find the file'' \<or>
      contains msg ''no such container:path'')"

fun collect_wasm ::
  "(string + tar_entry) list \<Rightarrow> (string \<times> bytes) list \<Rightarrow> verify_error + (string \<times> bytes) list" where
  "collect_wasm [] found = Inr found"
| "collect_wasm (Inl e # es) found = Inl (Docker (''bad build-output entry: '' @ e))"
| "collect_wasm (Inr entry # es) found =
     (if te_type entry \<noteq> Regular then collect_wasm es found
      else let path = utf8_lossy (te_path entry) in
        if \<not> ends_with path ''.wasm'' then collect_wasm es found
        else if length (filter (\<lambda>s. s \<noteq> []) (split_on (CHR ''/'') path)) \<noteq> 2 then collect_wasm es found
        else rbind (map_err Io (te_data entry)) (\<lambda>data. collect_wasm es (found @ [(path, data)])))"

definition choose_wasm :: "(string \<times> bytes) list \<Rightarrow> verify_error + (string \<times> bytes)" where
  "choose_wasm found =
     (case found of
        [] \<Rightarrow> Inl NoWasmProduced
      | [w] \<Rightarrow> Inr w
      | _ \<Rightarrow>
          let optimized = filter (\<lambda>i. ends_with (fst (found ! i)) ''.optimized.wasm'') [0..<length found] in
          if length optimized = 1 \<and> length found = 2 then Inr (found ! hd optimized)
          else Inl (AmbiguousWasm (length found) (map fst found)))"

definition select_wasm_from_tar :: "libs \<Rightarrow> bytes \<Rightarrow> verify_error + (string \<times> bytes)" where
  "select_wasm_from_tar l tar =
     (case lib_untar l tar of
        Inl e \<Rightarrow> Inl (Docker (''build output is not a valid tar: '' @ e))
      | Inr entries \<Rightarrow> rbind (collect_wasm entries []) choose_wasm)"

definition extract_wasm :: "env \<Rightarrow> libs \<Rightarrow> docker \<Rightarrow> string \<Rightarrow> string \<Rightarrow> (string \<times> bytes) io" where
  "extract_wasm env l d cid workdir =
     andThen (try_io (get_archive env d cid (workdir @ ''/target/'' @ WASM_TARGET @ ''/release''))) (\<lambda>r.
     case r of
       Inr tar \<Rightarrow> lift_result (select_wasm_from_tar l tar)
     | Inl e \<Rightarrow>
         (case e of
            Docker msg \<Rightarrow> if is_missing_path msg then fail_with NoWasmProduced else fail_with e
          | _ \<Rightarrow> fail_with e))"

section \<open>The two phases\<close>

definition fetch_spec :: "env \<Rightarrow> request \<Rightarrow> string \<Rightarrow> string \<Rightarrow> container_spec" where
  "fetch_spec env rq workdir cargo_home =
     \<lparr>cs_image = rq_bldimg rq, cs_entrypoint = Some ''cargo'', cs_argv = [''fetch'', ''--locked''],
      cs_workdir = workdir, cs_env = [(''CARGO_HOME'', CARGO_HOME)],
      cs_volumes = [(cargo_home, CARGO_HOME)], cs_network = fetch_network env,
      cs_limits = BUILD_LIMITS, cs_security = BUILD_SECURITY\<rparr>"

definition fetch_dependencies ::
  "env \<Rightarrow> docker \<Rightarrow> request \<Rightarrow> source_archive \<Rightarrow> string \<Rightarrow> string \<Rightarrow> nat \<Rightarrow> unit io" where
  "fetch_dependencies env d rq source workdir cargo_home timeout =
     andThen (docker_create env d (fetch_spec env rq workdir cargo_home)) (\<lambda>cid.
     with_drop
       (andThen (put_archive env d cid STAGE_DIR (sa_tar source)) (\<lambda>_.
        andThen (run_to_completion env d cid timeout) (\<lambda>run.
        if ro_exit_code run \<noteq> 0 then fail_with (BuildFailed (ro_exit_code run) (ro_log run))
        else ret ())))
       (drop_container env d cid))"

definition build_spec :: "request \<Rightarrow> string \<Rightarrow> string \<Rightarrow> container_spec" where
  "build_spec rq workdir cargo_home =
     \<lparr>cs_image = rq_bldimg rq, cs_entrypoint = None, cs_argv = [''contract'', ''build''] @ rq_bldopt rq,
      cs_workdir = workdir, cs_env = [(''CARGO_HOME'', CARGO_HOME), (''CARGO_NET_OFFLINE'', ''true'')],
      cs_volumes = [(cargo_home, CARGO_HOME)], cs_network = No_Network,
      cs_limits = BUILD_LIMITS, cs_security = BUILD_SECURITY\<rparr>"

text \<open>From the source in the container to the report; \<open>started\<close> is when the fetch phase began.\<close>

definition build_and_compare ::
  "env \<Rightarrow> libs \<Rightarrow> docker \<Rightarrow> request \<Rightarrow> source_archive \<Rightarrow> string \<Rightarrow> string \<Rightarrow> nat \<Rightarrow> report io" where
  "build_and_compare env l d rq source workdir cid started =
     andThen (put_archive env d cid STAGE_DIR (sa_tar source)) (\<lambda>_.
     andThen (now_io env) (\<lambda>now.
     andThen (run_to_completion env d cid (rq_timeout rq - (now - started))) (\<lambda>run.
     andThen (now_io env) (\<lambda>done.
     if ro_exit_code run \<noteq> 0 then fail_with (BuildFailed (ro_exit_code run) (ro_log run)) else
     andThen (extract_wasm env l d cid workdir) (\<lambda>(artifact, wasm).
     andThen (case rq_emit_wasm rq of None \<Rightarrow> ret () | Some path \<Rightarrow> do_file env (Write_File path wasm)) (\<lambda>_.
     let rebuilt = sha256_hex l wasm;
         expected = lib_lowercase l (rq_expected rq);
         result = (if rebuilt = expected then Result_Verified else Result_Mismatch) in
     andThen (try_io (image_digest env l d (rq_bldimg rq))) (\<lambda>digest.
     ret \<lparr>rp_result = result, rp_expected = expected, rp_rebuilt = rebuilt,
          rp_wasm_size = length wasm, rp_artifact = artifact, rp_bldimg = rq_bldimg rq,
          rp_bldimg_digest = (case digest of Inr g \<Rightarrow> g | Inl _ \<Rightarrow> None), rp_bldopt = rq_bldopt rq,
          rp_source_sha256 = sa_sha256 source, rp_trust_level = Arbitrary,
          rp_build_time = done - started,
          rp_build_log = (if result = Result_Mismatch then Some (ro_log run) else None)\<rparr>)))))))"

definition run_phases ::
  "env \<Rightarrow> libs \<Rightarrow> docker \<Rightarrow> request \<Rightarrow> source_archive \<Rightarrow> string \<Rightarrow> report io" where
  "run_phases env l d rq source cargo_home =
     (let workdir = STAGE_DIR @ ''/'' @ STAGED_TOP_DIR in
      andThen (now_io env) (\<lambda>started.
      andThen (fetch_dependencies env d rq source workdir cargo_home
                 (rq_timeout rq div FETCH_TIMEOUT_FRACTION)) (\<lambda>_.
      andThen (docker_create env d (build_spec rq workdir cargo_home)) (\<lambda>cid.
      with_drop (build_and_compare env l d rq source workdir cid started) (drop_container env d cid)))))"

definition reproduce :: "env \<Rightarrow> libs \<Rightarrow> docker \<Rightarrow> request \<Rightarrow> report io" where
  "reproduce env l d rq =
     (if \<not> rq_allow_unpinned rq \<and> \<not> contains (rq_bldimg rq) ''@sha256:''
      then fail_with (UnpinnedImage (rq_bldimg rq))
      else
        andThen (preflight env d) (\<lambda>_.
        andThen (fetch env l (rq_source rq)) (\<lambda>source.
        andThen (unique_token env) (\<lambda>token.
        andThen (create_volume env d (''verify-cargo-'' @ token)) (\<lambda>cargo_home.
        with_drop (run_phases env l d rq source cargo_home) (drop_volume env d cargo_home))))))"

end
