(* ===== verification/ClaimDigest.thy ===== *)
theory ClaimDigest
  imports Reproduce
begin

text \<open>
  What an attestation is filed under. The layout of the claim digest exists twice, in the registry
  contract (\<open>contracts/registry/src/claim.rs\<close>) and in the API (\<open>crates/api/src/claim.rs\<close>); here both
  are modelled, shown equal, and the layout is shown to be decodable, so that two verifiers file
  under one digest only for the same source, image and flags. SHA-256 and hex are the parameters of
  \<open>libs\<close>; a \<open>[u8; 32]\<close> is a byte list of length 32.
\<close>

section \<open>The layout\<close>

text \<open>Each side has its own domain tag.\<close>

definition REGISTRY_DOMAIN :: bytes where "REGISTRY_DOMAIN = ''sorofy-claim-v1''"
definition DOMAIN :: bytes where "DOMAIN = ''sorofy-claim-v1''"

text \<open>\<open>u32::to_be_bytes\<close>.\<close>

definition to_be_bytes :: "32 word \<Rightarrow> bytes" where
  "to_be_bytes w = map (\<lambda>k. chr (unat (drop_bit k w))) [24, 16, 8, 0]"

text \<open>The contract appends to a buffer and hashes it.\<close>

definition append_option :: "bytes \<Rightarrow> bytes \<Rightarrow> bytes" where
  "append_option opt buf = buf @ to_be_bytes (of_nat (length opt)) @ opt"

definition claim_buffer :: "bytes \<Rightarrow> bytes \<Rightarrow> bytes list \<Rightarrow> bytes" where
  "claim_buffer source_sha256 bldimg_digest bldopt =
     fold append_option bldopt
       (REGISTRY_DOMAIN @ source_sha256 @ bldimg_digest @ to_be_bytes (of_nat (length bldopt)))"

definition claim_input_digest :: "(bytes \<Rightarrow> bytes) \<Rightarrow> bytes \<Rightarrow> bytes \<Rightarrow> bytes list \<Rightarrow> bytes" where
  "claim_input_digest sha256 source_sha256 bldimg_digest bldopt =
     sha256 (claim_buffer source_sha256 bldimg_digest bldopt)"

text \<open>The API streams the same pieces into a hasher, which hashes what it was fed in order.\<close>

type_synonym hasher = "bytes list"

definition update_hash :: "bytes \<Rightarrow> hasher \<Rightarrow> hasher" where "update_hash b h = h @ [b]"
definition finalize_hash :: "libs \<Rightarrow> hasher \<Rightarrow> bytes" where "finalize_hash l h = lib_sha256 l (concat h)"

definition input_digest :: "libs \<Rightarrow> bytes \<Rightarrow> bytes \<Rightarrow> string list \<Rightarrow> bytes" where
  "input_digest l source_sha256 bldimg_digest bldopt =
     (let h = [];
          h = update_hash DOMAIN h;
          h = update_hash source_sha256 h;
          h = update_hash bldimg_digest h;
          h = update_hash (to_be_bytes (of_nat (length bldopt))) h;
          h = fold (\<lambda>opt h. update_hash opt (update_hash (to_be_bytes (of_nat (length opt))) h)) bldopt h
      in finalize_hash l h)"

section \<open>Claims\<close>

record claim =
  cl_wasm_hash :: bytes
  cl_input_digest :: bytes
  cl_rebuilt_hash :: bytes

datatype no_claim = NoImageDigest | Malformed string

definition hex32 :: "libs \<Rightarrow> string \<Rightarrow> string + bytes" where
  "hex32 l s =
     (case lib_unhex l s of
        Inl e \<Rightarrow> Inl (''`'' @ s @ ''` is not hex: '' @ e)
      | Inr b \<Rightarrow> if length b = 32 then Inr b else Inl (''expected 32 bytes, got '' @ show_nat (length b)))"

definition image_digest_hex :: "string \<Rightarrow> no_claim + string" where
  "image_digest_hex bldimg_digest =
     (case split_once bldimg_digest ''@sha256:'' of
        Some (_, hex) \<Rightarrow> Inr hex
      | None \<Rightarrow> Inl (Malformed (''bldimg_digest is not a `repo@sha256:'' @ ELLIPSIS @ ''` reference: '' @ bldimg_digest)))"

definition field32 :: "libs \<Rightarrow> string \<Rightarrow> string \<Rightarrow> no_claim + bytes" where
  "field32 l name hex = map_err (\<lambda>e. Malformed (name @ '': '' @ e)) (hex32 l hex)"

definition from_report :: "libs \<Rightarrow> report \<Rightarrow> no_claim + claim" where
  "from_report l rep =
     rbind (ok_or NoImageDigest (rp_bldimg_digest rep)) (\<lambda>bldimg.
     rbind (image_digest_hex bldimg) (\<lambda>hex.
     rbind (field32 l ''bldimg_digest'' hex) (\<lambda>bldimg_digest.
     rbind (field32 l ''expected_wasm_sha256'' (rp_expected rep)) (\<lambda>wasm_hash.
     rbind (field32 l ''source_sha256'' (rp_source_sha256 rep)) (\<lambda>source_sha256.
     rbind (field32 l ''rebuilt_wasm_sha256'' (rp_rebuilt rep)) (\<lambda>rebuilt_hash.
     Inr \<lparr>cl_wasm_hash = wasm_hash,
          cl_input_digest = input_digest l source_sha256 bldimg_digest (rp_bldopt rep),
          cl_rebuilt_hash = rebuilt_hash\<rparr>))))))"

section \<open>One layout\<close>

lemma fold_append_option:
  "fold append_option opts buf = buf @ concat (map (\<lambda>x. to_be_bytes (of_nat (length x)) @ x) opts)"
  by (induction opts arbitrary: buf) (simp_all add: append_option_def)

lemma fold_update_hash:
  "concat (fold (\<lambda>opt h. update_hash opt (update_hash (to_be_bytes (of_nat (length opt))) h)) opts h) =
     concat h @ concat (map (\<lambda>x. to_be_bytes (of_nat (length x)) @ x) opts)"
  by (induction opts arbitrary: h) (simp_all add: update_hash_def)

lemma same_domain: "DOMAIN = REGISTRY_DOMAIN"
  by (simp add: DOMAIN_def REGISTRY_DOMAIN_def)

lemma digest_layouts:
  "input_digest l source_sha256 bldimg_digest bldopt =
     claim_input_digest (lib_sha256 l) source_sha256 bldimg_digest bldopt"
  by (simp add: input_digest_def claim_input_digest_def claim_buffer_def finalize_hash_def Let_def
      fold_append_option fold_update_hash) (simp add: update_hash_def same_domain)

text \<open>
  Property C25. The API and the registry contract compute the same claim digest from the same source
  hash, image digest and flags.
\<close>

theorem claim_digests_agree:
  "input_digest l source_sha256 bldimg_digest bldopt =
     claim_input_digest (lib_sha256 l) source_sha256 bldimg_digest bldopt"
  by (rule digest_layouts)

section \<open>Decoding the layout\<close>

definition from_be_bytes :: "bytes \<Rightarrow> nat" where
  "from_be_bytes bs = fold (\<lambda>b n. 256 * n + byte b) bs 0"

fun take_options :: "nat \<Rightarrow> bytes \<Rightarrow> bytes list option" where
  "take_options 0 bs = (if bs = [] then Some [] else None)"
| "take_options (Suc n) bs =
     (let len = from_be_bytes (take 4 bs); rest = drop 4 bs in
      if length bs < 4 \<or> length rest < len then None
      else map_option (\<lambda>os. take len rest # os) (take_options n (drop len rest)))"

definition decode_claim :: "bytes \<Rightarrow> (bytes \<times> bytes \<times> bytes list) option" where
  "decode_claim bs =
     (let k = length REGISTRY_DOMAIN; rest = drop (k + 68) bs in
      if take k bs \<noteq> REGISTRY_DOMAIN \<or> length bs < k + 68 then None
      else map_option (\<lambda>os. (take 32 (drop k bs), take 32 (drop (k + 32) bs), os))
        (take_options (from_be_bytes (take 4 (drop (k + 64) bs))) rest))"

lemma length_to_be_bytes [simp]: "length (to_be_bytes w) = 4"
  by (simp add: to_be_bytes_def)

lemma from_to_be_bytes: "from_be_bytes (to_be_bytes w) = unat w"
proof -
  let ?n = "unat w"
  have "?n < 2 ^ 32" using unsigned_less [of w] by simp
  then have small: "?n div 256 div 256 div 256 mod 256 = ?n div 256 div 256 div 256"
    by (simp add: div_mult2_eq [symmetric] less_mult_imp_div_less)
  have fields: "?n div 16777216 = ?n div 256 div 256 div 256" "?n div 65536 = ?n div 256 div 256"
    by (simp_all add: div_mult2_eq [symmetric])
  have "256 * (256 * (256 * (?n div 256 div 256 div 256 mod 256) + ?n div 256 div 256 mod 256) +
      ?n div 256 mod 256) + ?n mod 256 = ?n"
    by (simp only: small mult_div_mod_eq)
  moreover have shifted: "unat (drop_bit k w) = ?n div 2 ^ k" for k
    by (simp only: unat_drop_bit_eq) (simp only: drop_bit_eq_div)
  moreover have "byte (chr n) = n mod 256" for n by simp
  ultimately show ?thesis
    by (simp only: from_be_bytes_def to_be_bytes_def list.map fold_simps shifted) (simp add: fields)
qed

lemma take_options_encode:
  assumes "list_all (\<lambda>x. length x < 2 ^ 32) opts"
  shows "take_options (length opts) (concat (map (\<lambda>x. to_be_bytes (of_nat (length x)) @ x) opts)) = Some opts"
  using assms
proof (induction opts)
  case Nil
  then show ?case by simp
next
  case (Cons opt opts)
  then have "unat (of_nat (length opt) :: 32 word) = length opt"
    by (simp add: unsigned_of_nat take_bit_nat_eq_self)
  with Cons show ?case by (simp add: from_to_be_bytes Let_def)
qed

lemma claim_buffer_eq:
  "claim_buffer src img opts = REGISTRY_DOMAIN @ src @ img @ to_be_bytes (of_nat (length opts)) @
     concat (map (\<lambda>x. to_be_bytes (of_nat (length x)) @ x) opts)"
  by (simp add: claim_buffer_def fold_append_option)

lemma decode_claim_buffer:
  assumes "length src = 32" and "length img = 32" and "length opts < 2 ^ 32"
    and "list_all (\<lambda>x. length x < 2 ^ 32) opts"
  shows "decode_claim (claim_buffer src img opts) = Some (src, img, opts)"
proof -
  have count: "from_be_bytes (to_be_bytes (of_nat (length opts))) = length opts"
    using assms(3) by (simp add: from_to_be_bytes unsigned_of_nat take_bit_nat_eq_self)
  let ?rest = "concat (map (\<lambda>x. to_be_bytes (of_nat (length x)) @ x) opts)"
  have len: "length REGISTRY_DOMAIN + 68 \<le> length (claim_buffer src img opts)"
    using assms(1,2) by (simp add: claim_buffer_eq)
  have parts: "take (length REGISTRY_DOMAIN) (claim_buffer src img opts) = REGISTRY_DOMAIN"
    "take 32 (drop (length REGISTRY_DOMAIN) (claim_buffer src img opts)) = src"
    "take 32 (drop (length REGISTRY_DOMAIN + 32) (claim_buffer src img opts)) = img"
    "take 4 (drop (length REGISTRY_DOMAIN + 64) (claim_buffer src img opts)) = to_be_bytes (of_nat (length opts))"
    "drop (length REGISTRY_DOMAIN + 68) (claim_buffer src img opts) = ?rest"
    using assms(1,2) by (simp_all add: claim_buffer_eq)
  show ?thesis
    using len by (simp add: decode_claim_def Let_def parts count take_options_encode [OF assms(4)])
qed

text \<open>
  Property C26. The hashed layout decodes back to the question. For 32-byte hashes, fewer than 2^32
  flags and flags shorter than 2^32 bytes, the buffer determines source, image and every flag.
\<close>

theorem claim_round_trip:
  assumes "length src = 32" and "length img = 32" and "length opts < 2 ^ 32"
    and "list_all (\<lambda>x. length x < 2 ^ 32) opts"
  shows "decode_claim (claim_buffer src img opts) = Some (src, img, opts)"
  by (rule decode_claim_buffer [OF assms])

theorem claim_round_trip_witness:
  "decode_claim (claim_buffer (replicate 32 CHR ''s'') (replicate 32 CHR ''i'') [''--optimize'', []]) =
     Some (replicate 32 CHR ''s'', replicate 32 CHR ''i'', [''--optimize'', []])"
  by (rule claim_round_trip) simp_all

end
