(* ===== verification/Db.thy ===== *)
theory Db
  imports Reproduce
begin

text \<open>
  The result cache and attestation outbox, \<open>crates/api/src/db.rs\<close>. A table is the list of its rows in
  rowid order, an SQL statement is the function on that list it describes, \<open>strftime('now')\<close> is the
  parameter \<open>now\<close> in whole seconds. Status columns hold text, as in the schema, and are parsed when a
  row is read; the JSON columns hold the values their round trip through serde returns. Failures of
  SQLite itself are left to the callers (\<open>Service\<close>, \<open>Outbox\<close>).
\<close>

section \<open>Rows\<close>

datatype job_status = Job_Pending | Job_Verified | Job_Mismatch | Job_Error

fun job_as_str :: "job_status \<Rightarrow> string" where
  "job_as_str Job_Pending = ''pending''"
| "job_as_str Job_Verified = ''verified''"
| "job_as_str Job_Mismatch = ''mismatch''"
| "job_as_str Job_Error = ''error''"

definition job_parse :: "string \<Rightarrow> string + job_status" where
  "job_parse s =
     (if s = ''pending'' then Inr Job_Pending
      else if s = ''verified'' then Inr Job_Verified
      else if s = ''mismatch'' then Inr Job_Mismatch
      else if s = ''error'' then Inr Job_Error
      else Inl (''unknown job status in db: '' @ s))"

datatype attestation_status = Att_Pending | Att_Submitted | Att_Rejected

fun att_as_str :: "attestation_status \<Rightarrow> string" where
  "att_as_str Att_Pending = ''pending''"
| "att_as_str Att_Submitted = ''submitted''"
| "att_as_str Att_Rejected = ''rejected''"

definition att_parse :: "string \<Rightarrow> string + attestation_status" where
  "att_parse s =
     (if s = ''pending'' then Inr Att_Pending
      else if s = ''submitted'' then Inr Att_Submitted
      else if s = ''rejected'' then Inr Att_Rejected
      else Inl (''unknown attestation status in db: '' @ s))"

lemma job_round_trip [simp]: "job_parse (job_as_str s) = Inr s"
  by (cases s) (simp_all add: job_parse_def)

lemma att_round_trip [simp]: "att_parse (att_as_str s) = Inr s"
  by (cases s) (simp_all add: att_parse_def)

lemma job_as_str_inj [simp]: "job_as_str s = job_as_str t \<longleftrightarrow> s = t"
  by (cases s; cases t) simp_all

lemma att_as_str_inj [simp]: "att_as_str s = att_as_str t \<longleftrightarrow> s = t"
  by (cases s; cases t) simp_all

text \<open>A row with its status as text is a row of the table; with it parsed, what the API serves.\<close>

record 's verification_row =
  vr_id :: int
  vr_contract_id :: "string option"
  vr_wasm_hash :: string
  vr_source :: source_ref
  vr_bldimg :: string
  vr_status :: 's
  vr_report :: "report option"
  vr_error :: "string option"
  vr_created_at :: nat
  vr_updated_at :: nat

record 's attestation_row =
  ar_id :: int
  ar_verification_id :: int
  ar_wasm_hash :: string
  ar_input_digest :: string
  ar_rebuilt_hash :: string
  ar_status :: 's
  ar_tx_hash :: "string option"
  ar_attempts :: int
  ar_last_error :: "string option"
  ar_next_attempt_at :: nat
  ar_created_at :: nat
  ar_updated_at :: nat

definition row_from_sql :: "string verification_row \<Rightarrow> string + job_status verification_row" where
  "row_from_sql r = rbind (job_parse (vr_status r)) (\<lambda>st.
     Inr \<lparr>vr_id = vr_id r, vr_contract_id = vr_contract_id r, vr_wasm_hash = vr_wasm_hash r,
          vr_source = vr_source r, vr_bldimg = vr_bldimg r, vr_status = st, vr_report = vr_report r,
          vr_error = vr_error r, vr_created_at = vr_created_at r, vr_updated_at = vr_updated_at r\<rparr>)"

definition attestation_from_sql ::
  "string attestation_row \<Rightarrow> string + attestation_status attestation_row" where
  "attestation_from_sql r = rbind (att_parse (ar_status r)) (\<lambda>st.
     Inr \<lparr>ar_id = ar_id r, ar_verification_id = ar_verification_id r, ar_wasm_hash = ar_wasm_hash r,
          ar_input_digest = ar_input_digest r, ar_rebuilt_hash = ar_rebuilt_hash r, ar_status = st,
          ar_tx_hash = ar_tx_hash r, ar_attempts = ar_attempts r, ar_last_error = ar_last_error r,
          ar_next_attempt_at = ar_next_attempt_at r, ar_created_at = ar_created_at r,
          ar_updated_at = ar_updated_at r\<rparr>)"

text \<open>A query row that does not parse fails the whole query.\<close>

fun map_rows :: "('a \<Rightarrow> string + 'b) \<Rightarrow> 'a list \<Rightarrow> string + 'b list" where
  "map_rows f [] = Inr []"
| "map_rows f (x # xs) = rbind (f x) (\<lambda>y. rbind (map_rows f xs) (\<lambda>ys. Inr (y # ys)))"

definition optional_row :: "('a \<Rightarrow> string + 'b) \<Rightarrow> 'a option \<Rightarrow> string + 'b option" where
  "optional_row f r = (case r of None \<Rightarrow> Inr None | Some x \<Rightarrow> rbind (f x) (\<lambda>y. Inr (Some y)))"

section \<open>Schema\<close>

datatype schema_object = Verifications_Table | Attestations_Table

record db =
  db_version :: nat
  db_schema :: "schema_object list"
  db_verifications :: "string verification_row list"
  db_attestations :: "string attestation_row list"

definition MIGRATIONS :: "schema_object list" where
  "MIGRATIONS = [Verifications_Table, Attestations_Table]"

definition MAX_PAGE :: nat where "MAX_PAGE = 200"

text \<open>\<open>CREATE TABLE IF NOT EXISTS\<close> and the version bump, in one transaction.\<close>

definition apply_migration :: "nat \<Rightarrow> db \<Rightarrow> db" where
  "apply_migration version d =
     d\<lparr>db_schema := List.insert (MIGRATIONS ! (version - 1)) (db_schema d), db_version := version\<rparr>"

definition migrate :: "db \<Rightarrow> string + db" where
  "migrate d =
     (let applied = db_version d; target = length MIGRATIONS in
      if target < applied
      then Inl (''database schema version '' @ show_nat applied @ '' is newer than this build understands ('' @
        show_nat target @ ''); run the newer build or restore a compatible backup'')
      else Inr (fold apply_migration [applied + 1..<target + 1] d))"

definition empty_db :: db where
  "empty_db = \<lparr>db_version = 0, db_schema = [], db_verifications = [], db_attestations = []\<rparr>"

section \<open>Verifications\<close>

text \<open>An \<open>INTEGER PRIMARY KEY\<close> without a value gets one more than the largest in the table.\<close>

definition next_id :: "int list \<Rightarrow> int" where
  "next_id ids = foldr max ids 0 + 1"

definition insert_pending ::
  "libs \<Rightarrow> nat \<Rightarrow> string option \<Rightarrow> string \<Rightarrow> source_ref \<Rightarrow> string \<Rightarrow> db \<Rightarrow> int \<times> db" where
  "insert_pending l now contract_id wasm_hash source bldimg d =
     (let i = next_id (map vr_id (db_verifications d)) in
      (i, d\<lparr>db_verifications := db_verifications d @
             [\<lparr>vr_id = i, vr_contract_id = contract_id, vr_wasm_hash = lib_lowercase l wasm_hash,
               vr_source = source, vr_bldimg = bldimg, vr_status = ''pending'', vr_report = None,
               vr_error = None, vr_created_at = now, vr_updated_at = now\<rparr>]\<rparr>))"

definition update_where :: "('r \<Rightarrow> bool) \<Rightarrow> ('r \<Rightarrow> 'r) \<Rightarrow> 'r list \<Rightarrow> 'r list" where
  "update_where p f = map (\<lambda>r. if p r then f r else r)"

definition complete :: "nat \<Rightarrow> int \<Rightarrow> job_status \<Rightarrow> report \<Rightarrow> db \<Rightarrow> db" where
  "complete now i status rep d = d\<lparr>db_verifications := update_where (\<lambda>r. vr_id r = i)
     (\<lambda>r. r\<lparr>vr_status := job_as_str status, vr_report := Some rep, vr_updated_at := now\<rparr>) (db_verifications d)\<rparr>"

definition fail :: "nat \<Rightarrow> int \<Rightarrow> string \<Rightarrow> db \<Rightarrow> db" where
  "fail now i error d = d\<lparr>db_verifications := update_where (\<lambda>r. vr_id r = i)
     (\<lambda>r. r\<lparr>vr_status := ''error'', vr_error := Some error, vr_updated_at := now\<rparr>) (db_verifications d)\<rparr>"

definition fail_orphaned_pending :: "nat \<Rightarrow> string \<Rightarrow> db \<Rightarrow> nat \<times> db" where
  "fail_orphaned_pending now error d =
     (length (filter (\<lambda>r. vr_status r = ''pending'') (db_verifications d)),
      d\<lparr>db_verifications := update_where (\<lambda>r. vr_status r = ''pending'')
        (\<lambda>r. r\<lparr>vr_status := ''error'', vr_error := Some error, vr_updated_at := now\<rparr>) (db_verifications d)\<rparr>)"

definition get_row :: "int \<Rightarrow> db \<Rightarrow> string + job_status verification_row option" where
  "get_row i d = optional_row row_from_sql (find (\<lambda>r. vr_id r = i) (db_verifications d))"

text \<open>\<open>ORDER BY id DESC LIMIT 1\<close>: the last matching row, the list being in rowid order.\<close>

definition lookup :: "libs \<Rightarrow> string \<Rightarrow> db \<Rightarrow> string + job_status verification_row option" where
  "lookup l key d = optional_row row_from_sql
     (find (\<lambda>r. vr_contract_id r = Some key \<or> vr_wasm_hash r = lib_lowercase l key)
        (rev (db_verifications d)))"

definition recent :: "nat \<Rightarrow> nat \<Rightarrow> db \<Rightarrow> string + job_status verification_row list" where
  "recent limit offset d =
     map_rows row_from_sql (take (min limit MAX_PAGE) (drop offset (rev (db_verifications d))))"

definition count_rows :: "db \<Rightarrow> nat" where
  "count_rows d = length (db_verifications d)"

section \<open>The attestation outbox\<close>

text \<open>\<open>INSERT OR IGNORE\<close> under \<open>UNIQUE (verification_id)\<close>.\<close>

definition enqueue_attestation ::
  "libs \<Rightarrow> nat \<Rightarrow> int \<Rightarrow> string \<Rightarrow> string \<Rightarrow> string \<Rightarrow> db \<Rightarrow> int option \<times> db" where
  "enqueue_attestation l now verification_id wasm_hash input_digest rebuilt_hash d =
     (if \<exists>r \<in> set (db_attestations d). ar_verification_id r = verification_id then (None, d)
      else let i = next_id (map ar_id (db_attestations d)) in
        (Some i, d\<lparr>db_attestations := db_attestations d @
           [\<lparr>ar_id = i, ar_verification_id = verification_id, ar_wasm_hash = lib_lowercase l wasm_hash,
             ar_input_digest = lib_lowercase l input_digest, ar_rebuilt_hash = lib_lowercase l rebuilt_hash,
             ar_status = ''pending'', ar_tx_hash = None, ar_attempts = 0, ar_last_error = None,
             ar_next_attempt_at = now, ar_created_at = now, ar_updated_at = now\<rparr>]\<rparr>))"

definition due_attestation :: "nat \<Rightarrow> db \<Rightarrow> string + attestation_status attestation_row option" where
  "due_attestation now d = optional_row attestation_from_sql
     (find (\<lambda>r. ar_status r = ''pending'' \<and> ar_next_attempt_at r \<le> now) (db_attestations d))"

definition seconds_until_next_attestation :: "nat \<Rightarrow> db \<Rightarrow> int option" where
  "seconds_until_next_attestation now d =
     (case map ar_next_attempt_at (filter (\<lambda>r. ar_status r = ''pending'') (db_attestations d)) of
        [] \<Rightarrow> None
      | t # ts \<Rightarrow> Some (int (fold min ts t) - int now))"

definition finish_attestation ::
  "nat \<Rightarrow> int \<Rightarrow> attestation_status \<Rightarrow> string option \<Rightarrow> string option \<Rightarrow> db \<Rightarrow> db" where
  "finish_attestation now i status tx_hash error d = d\<lparr>db_attestations := update_where (\<lambda>r. ar_id r = i)
     (\<lambda>r. r\<lparr>ar_status := att_as_str status, ar_tx_hash := tx_hash, ar_last_error := error,
            ar_attempts := ar_attempts r + 1, ar_updated_at := now\<rparr>) (db_attestations d)\<rparr>"

definition attestation_submitted :: "nat \<Rightarrow> int \<Rightarrow> string option \<Rightarrow> db \<Rightarrow> db" where
  "attestation_submitted now i tx_hash = finish_attestation now i Att_Submitted tx_hash None"

definition attestation_rejected :: "nat \<Rightarrow> int \<Rightarrow> string \<Rightarrow> db \<Rightarrow> db" where
  "attestation_rejected now i reason = finish_attestation now i Att_Rejected None (Some reason)"

text \<open>The update and the read back of the attempt count; reading a row that is not there is an error.\<close>

definition attestation_retry_later :: "nat \<Rightarrow> int \<Rightarrow> string \<Rightarrow> nat \<Rightarrow> db \<Rightarrow> (string + int) \<times> db" where
  "attestation_retry_later now i error delay d =
     (let d' = d\<lparr>db_attestations := update_where (\<lambda>r. ar_id r = i)
        (\<lambda>r. r\<lparr>ar_last_error := Some error, ar_attempts := ar_attempts r + 1,
               ar_next_attempt_at := now + delay, ar_updated_at := now\<rparr>) (db_attestations d)\<rparr> in
      (case find (\<lambda>r. ar_id r = i) (db_attestations d') of
         None \<Rightarrow> Inl ''reading attestation attempt count''
       | Some r \<Rightarrow> Inr (ar_attempts r), d'))"

definition attestation_for :: "int \<Rightarrow> db \<Rightarrow> string + attestation_status attestation_row option" where
  "attestation_for verification_id d = optional_row attestation_from_sql
     (find (\<lambda>r. ar_verification_id r = verification_id) (db_attestations d))"

end
