(* ===== verification/DbProps.thy ===== *)
theory DbProps
  imports Db
begin

text \<open>
  What the cache promises. Rows keep their ids and their order under every statement
  (\<open>keyed_update\<close>), the tables stay well formed (\<open>db_inv\<close>), and the store behaves as a set of
  pending jobs to the service that runs them (\<open>job_store\<close>).
\<close>

section \<open>Statements that keep the primary key\<close>

definition ids_ordered :: "int list \<Rightarrow> bool" where
  "ids_ordered ids \<longleftrightarrow> sorted_wrt (<) ids \<and> list_all (\<lambda>i. 0 < i) ids"

lemma next_id_greater: "i \<in> set ids \<Longrightarrow> i < next_id ids"
  unfolding next_id_def by (induction ids) auto

lemma next_id_pos: "0 < next_id ids"
proof -
  have "0 \<le> foldr max ids (0 :: int)" by (induction ids) auto
  then show ?thesis by (simp add: next_id_def)
qed

lemma ids_ordered_next: "ids_ordered ids \<Longrightarrow> ids_ordered (ids @ [next_id ids])"
  by (simp add: ids_ordered_def sorted_wrt_append next_id_greater next_id_pos)

lemma ids_ordered_distinct: "ids_ordered ids \<Longrightarrow> distinct ids"
  by (simp add: ids_ordered_def strict_sorted_iff)

locale keyed_update =
  fixes key :: "'r \<Rightarrow> int" and f :: "'r \<Rightarrow> 'r"
  assumes key_kept: "key (f r) = key r"
begin

lemma keys_kept: "map key (update_where p f rows) = map key rows"
  by (simp add: update_where_def key_kept)

lemma find_other:
  assumes "\<And>r. key r = i \<Longrightarrow> \<not> p r"
  shows "find (\<lambda>r. key r = i) (update_where p f rows) = find (\<lambda>r. key r = i) rows"
  using assms by (induction rows) (auto simp: update_where_def key_kept)

lemma find_hit:
  assumes "\<And>r. key r = i \<Longrightarrow> p r"
  shows "find (\<lambda>r. key r = i) (update_where p f rows) = map_option f (find (\<lambda>r. key r = i) rows)"
  using assms by (induction rows) (auto simp: update_where_def key_kept)

end

interpretation complete_stmt: keyed_update vr_id
  "\<lambda>r. r\<lparr>vr_status := job_as_str status, vr_report := Some rep, vr_updated_at := now\<rparr>" for status rep now
  by unfold_locales simp

interpretation fail_stmt: keyed_update vr_id
  "\<lambda>r. r\<lparr>vr_status := ''error'', vr_error := Some error, vr_updated_at := now\<rparr>" for error now
  by unfold_locales simp

interpretation finish_stmt: keyed_update ar_id
  "\<lambda>r. r\<lparr>ar_status := att_as_str status, ar_tx_hash := tx_hash, ar_last_error := error,
         ar_attempts := ar_attempts r + 1, ar_updated_at := now\<rparr>" for status tx_hash error now
  by unfold_locales simp

interpretation retry_stmt: keyed_update ar_id
  "\<lambda>r. r\<lparr>ar_last_error := Some error, ar_attempts := ar_attempts r + 1,
         ar_next_attempt_at := now + delay, ar_updated_at := now\<rparr>" for error delay now
  by unfold_locales simp

section \<open>Well-formed tables\<close>

definition status_known :: "string verification_row \<Rightarrow> bool" where
  "status_known r \<longleftrightarrow> vr_status r \<in> {''pending'', ''verified'', ''mismatch'', ''error''}"

definition att_status_known :: "string attestation_row \<Rightarrow> bool" where
  "att_status_known r \<longleftrightarrow> ar_status r \<in> {''pending'', ''submitted'', ''rejected''}"

definition db_inv :: "db \<Rightarrow> bool" where
  "db_inv d \<longleftrightarrow> ids_ordered (map vr_id (db_verifications d)) \<and>
     list_all status_known (db_verifications d) \<and>
     ids_ordered (map ar_id (db_attestations d)) \<and>
     list_all att_status_known (db_attestations d) \<and>
     distinct (map ar_verification_id (db_attestations d))"

lemma update_where_all:
  assumes "list_all p rows" and "\<And>r. p r \<Longrightarrow> p (f r)"
  shows "list_all p (update_where q f rows)"
  using assms by (induction rows) (auto simp: update_where_def)

lemma job_as_str_known: "job_as_str s \<in> {''pending'', ''verified'', ''mismatch'', ''error''}"
  by (cases s) simp_all

lemma att_as_str_known: "att_as_str s \<in> {''pending'', ''submitted'', ''rejected''}"
  by (cases s) simp_all

lemma ver_ids_kept:
  assumes "\<And>r. ar_verification_id (f r) = ar_verification_id r"
  shows "map ar_verification_id (update_where p f rows) = map ar_verification_id rows"
  using assms by (simp add: update_where_def)

lemma db_inv_empty: "db_inv empty_db"
  by (simp add: db_inv_def empty_db_def ids_ordered_def)

lemma db_inv_insert_pending:
  assumes "db_inv d"
  shows "db_inv (snd (insert_pending l now c h src img d))"
  using assms ids_ordered_next [of "map vr_id (db_verifications d)"]
  by (simp add: db_inv_def insert_pending_def Let_def status_known_def)

lemma db_inv_complete: "db_inv d \<Longrightarrow> db_inv (complete now i status rep d)"
  using job_as_str_known [of status]
  by (auto simp: db_inv_def complete_def complete_stmt.keys_kept status_known_def intro!: update_where_all)

lemma db_inv_fail: "db_inv d \<Longrightarrow> db_inv (fail now i e d)"
  by (auto simp: db_inv_def fail_def fail_stmt.keys_kept status_known_def intro!: update_where_all)

lemma db_inv_fail_orphaned: "db_inv d \<Longrightarrow> db_inv (snd (fail_orphaned_pending now e d))"
  by (auto simp: db_inv_def fail_orphaned_pending_def fail_stmt.keys_kept status_known_def
      intro!: update_where_all)

lemma db_inv_enqueue:
  assumes "db_inv d"
  shows "db_inv (snd (enqueue_attestation l now v w i r d))"
  using assms ids_ordered_next [of "map ar_id (db_attestations d)"]
  by (auto simp: db_inv_def enqueue_attestation_def Let_def att_status_known_def)

lemma db_inv_finish_attestation: "db_inv d \<Longrightarrow> db_inv (finish_attestation now i st tx e d)"
  using att_as_str_known [of st]
  by (auto simp: db_inv_def finish_attestation_def finish_stmt.keys_kept ver_ids_kept att_status_known_def
      intro!: update_where_all)

lemma db_inv_retry_later: "db_inv d \<Longrightarrow> db_inv (snd (attestation_retry_later now i e delay d))"
  by (auto simp: db_inv_def attestation_retry_later_def Let_def retry_stmt.keys_kept ver_ids_kept
      att_status_known_def intro!: update_where_all)

lemmas db_inv_ops = db_inv_insert_pending db_inv_complete db_inv_fail db_inv_fail_orphaned
  db_inv_enqueue db_inv_finish_attestation db_inv_retry_later

text \<open>Well-formed rows always parse.\<close>

lemma row_from_sql_known: "status_known r \<Longrightarrow> \<exists>row. row_from_sql r = Inr row"
  by (auto simp: status_known_def row_from_sql_def job_parse_def)

lemma map_rows_length: "map_rows f xs = Inr ys \<Longrightarrow> length ys = length xs"
  by (induction xs arbitrary: ys) (auto simp: rbind_eq_Inr)

lemma map_rows_append:
  "map_rows f (xs @ ys) = rbind (map_rows f xs) (\<lambda>us. rbind (map_rows f ys) (\<lambda>vs. Inr (us @ vs)))"
proof (induction xs)
  case Nil
  then show ?case by (cases "map_rows f ys") simp_all
next
  case (Cons x xs)
  then show ?case by (cases "f x"; cases "map_rows f xs"; cases "map_rows f ys") simp_all
qed

lemma map_rows_total:
  assumes "list_all p xs" and "\<And>x. p x \<Longrightarrow> \<exists>y. f x = Inr y"
  shows "\<exists>ys. map_rows f xs = Inr ys"
  using assms(1)
proof (induction xs)
  case Nil
  then show ?case by simp
next
  case (Cons x xs)
  with assms(2) [of x] show ?case by auto
qed

section \<open>The cache as one newest-first list\<close>

definition parsed :: "string verification_row \<Rightarrow> job_status verification_row" where
  "parsed r = (case row_from_sql r of Inr row \<Rightarrow> row | Inl _ \<Rightarrow>
     \<lparr>vr_id = vr_id r, vr_contract_id = vr_contract_id r, vr_wasm_hash = vr_wasm_hash r,
      vr_source = vr_source r, vr_bldimg = vr_bldimg r, vr_status = Job_Error, vr_report = vr_report r,
      vr_error = vr_error r, vr_created_at = vr_created_at r, vr_updated_at = vr_updated_at r\<rparr>)"

definition view :: "db \<Rightarrow> job_status verification_row list" where
  "view d = map parsed (rev (db_verifications d))"

lemma parsed_fields [simp]:
  "vr_id (parsed r) = vr_id r" "vr_contract_id (parsed r) = vr_contract_id r"
  "vr_wasm_hash (parsed r) = vr_wasm_hash r" "vr_error (parsed r) = vr_error r"
  "vr_report (parsed r) = vr_report r" "vr_source (parsed r) = vr_source r"
  by (auto simp: parsed_def row_from_sql_def rbind_def split: sum.splits)

lemma parsed_known: "status_known r \<Longrightarrow> row_from_sql r = Inr (parsed r)"
  using row_from_sql_known [of r] by (auto simp: parsed_def)

lemma map_rows_parsed: "list_all status_known rows \<Longrightarrow> map_rows row_from_sql rows = Inr (map parsed rows)"
  by (induction rows) (simp_all add: parsed_known)

lemma find_parsed:
  assumes "list_all status_known rows" and "\<And>r. p r = q (parsed r)"
  shows "optional_row row_from_sql (find p rows) = Inr (find q (map parsed rows))"
  using assms(1) by (induction rows) (simp_all add: optional_row_def parsed_known assms(2))

lemma find_append:
  "find q (xs @ ys) = (case find q xs of None \<Rightarrow> find q ys | Some x \<Rightarrow> Some x)"
  by (induction xs) simp_all

lemma find_rev_distinct:
  assumes "distinct (map key rows)"
  shows "find (\<lambda>r. key r = i) (rev rows) = find (\<lambda>r. key r = i) rows"
  using assms
proof (induction rows)
  case Nil
  then show ?case by simp
next
  case (Cons r rows)
  show ?case
  proof (cases "key r = i")
    case True
    with Cons.prems have "\<forall>x \<in> set rows. key x \<noteq> i" by (simp, metis image_eqI)
    then have "find (\<lambda>r. key r = i) rows = None" by (simp add: find_None_iff)
    with Cons True show ?thesis by (simp add: find_append)
  next
    case False
    with Cons show ?thesis by (simp add: find_append split: option.splits)
  qed
qed

lemma parsed_status:
  "vr_status r = job_as_str st \<Longrightarrow> vr_status (parsed r) = st"
  by (simp add: parsed_def row_from_sql_def)

lemma parsed_update_status:
  "parsed (r\<lparr>vr_status := job_as_str st, vr_report := rep, vr_updated_at := now\<rparr>) =
     (parsed r)\<lparr>vr_status := st, vr_report := rep, vr_updated_at := now\<rparr>"
  by (cases "job_parse (vr_status r)") (simp_all add: parsed_def row_from_sql_def)

lemma parsed_update_error:
  "parsed (r\<lparr>vr_status := ''error'', vr_error := e, vr_updated_at := now\<rparr>) =
     (parsed r)\<lparr>vr_status := Job_Error, vr_error := e, vr_updated_at := now\<rparr>"
  by (cases "job_parse (vr_status r)")
    (simp_all add: parsed_def row_from_sql_def job_parse_def)

lemma parsed_pending:
  assumes "status_known r"
  shows "vr_status (parsed r) = Job_Pending \<longleftrightarrow> vr_status r = ''pending''"
  using assms by (auto simp: status_known_def parsed_def row_from_sql_def job_parse_def)

lemma view_update:
  assumes "\<And>r. r \<in> set (db_verifications d) \<Longrightarrow> p r = q (parsed r)"
    and "\<And>r. parsed (f r) = g (parsed r)"
  shows "map parsed (rev (update_where p f (db_verifications d))) = update_where q g (view d)"
  using assms by (simp add: view_def update_where_def rev_map [symmetric])

lemma view_lookup:
  assumes "db_inv d"
  shows "lookup l key d = Inr (find (\<lambda>r. vr_contract_id r = Some key \<or> vr_wasm_hash r = lib_lowercase l key)
    (view d))"
  using assms unfolding lookup_def view_def db_inv_def
  by (intro find_parsed) (simp_all add: list_all_iff)

lemma view_get:
  assumes "db_inv d"
  shows "get_row i d = Inr (find (\<lambda>r. vr_id r = i) (view d))"
proof -
  have "distinct (map vr_id (db_verifications d))"
    using assms by (simp add: db_inv_def ids_ordered_distinct)
  from find_rev_distinct [OF this, of i]
  have "get_row i d = optional_row row_from_sql (find (\<lambda>r. vr_id r = i) (rev (db_verifications d)))"
    by (simp add: get_row_def)
  also have "\<dots> = Inr (find (\<lambda>r. vr_id r = i) (view d))"
    using assms unfolding view_def db_inv_def by (intro find_parsed) (simp_all add: list_all_iff)
  finally show ?thesis .
qed

lemma view_recent:
  assumes "db_inv d"
  shows "recent limit offset d = Inr (take (min limit MAX_PAGE) (drop offset (view d)))"
proof -
  have "list_all status_known (take (min limit MAX_PAGE) (drop offset (rev (db_verifications d))))"
    using assms by (auto simp: db_inv_def list_all_iff dest!: in_set_takeD in_set_dropD)
  then show ?thesis
    by (simp add: recent_def view_def map_rows_parsed drop_map take_map)
qed

definition pending_row ::
  "libs \<Rightarrow> nat \<Rightarrow> int \<Rightarrow> string option \<Rightarrow> string \<Rightarrow> source_ref \<Rightarrow> string \<Rightarrow> job_status verification_row" where
  "pending_row l now i contract_id wasm_hash source bldimg =
     \<lparr>vr_id = i, vr_contract_id = contract_id, vr_wasm_hash = lib_lowercase l wasm_hash,
      vr_source = source, vr_bldimg = bldimg, vr_status = Job_Pending, vr_report = None,
      vr_error = None, vr_created_at = now, vr_updated_at = now\<rparr>"

lemma view_insert:
  "view (snd (insert_pending l now c h src img d)) =
     pending_row l now (fst (insert_pending l now c h src img d)) c h src img # view d"
  by (simp add: view_def insert_pending_def Let_def pending_row_def parsed_def row_from_sql_def job_parse_def)

lemma view_complete:
  "view (complete now i st rep d) = update_where (\<lambda>r. vr_id r = i)
     (\<lambda>r. r\<lparr>vr_status := st, vr_report := Some rep, vr_updated_at := now\<rparr>) (view d)"
  unfolding complete_def view_def [of "d\<lparr>db_verifications := x\<rparr>" for x]
  by (simp, rule view_update) (simp_all add: parsed_update_status)

lemma view_fail:
  "view (fail now i e d) = update_where (\<lambda>r. vr_id r = i)
     (\<lambda>r. r\<lparr>vr_status := Job_Error, vr_error := Some e, vr_updated_at := now\<rparr>) (view d)"
  unfolding fail_def view_def [of "d\<lparr>db_verifications := x\<rparr>" for x]
  by (simp, rule view_update) (simp_all add: parsed_update_error)

lemma view_fail_orphaned:
  assumes "db_inv d"
  shows "view (snd (fail_orphaned_pending now e d)) = update_where (\<lambda>r. vr_status r = Job_Pending)
     (\<lambda>r. r\<lparr>vr_status := Job_Error, vr_error := Some e, vr_updated_at := now\<rparr>) (view d)"
  unfolding fail_orphaned_pending_def snd_conv view_def [of "d\<lparr>db_verifications := x\<rparr>" for x]
  using assms
  by (simp, intro view_update) (auto simp: parsed_update_error parsed_pending db_inv_def list_all_iff)

lemma view_ids: "map vr_id (view d) = rev (map vr_id (db_verifications d))"
  by (simp add: view_def rev_map comp_def)

lemma view_newest_first: "db_inv d \<Longrightarrow> sorted_wrt (\<lambda>a b. vr_id b < vr_id a) (view d)"
  by (simp add: db_inv_def ids_ordered_def view_def sorted_wrt_map sorted_wrt_rev)

text \<open>
  Property C22. The cache implements one newest-first list of verifications. Every read returns what
  the same query gives on that list (by id, newest by contract id or hash, a page clamped to 200
  rows, the count), and every write is the corresponding list operation: a new pending row in front
  under an id above all others, or an update of exactly the addressed rows.
\<close>

theorem cache_refines:
  assumes "db_inv d"
  shows "sorted_wrt (\<lambda>a b. vr_id b < vr_id a) (view d) \<and>
    get_row i d = Inr (find (\<lambda>r. vr_id r = i) (view d)) \<and>
    lookup l key d = Inr (find (\<lambda>r. vr_contract_id r = Some key \<or> vr_wasm_hash r = lib_lowercase l key) (view d)) \<and>
    recent limit offset d = Inr (take (min limit 200) (drop offset (view d))) \<and>
    count_rows d = length (view d) \<and>
    (case insert_pending l now c h src img d of (j, d1) \<Rightarrow>
       view d1 = pending_row l now j c h src img # view d \<and> list_all (\<lambda>r. vr_id r < j) (view d)) \<and>
    view (complete now i st rep d) = update_where (\<lambda>r. vr_id r = i)
      (\<lambda>r. r\<lparr>vr_status := st, vr_report := Some rep, vr_updated_at := now\<rparr>) (view d) \<and>
    view (fail now i e d) = update_where (\<lambda>r. vr_id r = i)
      (\<lambda>r. r\<lparr>vr_status := Job_Error, vr_error := Some e, vr_updated_at := now\<rparr>) (view d) \<and>
    view (snd (fail_orphaned_pending now e d)) = update_where (\<lambda>r. vr_status r = Job_Pending)
      (\<lambda>r. r\<lparr>vr_status := Job_Error, vr_error := Some e, vr_updated_at := now\<rparr>) (view d)"
proof -
  have "list_all (\<lambda>r. vr_id r < j) (view d)" if "j = next_id (map vr_id (db_verifications d))" for j
    using that by (auto simp: list_all_iff view_def intro!: next_id_greater)
  then have "case insert_pending l now c h src img d of (j, d1) \<Rightarrow>
      view d1 = pending_row l now j c h src img # view d \<and> list_all (\<lambda>r. vr_id r < j) (view d)"
    using view_insert [of l now c h src img d] by (simp add: insert_pending_def Let_def)
  moreover have "count_rows d = length (view d)" by (simp add: count_rows_def view_def)
  ultimately show ?thesis
    using assms
    by (simp add: view_get view_lookup view_recent MAX_PAGE_def view_complete view_fail
        view_fail_orphaned view_newest_first)
qed

text \<open>Two jobs for the same contract, the newer one still running.\<close>

definition demo_db :: db where
  "demo_db = snd (insert_pending demo_libs 5 (Some ''CA'') ''AB'' (Git ''r'' ''2'') ''img''
     (fail 4 1 ''e'' (snd (insert_pending demo_libs 3 (Some ''CA'') ''AB'' (Git ''r'' ''1'') ''img'' empty_db))))"

lemma demo_db_inv: "db_inv demo_db"
  unfolding demo_db_def by (intro db_inv_ops db_inv_empty)

lemma demo_db_view: "map (\<lambda>r. (vr_id r, vr_status r)) (view demo_db) = [(2, Job_Pending), (1, Job_Error)]"
  by code_simp

theorem cache_refines_witness:
  "\<exists>r. lookup demo_libs ''CA'' demo_db = Inr (Some r) \<and> vr_id r = 2 \<and> count_rows demo_db = 2"
proof -
  note refines = cache_refines [OF demo_db_inv]
  have "map vr_id (filter (\<lambda>r. vr_contract_id r = Some ''CA'') (view demo_db)) = [2, 1]" by code_simp
  then obtain r rest where v: "view demo_db = r # rest" and r: "vr_contract_id r = Some ''CA''" "vr_id r = 2"
    using demo_db_view by (cases "view demo_db") (auto split: if_splits)
  have "lookup demo_libs ''CA'' demo_db = Inr (Some r)" using refines [of 0 demo_libs "''CA''"] v r by simp
  moreover have "count_rows demo_db = 2" using refines arg_cong [OF demo_db_view, of length] by simp
  ultimately show ?thesis using r by blast
qed

section \<open>Paging\<close>

lemma pages_concat:
  "concat (map (\<lambda>i. take k (drop (i * k) xs)) [0..<n]) = take (n * k) xs"
proof (induction n)
  case 0
  then show ?case by simp
next
  case (Suc n)
  have "take (n * k + k) xs = take (n * k) xs @ take k (drop (n * k) xs)" by (rule take_add)
  with Suc show ?case by (simp add: add.commute)
qed

text \<open>
  Walking the public listing page by page, with any page size the server accepts and
  no write in between, yields every verification exactly once, newest first; no single page
  exceeds 200 rows whatever limit is asked for.
\<close>

theorem pages_cover:
  assumes "db_inv d" and "0 < k" and "k \<le> MAX_PAGE" and "count_rows d \<le> n * k"
  shows "\<exists>pages. map_rows (\<lambda>i. recent k (i * k) d) [0..<n] = Inr pages \<and>
     concat pages = view d \<and> distinct (map vr_id (concat pages)) \<and>
     list_all (\<lambda>page. length page \<le> 200) pages"
proof -
  let ?page = "\<lambda>i. take k (drop (i * k) (view d))"
  have run: "map_rows (\<lambda>i. recent k (i * k) d) js = Inr (map ?page js)" for js
    using assms(3) by (induction js) (simp_all add: view_recent [OF assms(1)])
  have "length (view d) \<le> n * k" using assms(4) by (simp add: count_rows_def view_def)
  then have "concat (map ?page [0..<n]) = view d" by (simp add: pages_concat)
  moreover have "distinct (map vr_id (view d))"
    using assms(1) by (simp add: view_ids db_inv_def ids_ordered_distinct)
  moreover have "list_all (\<lambda>page. length page \<le> 200) (map ?page [0..<n])"
    using assms(3) by (auto simp: list_all_iff MAX_PAGE_def)
  ultimately show ?thesis using run by simp
qed

theorem pages_cover_witness:
  "\<exists>pages. map_rows (\<lambda>i. recent 1 (i * 1) demo_db) [0..<2] = Inr pages \<and> map vr_id (concat pages) = [2, 1]"
proof -
  have "count_rows demo_db \<le> 2 * 1" by code_simp
  with pages_cover [OF demo_db_inv, of 1 2] obtain pages where
    p: "map_rows (\<lambda>i. recent 1 (i * 1) demo_db) [0..<2] = Inr pages" "concat pages = view demo_db"
    by (auto simp: MAX_PAGE_def)
  moreover have "map vr_id (view demo_db) = [2, 1]" by code_simp
  ultimately show ?thesis by simp
qed

text \<open>
  Ordering by id does not make offsets stable: a job submitted between two page reads pushes the last
  row of the first page onto the second.
\<close>

lemma page_repeats_after_insert:
  assumes "db_inv d" and "view d = a # b # rest" and "insert_pending l now c h src img d = (j, d1)"
  shows "recent 1 0 d = Inr [a]" and "recent 1 1 d1 = Inr [a]"
proof -
  show "recent 1 0 d = Inr [a]" using assms by (simp add: view_recent MAX_PAGE_def)
  have "db_inv d1" "view d1 = pending_row l now j c h src img # a # b # rest"
    using db_inv_insert_pending [OF assms(1), of l now c h src img] view_insert [of l now c h src img d] assms
    by simp_all
  then show "recent 1 1 d1 = Inr [a]" by (simp add: view_recent MAX_PAGE_def)
qed

section \<open>A store of jobs\<close>

text \<open>What the service relies on: jobs are inserted pending under fresh ids and finished once.\<close>

locale job_store =
  fixes inv :: "'d \<Rightarrow> bool" and ids :: "'d \<Rightarrow> int set" and pending :: "'d \<Rightarrow> int set"
    and insert_job :: "'a \<Rightarrow> 'd \<Rightarrow> int \<times> 'd" and finish_job :: "'o \<Rightarrow> int \<Rightarrow> 'd \<Rightarrow> 'd"
  assumes pending_ids: "inv d \<Longrightarrow> pending d \<subseteq> ids d"
    and insert_inv: "inv d \<Longrightarrow> inv (snd (insert_job a d))"
    and insert_fresh: "inv d \<Longrightarrow> fst (insert_job a d) \<notin> ids d"
    and insert_ids: "inv d \<Longrightarrow> ids (snd (insert_job a d)) = insert (fst (insert_job a d)) (ids d)"
    and insert_pends: "inv d \<Longrightarrow> pending (snd (insert_job a d)) = insert (fst (insert_job a d)) (pending d)"
    and finish_inv: "inv d \<Longrightarrow> inv (finish_job out i d)"
    and finish_ids: "inv d \<Longrightarrow> ids (finish_job out i d) = ids d"
    and finish_pends: "inv d \<Longrightarrow> pending (finish_job out i d) = pending d - {i}"
begin

definition tracks :: "'d \<Rightarrow> int list \<Rightarrow> bool" where
  "tracks d jobs \<longleftrightarrow> inv d \<and> distinct jobs \<and> pending d = set jobs"

lemma tracks_insert:
  assumes "tracks d jobs"
  shows "tracks (snd (insert_job a d)) (jobs @ [fst (insert_job a d)])"
  using assms insert_inv [of d a] insert_fresh [of d a] insert_pends [of d a] pending_ids [of d]
  by (auto simp: tracks_def)

lemma tracks_finish:
  assumes "tracks d jobs"
  shows "tracks (finish_job out i d) (removeAll i jobs)"
  using assms finish_inv [of d out i] finish_pends [of d out i] by (auto simp: tracks_def distinct_removeAll)

lemma tracks_fresh:
  assumes "tracks d jobs" shows "fst (insert_job a d) \<notin> set jobs"
  using assms insert_fresh [of d a] pending_ids [of d] by (auto simp: tracks_def)

end

text \<open>How \<open>run_job\<close> records the end of a job (\<open>server.rs\<close>): a report, or why there is none.\<close>

datatype job_end = Reproduced report | Not_Reproduced string

definition outcome_status :: "report \<Rightarrow> job_status" where
  "outcome_status rep = (case rp_result rep of Result_Verified \<Rightarrow> Job_Verified | _ \<Rightarrow> Job_Mismatch)"

fun record_end :: "nat \<Rightarrow> job_end \<Rightarrow> int \<Rightarrow> db \<Rightarrow> db" where
  "record_end now (Reproduced rep) i d = complete now i (outcome_status rep) rep d"
| "record_end now (Not_Reproduced e) i d = fail now i e d"

definition row_ids :: "db \<Rightarrow> int set" where
  "row_ids d = set (map vr_id (db_verifications d))"

definition pending_ids :: "db \<Rightarrow> int set" where
  "pending_ids d = set (map vr_id (filter (\<lambda>r. vr_status r = ''pending'') (db_verifications d)))"

lemma update_where_pending:
  assumes "\<And>r. vr_id (f r) = vr_id r" and "\<And>r. vr_status (f r) \<noteq> ''pending''"
  shows "set (map vr_id (filter (\<lambda>r. vr_status r = ''pending'') (update_where (\<lambda>r. vr_id r = i) f rows))) =
    set (map vr_id (filter (\<lambda>r. vr_status r = ''pending'') rows)) - {i}"
  using assms by (induction rows) (auto simp: update_where_def)

lemma outcome_not_pending: "job_as_str (outcome_status rep) \<noteq> ''pending''"
  by (simp add: outcome_status_def split: verification_result.splits)

lemma record_end_pending:
  "pending_ids (record_end now out i d) = pending_ids d - {i}"
proof (cases out)
  case (Reproduced rep)
  then show ?thesis
    using update_where_pending [of "\<lambda>r. r\<lparr>vr_status := job_as_str (outcome_status rep),
      vr_report := Some rep, vr_updated_at := now\<rparr>" i] outcome_not_pending [of rep]
    by (simp add: pending_ids_def complete_def)
next
  case (Not_Reproduced e)
  then show ?thesis
    using update_where_pending [of "\<lambda>r. r\<lparr>vr_status := ''error'', vr_error := Some e,
      vr_updated_at := now\<rparr>" i]
    by (simp add: pending_ids_def fail_def)
qed

lemma record_end_inv: "db_inv d \<Longrightarrow> db_inv (record_end now out i d)"
  by (cases out) (simp_all add: db_inv_ops)

lemma record_end_row_ids: "row_ids (record_end now out i d) = row_ids d"
  by (cases out) (simp_all add: row_ids_def complete_def fail_def complete_stmt.keys_kept fail_stmt.keys_kept
      del: set_map)

interpretation jobs: job_store db_inv row_ids pending_ids
  "\<lambda>(l, now, c, h, src, img). insert_pending l now c h src img" "\<lambda>(now, out). record_end now out"
proof unfold_locales
  fix d and a :: "libs \<times> nat \<times> string option \<times> string \<times> source_ref \<times> string" and i and out :: "nat \<times> job_end"
  obtain l now c h src img where a: "a = (l, now, c, h, src, img)" by (cases a)
  let ?ins = "(\<lambda>(l, now, c, h, src, img). insert_pending l now c h src img) a d"
  show "pending_ids d \<subseteq> row_ids d" by (auto simp: pending_ids_def row_ids_def)
  show "fst ?ins \<notin> row_ids d"
    using next_id_greater [of _ "map vr_id (db_verifications d)"]
    by (auto simp: a insert_pending_def Let_def row_ids_def dest!: meta_spec)
  show "row_ids (snd ?ins) = insert (fst ?ins) (row_ids d)"
    by (simp add: a insert_pending_def Let_def row_ids_def)
  show "pending_ids (snd ?ins) = insert (fst ?ins) (pending_ids d)"
    by (auto simp: a insert_pending_def Let_def pending_ids_def)
  show "db_inv (snd ?ins)" if "db_inv d"
    using db_inv_insert_pending [OF that] by (simp add: a)
  show "db_inv ((\<lambda>(now, out). record_end now out) out i d)" if "db_inv d"
    using that by (cases out) (simp add: record_end_inv)
  show "row_ids ((\<lambda>(now, out). record_end now out) out i d) = row_ids d"
    by (cases out) (simp add: record_end_row_ids)
  show "pending_ids ((\<lambda>(now, out). record_end now out) out i d) = pending_ids d - {i}"
    by (cases out) (simp add: record_end_pending)
qed

lemma no_pending_after_reconcile: "pending_ids (snd (fail_orphaned_pending now e d)) = {}"
  by (auto simp: pending_ids_def fail_orphaned_pending_def update_where_def)

end
