(* ===== verification/Outbox.thy ===== *)
theory Outbox
  imports ClaimDigest DbProps
begin

text \<open>
  On-chain attestation, \<open>crates/api/src/attest.rs\<close>: queueing a claim, the command that submits it, how
  the CLI's output is read and scrubbed, and the worker that drains the outbox with backoff. Durations
  are whole seconds; what a run of the CLI ends in is a \<open>proc_end\<close>.
\<close>

section \<open>Configuration\<close>

definition TESTNET_PASSPHRASE :: string where "TESTNET_PASSPHRASE = ''Test SDF Network ; September 2015''"
definition IDENTITY_ALIAS :: string where "IDENTITY_ALIAS = ''sorofy-verifier''"
definition INVOKE_TIMEOUT :: nat where "INVOKE_TIMEOUT = 60"
definition RETRY_BASE :: nat where "RETRY_BASE = 5"
definition RETRY_CAP :: nat where "RETRY_CAP = 300"
definition MAX_ATTEMPTS :: int where "MAX_ATTEMPTS = 10"
definition IDLE_POLL :: nat where "IDLE_POLL = 60"

record attest_config =
  ac_cli :: string
  ac_registry_id :: string
  ac_rpc_url :: string
  ac_network_passphrase :: string
  ac_config_home :: string
  ac_address :: string

section \<open>Queueing\<close>

text \<open>\<open>Attestor::enqueue\<close>; \<open>db_ok\<close> is whether the insert succeeds. The disabled attestor does nothing.\<close>

definition enqueue :: "libs \<Rightarrow> bool \<Rightarrow> nat \<Rightarrow> bool \<Rightarrow> int \<Rightarrow> report \<Rightarrow> db \<Rightarrow> db" where
  "enqueue l enabled now db_ok verification_id rep d =
     (if \<not> enabled then d
      else case from_report l rep of
        Inl _ \<Rightarrow> d
      | Inr c \<Rightarrow>
          if \<not> db_ok then d
          else snd (enqueue_attestation l now verification_id (lib_hex l (cl_wasm_hash c))
                      (lib_hex l (cl_input_digest c)) (lib_hex l (cl_rebuilt_hash c)) d))"

section \<open>Reading the CLI\<close>

definition is_digit :: "char \<Rightarrow> bool" where "is_digit c \<longleftrightarrow> in_range 48 57 c"

definition is_alphanumeric :: "char \<Rightarrow> bool" where
  "is_alphanumeric c \<longleftrightarrow> is_digit c \<or> in_range 65 90 c \<or> in_range 97 122 c"

definition is_hexdigit :: "char \<Rightarrow> bool" where
  "is_hexdigit c \<longleftrightarrow> is_digit c \<or> in_range 65 70 c \<or> in_range 97 102 c"

text \<open>\<open>split(p).nth(1)\<close>: the text between the first occurrence of \<open>p\<close> and the next.\<close>

definition second_piece :: "string \<Rightarrow> string \<Rightarrow> string option" where
  "second_piece s p =
     (case split_once s p of
        None \<Rightarrow> None
      | Some (_, rest) \<Rightarrow> Some (case split_once rest p of None \<Rightarrow> rest | Some (u, _) \<Rightarrow> u))"

text \<open>\<open>str::parse::<u32>\<close> on digits.\<close>

definition parse_u32_digits :: "string \<Rightarrow> nat option" where
  "parse_u32_digits s =
     (if s = [] then None
      else case read_digits 0 s of None \<Rightarrow> None | Some n \<Rightarrow> if n \<le> u32_max then Some n else None)"

definition contract_error_code :: "string \<Rightarrow> nat option" where
  "contract_error_code stderr =
     (case second_piece stderr ''Error(Contract, #'' of
        None \<Rightarrow> None
      | Some rest \<Rightarrow> parse_u32_digits (takeWhile is_digit rest))"

definition token_after :: "string \<Rightarrow> string \<Rightarrow> string option" where
  "token_after s marker =
     (case second_piece s marker of
        None \<Rightarrow> None
      | Some rest \<Rightarrow>
          let token = takeWhile is_alphanumeric (trim_start rest) in
          if length token = 64 \<and> list_all is_hexdigit token then Some token else None)"

definition transaction_hash :: "string \<Rightarrow> string option" where
  "transaction_hash stderr =
     (case token_after stderr ''/tx/'' of
        Some t \<Rightarrow> Some t
      | None \<Rightarrow> token_after stderr ''Signing transaction:'')"

text \<open>\<open>str::lines\<close> (the carriage return of a line goes with its end), and the first \<open>n\<close> characters.\<close>

definition strip_cr :: "string \<Rightarrow> string" where
  "strip_cr s = (if s \<noteq> [] \<and> last s = chr 13 then butlast s else s)"

definition lines :: "string \<Rightarrow> string list" where
  "lines s = (let ls = split_on (chr 10) s in map strip_cr (if last ls = [] then butlast ls else ls))"

fun take_chars :: "nat \<Rightarrow> string \<Rightarrow> string" where
  "take_chars 0 s = []"
| "take_chars (Suc n) s =
     (if s = [] then [] else take (fst (utf8_head s)) s @ take_chars n (drop (fst (utf8_head s)) s))"

definition last_meaningful_line :: "string \<Rightarrow> string" where
  "last_meaningful_line stderr =
     take_chars 500 (case find (\<lambda>s. s \<noteq> []) (map trim (rev (lines stderr))) of
       None \<Rightarrow> ''stellar-cli failed with no output'' | Some s \<Rightarrow> s)"

section \<open>Redaction\<close>

definition is_secret :: "string \<Rightarrow> bool" where
  "is_secret word \<longleftrightarrow> length word = 56 \<and> starts_with word ''S'' \<and>
     list_all (\<lambda>c. in_range 65 90 c \<or> in_range 50 55 c) (drop 1 word)"

text \<open>
  \<open>split_inclusive\<close> at characters that are not ASCII alphanumeric. Bytes serve for characters: all bytes
  of a longer character are such separators, and pieces are concatenated again.
\<close>

fun split_inclusive :: "string \<Rightarrow> string \<Rightarrow> string list" where
  "split_inclusive acc [] = (if acc = [] then [] else [acc])"
| "split_inclusive acc (c # s) =
     (if is_alphanumeric c then split_inclusive (acc @ [c]) s else (acc @ [c]) # split_inclusive [] s)"

definition REDACTED :: string where "REDACTED = ''S'' @ ELLIPSIS @ ''redacted''"

definition redact_piece :: "string \<Rightarrow> string" where
  "redact_piece piece =
     (let (word, tail) = (if piece \<noteq> [] \<and> \<not> is_alphanumeric (last piece)
                          then (butlast piece, [last piece]) else (piece, []))
      in if is_secret word then REDACTED @ tail else piece)"

definition redact :: "string \<Rightarrow> string" where
  "redact s = concat (map redact_piece (split_inclusive [] s))"

section \<open>Submitting\<close>

datatype submit_error = Permanent string | Transient string

definition classify :: "string \<Rightarrow> submit_error" where
  "classify stderr =
     (case contract_error_code stderr of
        Some code \<Rightarrow>
          if code = 2 then Permanent
            (''registry refused: this verifier is not active '' @ EM_DASH @ '' its stake is below the minimum (#2)'')
          else if code = 3 then Permanent
            ''registry refused: the claim's attestation window has closed (#3)''
          else if code = 4 then Permanent
            ''registry refused: this verifier has already attested this claim (#4)''
          else Permanent (''registry refused with contract error #'' @ show_nat code @
            ''; see the registry's Error enum'')
      | None \<Rightarrow> Transient (last_meaningful_line stderr))"

record cli_command =
  cc_program :: string
  cc_args :: "string list"
  cc_env :: "(string \<times> string) list"
  cc_env_removed :: "string list"

definition apply_env :: "string \<Rightarrow> cli_command \<Rightarrow> cli_command" where
  "apply_env config_home cmd =
     cmd\<lparr>cc_env := cc_env cmd @ [(''STELLAR_CONFIG_HOME'', config_home)],
         cc_env_removed := cc_env_removed cmd @
           [''STELLAR_ACCOUNT'', ''STELLAR_SIGN_WITH_KEY'', ''STELLAR_SIGN_WITH_LAB'',
            ''STELLAR_SIGN_WITH_LEDGER'', ''STELLAR_NETWORK'', ''STELLAR_RPC_URL'',
            ''STELLAR_NETWORK_PASSPHRASE'', ''STELLAR_CONTRACT_ID'']\<rparr>"

definition invoke_command :: "attest_config \<Rightarrow> 's attestation_row \<Rightarrow> cli_command" where
  "invoke_command cfg row =
     apply_env (ac_config_home cfg)
       \<lparr>cc_program = ac_cli cfg,
        cc_args = [''contract'', ''invoke'', ''--id'', ac_registry_id cfg,
          ''--source-account'', IDENTITY_ALIAS, ''--rpc-url'', ac_rpc_url cfg,
          ''--network-passphrase'', ac_network_passphrase cfg, ''--send=yes'',
          ''--config-dir'', ac_config_home cfg, ''--'', ''attest'', ''--verifier'', ac_address cfg,
          ''--wasm_hash'', ar_wasm_hash row, ''--input_digest'', ar_input_digest row,
          ''--rebuilt_hash'', ar_rebuilt_hash row],
        cc_env = [], cc_env_removed = []\<rparr>"

definition submit :: "attest_config \<Rightarrow> proc_end \<Rightarrow> submit_error + string option" where
  "submit cfg run =
     (case run of
        Not_Started e \<Rightarrow> Inl (Transient (''could not run '' @ ac_cli cfg @ '': '' @ e))
      | Out_Of_Time \<Rightarrow> Inl (Transient (''stellar-cli did not finish within '' @ show_nat INVOKE_TIMEOUT @ ''s''))
      | Wait_Failed e \<Rightarrow> Inl (Transient (''stellar-cli failed: '' @ e))
      | Write_Failed e \<Rightarrow> Inl (Transient (''stellar-cli failed: '' @ e))
      | Exited code out err \<Rightarrow>
          let stderr = redact (utf8_lossy err) in
          if code \<noteq> Some 0 then Inl (classify stderr) else Inr (transaction_hash stderr))"

section \<open>The worker\<close>

definition backoff :: "int \<Rightarrow> nat" where
  "backoff attempts =
     (let shift = nat (max 1 (min 32 attempts)) - 1 in min (RETRY_BASE * 2 ^ shift) RETRY_CAP)"

text \<open>One attempt and its bookkeeping; \<open>False\<close> when the outcome could not be written.\<close>

definition attempt ::
  "attest_config \<Rightarrow> nat \<Rightarrow> bool \<Rightarrow> proc_end \<Rightarrow> attestation_status attestation_row \<Rightarrow> db \<Rightarrow> bool \<times> db" where
  "attempt cfg now db_ok run row d =
     (let outcome = submit cfg run;
          write = (case outcome of
            Inr tx_hash \<Rightarrow> attestation_submitted now (ar_id row) tx_hash
          | Inl (Permanent why) \<Rightarrow> attestation_rejected now (ar_id row) why
          | Inl (Transient why) \<Rightarrow>
              let next = ar_attempts row + 1 in
              if MAX_ATTEMPTS \<le> next
              then attestation_rejected now (ar_id row)
                     (''gave up after '' @ show_int next @ '' attempts; last error: '' @ why)
              else (\<lambda>d. snd (attestation_retry_later now (ar_id row) why (backoff next) d)))
      in if db_ok then (True, write d) else (False, d))"

text \<open>
  One turn of the loop: when the queue is read and when the outcome of the command (run for up to
  \<open>INVOKE_TIMEOUT\<close>) is written, whether the three queries succeed, and how the command ends, if it is run.
  The turn gives what is in the database after it, and how long the worker then sleeps, if at all.
\<close>

record turn =
  tn_start :: nat
  tn_end :: nat
  tn_reads :: bool
  tn_writes :: bool
  tn_plans :: bool
  tn_run :: proc_end

definition sleep_time :: "nat \<Rightarrow> bool \<Rightarrow> db \<Rightarrow> nat" where
  "sleep_time now plans d =
     (if \<not> plans then IDLE_POLL
      else case seconds_until_next_attestation now d of
        Some secs \<Rightarrow> nat (max 1 (min secs (int IDLE_POLL)))
      | None \<Rightarrow> IDLE_POLL)"

definition worker_turn :: "attest_config \<Rightarrow> turn \<Rightarrow> db \<Rightarrow> nat option \<times> db" where
  "worker_turn cfg u d =
     (case (if tn_reads u then due_attestation (tn_start u) d else Inl ''looking up the next due attestation'') of
        Inr (Some row) \<Rightarrow>
          (case attempt cfg (tn_end u) (tn_writes u) (tn_run u) row d of
             (recorded, d') \<Rightarrow> (if recorded then None else Some (sleep_time (tn_end u) (tn_plans u) d'), d'))
      | _ \<Rightarrow> (Some (sleep_time (tn_end u) (tn_plans u) d), d))"

section \<open>The keystore\<close>

text \<open>The contents of the key file: the secret, never part of an error. \<open>valid\<close> is the strkey check.\<close>

definition read_secret_key :: "(string \<Rightarrow> bool) \<Rightarrow> string \<Rightarrow> string + string \<Rightarrow> string + string" where
  "read_secret_key valid key_file contents =
     rbind (map_err (\<lambda>e. ''reading the attestation key from '' @ key_file @ '': '' @ e) contents) (\<lambda>raw.
     let secret = trim raw in
     if secret = [] then Inl (key_file @ '' is empty'')
     else if \<not> valid secret
     then Inl (key_file @ '' does not hold a Stellar secret key (S'' @ ELLIPSIS @ ''); its contents are not shown'')
     else Inr secret)"

text \<open>Any directory entry but our own identity file stops the start.\<close>

fun refuse_foreign_identities :: "string \<Rightarrow> (string + string) list \<Rightarrow> string + unit" where
  "refuse_foreign_identities dir [] = Inr ()"
| "refuse_foreign_identities dir (Inl e # es) = Inl (''reading '' @ dir @ '': '' @ e)"
| "refuse_foreign_identities dir (Inr name # es) =
     (if name \<noteq> IDENTITY_ALIAS @ ''.toml''
      then Inl (dir @ '' already holds the identity `'' @ name @ ''`. The attestation keystore must contain '' @
        ''only this instance's key, because stellar-cli signs an auth entry with any key it finds there '' @
        EM_DASH @ '' point SOROFY_ATTEST_CONFIG_HOME at a directory of this instance's own'')
      else refuse_foreign_identities dir es)"

end
