(* ===== verification/RateLimit.thy ===== *)
theory RateLimit
  imports Complex_Main "HOL-Library.AList" Text
begin

text \<open>
  The per-principal token bucket of \<open>crates/api/src/server.rs\<close>. Instants are nanoseconds, token counts
  are rationals standing for the code's \<open>f64\<close> (rounding is not modelled), the hash map is an
  association list with distinct keys. The limiter is shown to be the unbounded limiter that keeps a
  bucket for everyone: dropping idle buckets is not observable.
\<close>

section \<open>The limiter\<close>

record bucket =
  bk_tokens :: rat
  bk_last :: nat

record limiter =
  lm_buckets :: "(string \<times> bucket) list"
  lm_burst :: rat
  lm_refill :: rat
  lm_max :: nat

definition RATE_LIMIT_REFILL_PER_SEC :: rat where "RATE_LIMIT_REFILL_PER_SEC = 1"
definition RATE_LIMIT_BURST :: rat where "RATE_LIMIT_BURST = 10"
definition MAX_TRACKED_CLIENTS :: nat where "MAX_TRACKED_CLIENTS = 4096"

text \<open>\<open>saturating_duration_since\<close>, in seconds.\<close>

definition elapsed :: "nat \<Rightarrow> nat \<Rightarrow> rat" where
  "elapsed earlier now = of_nat (now - earlier) / 1000000000"

definition refilled :: "bucket \<Rightarrow> nat \<Rightarrow> rat \<Rightarrow> rat \<Rightarrow> rat" where
  "refilled b now burst refill = min (bk_tokens b + elapsed (bk_last b) now * refill) burst"

definition limiter_new :: "rat \<Rightarrow> rat \<Rightarrow> nat \<Rightarrow> limiter" where
  "limiter_new burst refill max_clients =
     \<lparr>lm_buckets = [], lm_burst = burst, lm_refill = refill, lm_max = max_clients\<rparr>"

text \<open>The retained buckets when the map is full and the key is new, else all of them.\<close>

definition retained :: "limiter \<Rightarrow> string \<Rightarrow> nat \<Rightarrow> (string \<times> bucket) list" where
  "retained lm key now =
     (if lm_max lm \<le> length (lm_buckets lm) \<and> map_of (lm_buckets lm) key = None
      then filter (\<lambda>(_, b). refilled b now (lm_burst lm) (lm_refill lm) < lm_burst lm) (lm_buckets lm)
      else lm_buckets lm)"

definition check_at :: "limiter \<Rightarrow> string \<Rightarrow> nat \<Rightarrow> (rat + unit) \<times> limiter" where
  "check_at lm key now =
     (let m = retained lm key now;
          b = (case map_of m key of None \<Rightarrow> \<lparr>bk_tokens = lm_burst lm, bk_last = now\<rparr> | Some b \<Rightarrow> b);
          tokens = refilled b now (lm_burst lm) (lm_refill lm) in
      if 1 \<le> tokens
      then (Inr (), lm\<lparr>lm_buckets := AList.update key \<lparr>bk_tokens = tokens - 1, bk_last = now\<rparr> m\<rparr>)
      else (Inl ((1 - tokens) / lm_refill lm),
            lm\<lparr>lm_buckets := AList.update key \<lparr>bk_tokens = tokens, bk_last = now\<rparr> m\<rparr>))"

text \<open>Requests in the order they take the lock, each with the instant it read.\<close>

fun check_all :: "limiter \<Rightarrow> (string \<times> nat) list \<Rightarrow> (rat + unit) list" where
  "check_all lm [] = []"
| "check_all lm ((key, now) # reqs) =
     (case check_at lm key now of (r, lm') \<Rightarrow> r # check_all lm' reqs)"

section \<open>The specification\<close>

text \<open>Everyone has a bucket, and nothing is ever dropped.\<close>

definition ideal_check ::
  "rat \<Rightarrow> rat \<Rightarrow> (string \<Rightarrow> bucket) \<Rightarrow> string \<Rightarrow> nat \<Rightarrow> (rat + unit) \<times> (string \<Rightarrow> bucket)" where
  "ideal_check burst refill f key now =
     (let tokens = refilled (f key) now burst refill in
      if 1 \<le> tokens then (Inr (), f(key := \<lparr>bk_tokens = tokens - 1, bk_last = now\<rparr>))
      else (Inl ((1 - tokens) / refill), f(key := \<lparr>bk_tokens = tokens, bk_last = now\<rparr>)))"

fun ideal_all :: "rat \<Rightarrow> rat \<Rightarrow> (string \<Rightarrow> bucket) \<Rightarrow> (string \<times> nat) list \<Rightarrow> (rat + unit) list" where
  "ideal_all burst refill f [] = []"
| "ideal_all burst refill f ((key, now) # reqs) =
     (case ideal_check burst refill f key now of (r, f') \<Rightarrow> r # ideal_all burst refill f' reqs)"

definition full_bucket :: "rat \<Rightarrow> bucket" where
  "full_bucket burst = \<lparr>bk_tokens = burst, bk_last = 0\<rparr>"

section \<open>Refilling\<close>

lemma elapsed_nonneg [simp]: "0 \<le> elapsed a b"
  by (simp add: elapsed_def)

lemma elapsed_self [simp]: "elapsed a a = 0"
  by (simp add: elapsed_def)

lemma elapsed_add: "a \<le> b \<Longrightarrow> b \<le> c \<Longrightarrow> elapsed a b + elapsed b c = elapsed a c"
  by (simp add: elapsed_def add_divide_distrib [symmetric] of_nat_diff)

lemma elapsed_mono: "b \<le> c \<Longrightarrow> elapsed a b \<le> elapsed a c"
  by (simp add: elapsed_def divide_right_mono diff_le_mono)

lemma refilled_le: "refilled b now burst refill \<le> burst"
  by (simp add: refilled_def)

text \<open>Settling a bucket at \<open>now\<close> and reading it later is reading it later.\<close>

lemma refilled_settle:
  assumes "0 \<le> refill" and "bk_last b \<le> now" and "now \<le> t"
  shows "refilled \<lparr>bk_tokens = refilled b now burst refill, bk_last = now\<rparr> t burst refill =
    refilled b t burst refill"
proof -
  have "elapsed (bk_last b) t = elapsed (bk_last b) now + elapsed now t"
    using elapsed_add [OF assms(2,3)] by simp
  moreover have "0 \<le> elapsed now t * refill" using assms(1) by simp
  ultimately show ?thesis by (simp add: refilled_def distrib_right min_def)
qed

lemma refilled_full:
  assumes "0 \<le> refill" and "burst \<le> refilled b now burst refill" and "bk_last b \<le> now" and "now \<le> t"
  shows "refilled b t burst refill = burst"
proof -
  have "elapsed (bk_last b) now * refill \<le> elapsed (bk_last b) t * refill"
    using assms(1,4) by (simp add: elapsed_mono mult_right_mono)
  with assms(2) show ?thesis by (auto simp: refilled_def min_def split: if_splits)
qed

lemma refilled_start: "0 \<le> refill \<Longrightarrow> refilled \<lparr>bk_tokens = burst, bk_last = t0\<rparr> t burst refill = burst"
  by (simp add: refilled_def)

section \<open>The limiter implements the specification\<close>

definition lm_ok :: "limiter \<Rightarrow> nat \<Rightarrow> bool" where
  "lm_ok lm now \<longleftrightarrow> distinct (map fst (lm_buckets lm)) \<and> 0 \<le> lm_refill lm \<and> 0 \<le> lm_burst lm \<and>
     list_all (\<lambda>(_, b). bk_last b \<le> now \<and> 0 \<le> bk_tokens b) (lm_buckets lm)"

text \<open>What a key could spend at an instant; an untracked key has a full bucket.\<close>

definition level :: "limiter \<Rightarrow> string \<Rightarrow> nat \<Rightarrow> rat" where
  "level lm key t = (case map_of (lm_buckets lm) key of
     None \<Rightarrow> lm_burst lm | Some b \<Rightarrow> refilled b t (lm_burst lm) (lm_refill lm))"

definition implements :: "limiter \<Rightarrow> (string \<Rightarrow> bucket) \<Rightarrow> nat \<Rightarrow> bool" where
  "implements lm f now \<longleftrightarrow> lm_ok lm now \<and> (\<forall>key. bk_last (f key) \<le> now) \<and>
     (\<forall>key t. now \<le> t \<longrightarrow> level lm key t = refilled (f key) t (lm_burst lm) (lm_refill lm))"

lemma lm_ok_mono: "lm_ok lm now \<Longrightarrow> now \<le> t \<Longrightarrow> lm_ok lm t"
  by (auto simp: lm_ok_def list_all_iff)

lemma implements_mono: "implements lm f now \<Longrightarrow> now \<le> t \<Longrightarrow> implements lm f t"
  by (auto simp: implements_def lm_ok_mono intro: le_trans)

lemma implements_new:
  "0 \<le> burst \<Longrightarrow> 0 \<le> refill \<Longrightarrow> implements (limiter_new burst refill n) (\<lambda>_. full_bucket burst) 0"
  by (simp add: implements_def lm_ok_def limiter_new_def level_def full_bucket_def refilled_start)

lemma retained_subset: "set (retained lm key now) \<subseteq> set (lm_buckets lm)"
  by (auto simp: retained_def)

lemma retained_distinct: "distinct (map fst (lm_buckets lm)) \<Longrightarrow> distinct (map fst (retained lm key now))"
  by (auto simp: retained_def intro: distinct_map_filter)

lemma map_of_filter_distinct:
  assumes "distinct (map fst m)"
  shows "map_of (filter (\<lambda>(_, b). p b) m) k = (case map_of m k of None \<Rightarrow> None
    | Some b \<Rightarrow> if p b then Some b else None)"
  using assms
proof (induction m)
  case Nil
  then show ?case by simp
next
  case (Cons e m)
  have "map_of (filter (\<lambda>(_, b). p b) m) (fst e) = None"
    using Cons.prems by (auto simp: map_of_eq_None_iff)
  with Cons show ?case by (cases e) (auto split: option.splits)
qed

text \<open>Evicting a full bucket leaves every key's level as it was.\<close>

lemma level_retained:
  assumes "lm_ok lm now" and "now \<le> t"
  shows "level (lm\<lparr>lm_buckets := retained lm key now\<rparr>) k t = level lm k t"
proof (cases "lm_max lm \<le> length (lm_buckets lm) \<and> map_of (lm_buckets lm) key = None")
  case False
  then have "retained lm key now = lm_buckets lm" by (simp only: retained_def if_False)
  then show ?thesis by (simp add: level_def split: option.split)
next
  case True
  show ?thesis
  proof (cases "map_of (lm_buckets lm) k")
    case None
    with True assms(1) show ?thesis
      by (simp add: level_def retained_def map_of_filter_distinct lm_ok_def)
  next
    case (Some b)
    then have "(k, b) \<in> set (lm_buckets lm)" by (rule map_of_SomeD)
    then have "bk_last b \<le> now" using assms(1) by (auto simp: lm_ok_def list_all_iff)
    with Some True assms show ?thesis
      using refilled_full [of "lm_refill lm" "lm_burst lm" b now t]
      by (auto simp: level_def retained_def map_of_filter_distinct lm_ok_def not_less)
  qed
qed

text \<open>One check, in terms of levels.\<close>

lemma check_at_eq:
  assumes "lm_ok lm now"
  shows "check_at lm key now =
    (let tokens = level lm key now; granted = 1 \<le> tokens;
         b = \<lparr>bk_tokens = (if granted then tokens - 1 else tokens), bk_last = now\<rparr> in
     (if granted then Inr () else Inl ((1 - tokens) / lm_refill lm),
      lm\<lparr>lm_buckets := AList.update key b (retained lm key now)\<rparr>))"
proof -
  have "map_of (retained lm key now) key = map_of (lm_buckets lm) key"
    using assms by (auto simp: retained_def map_of_filter_distinct lm_ok_def)
  moreover have "0 \<le> lm_refill lm" using assms by (simp add: lm_ok_def)
  ultimately show ?thesis
    by (cases "map_of (lm_buckets lm) key") (simp_all add: check_at_def level_def Let_def refilled_start)
qed

lemma check_at_params:
  "lm_burst (snd (check_at lm key now)) = lm_burst lm"
  "lm_refill (snd (check_at lm key now)) = lm_refill lm"
  by (simp_all add: check_at_def Let_def)

lemma list_all_update: "list_all p m \<Longrightarrow> p (k, b) \<Longrightarrow> list_all p (AList.update k b m)"
  by (induction m) auto

lemma level_nonneg: "lm_ok lm now \<Longrightarrow> 0 \<le> level lm key t"
  by (auto simp: level_def lm_ok_def refilled_def list_all_iff split: option.split dest!: map_of_SomeD)

lemma level_le: "level lm key t \<le> lm_burst lm"
  by (simp add: level_def refilled_le split: option.split)

definition after :: "limiter \<Rightarrow> string \<Rightarrow> nat \<Rightarrow> bucket" where
  "after lm key now =
     \<lparr>bk_tokens = (if 1 \<le> level lm key now then level lm key now - 1 else level lm key now), bk_last = now\<rparr>"

lemma check_at_after:
  assumes "lm_ok lm now"
  shows "check_at lm key now =
    (if 1 \<le> level lm key now then Inr () else Inl ((1 - level lm key now) / lm_refill lm),
     lm\<lparr>lm_buckets := AList.update key (after lm key now) (retained lm key now)\<rparr>)"
  by (simp add: check_at_eq [OF assms] after_def Let_def)

lemma check_at_ok:
  assumes "lm_ok lm now"
  shows "lm_ok (snd (check_at lm key now)) now"
proof -
  have "list_all (\<lambda>(_, b). bk_last b \<le> now \<and> 0 \<le> bk_tokens b) (retained lm key now)"
    using assms retained_subset [of lm key now] by (auto simp: lm_ok_def list_all_iff)
  moreover have "0 \<le> bk_tokens (after lm key now)"
    using level_nonneg [OF assms, of key now] by (simp add: after_def)
  ultimately have "list_all (\<lambda>(_, b). bk_last b \<le> now \<and> 0 \<le> bk_tokens b)
      (AList.update key (after lm key now) (retained lm key now))"
    by (intro list_all_update) (simp_all add: after_def)
  with assms show ?thesis
    by (simp add: check_at_after [OF assms] lm_ok_def retained_distinct distinct_update)
qed

lemma level_check:
  assumes "lm_ok lm now" and "now \<le> t"
  shows "level (snd (check_at lm key now)) k t =
    (if k = key then refilled (after lm key now) t (lm_burst lm) (lm_refill lm) else level lm k t)"
proof -
  have "level (lm\<lparr>lm_buckets := AList.update key b m\<rparr>) k t =
    (if k = key then refilled b t (lm_burst lm) (lm_refill lm) else level (lm\<lparr>lm_buckets := m\<rparr>) k t)" for b m
    by (simp add: level_def update_conv split: option.split)
  then show ?thesis
    by (simp add: check_at_after [OF assms(1)] level_retained [OF assms])
qed

lemma implements_check:
  assumes "implements lm f now"
  shows "fst (check_at lm key now) = fst (ideal_check (lm_burst lm) (lm_refill lm) f key now) \<and>
    implements (snd (check_at lm key now)) (snd (ideal_check (lm_burst lm) (lm_refill lm) f key now)) now"
proof -
  have ok: "lm_ok lm now" and lv: "\<And>k t. now \<le> t \<Longrightarrow> level lm k t = refilled (f k) t (lm_burst lm) (lm_refill lm)"
    and older: "\<And>k. bk_last (f k) \<le> now"
    using assms by (auto simp: implements_def)
  have f': "snd (ideal_check (lm_burst lm) (lm_refill lm) f key now) = f(key := after lm key now)"
    by (simp add: ideal_check_def after_def lv Let_def)
  have "level (snd (check_at lm key now)) k t =
      refilled ((f(key := after lm key now)) k) t (lm_burst lm) (lm_refill lm)" if "now \<le> t" for k t
    using that by (simp add: level_check [OF ok] lv)
  moreover have "bk_last ((f(key := after lm key now)) k) \<le> now" for k
    using older by (simp add: after_def)
  moreover have "fst (check_at lm key now) = fst (ideal_check (lm_burst lm) (lm_refill lm) f key now)"
    by (simp add: check_at_after [OF ok] ideal_check_def lv Let_def)
  ultimately show ?thesis
    unfolding f' implements_def check_at_params using check_at_ok [OF ok] by blast
qed

lemma implements_run:
  assumes "implements lm f t0" and "sorted (t0 # map snd reqs)"
  shows "check_all lm reqs = ideal_all (lm_burst lm) (lm_refill lm) f reqs"
  using assms
proof (induction reqs arbitrary: lm f t0)
  case Nil
  then show ?case by simp
next
  case (Cons r reqs)
  obtain key now where r: "r = (key, now)" by (cases r)
  have "implements lm f now"
    using Cons.prems by (auto simp: r intro: implements_mono)
  from implements_check [OF this, of key] have
    eq: "fst (check_at lm key now) = fst (ideal_check (lm_burst lm) (lm_refill lm) f key now)" and
    imp: "implements (snd (check_at lm key now)) (snd (ideal_check (lm_burst lm) (lm_refill lm) f key now)) now"
    by blast+
  have "sorted (now # map snd reqs)" using Cons.prems(2) by (simp add: r)
  from Cons.IH [OF imp this] eq show ?case
    by (simp add: r check_at_params case_prod_beta)
qed

text \<open>
  Property C24. The limiter is the unbounded token bucket. On any requests whose instants never go
  back, the bounded limiter with its evictions gives every caller exactly the answers, waits
  included, of the specification in which everyone has their own bucket and none is ever dropped.
\<close>

theorem limiter_refines:
  assumes "0 \<le> burst" and "0 \<le> refill" and "sorted (map snd reqs)"
  shows "check_all (limiter_new burst refill n) reqs = ideal_all burst refill (\<lambda>_. full_bucket burst) reqs"
proof -
  have "implements (limiter_new burst refill n) (\<lambda>_. full_bucket burst) 0"
    using assms(1,2) by (rule implements_new)
  moreover have "sorted (0 # map snd reqs)" using assms(3) by simp
  ultimately have "check_all (limiter_new burst refill n) reqs =
      ideal_all (lm_burst (limiter_new burst refill n)) (lm_refill (limiter_new burst refill n))
        (\<lambda>_. full_bucket burst) reqs"
    by (rule implements_run)
  then show ?thesis by (simp add: limiter_new_def)
qed

theorem limiter_refines_witness:
  "check_all (limiter_new 1 1 1) [(''a'', 0), (''b'', 0), (''c'', 2000000000), (''a'', 2000000000)] =
     [Inr (), Inr (), Inr (), Inr ()]"
  by (subst limiter_refines) (simp_all add: ideal_check_def full_bucket_def refilled_def elapsed_def Let_def)

section \<open>The rate bound\<close>

definition grants :: "string \<Rightarrow> (string \<times> nat) list \<Rightarrow> (rat + unit) list \<Rightarrow> nat" where
  "grants key reqs rs = length (filter (\<lambda>((k, _), r). k = key \<and> r = Inr ()) (zip reqs rs))"

fun limiter_after :: "limiter \<Rightarrow> (string \<times> nat) list \<Rightarrow> limiter" where
  "limiter_after lm [] = lm"
| "limiter_after lm ((key, now) # reqs) = limiter_after (snd (check_at lm key now)) reqs"

lemma check_all_append: "check_all lm (xs @ ys) = check_all lm xs @ check_all (limiter_after lm xs) ys"
  by (induction xs arbitrary: lm) (auto split: prod.splits)

lemma check_all_length [simp]: "length (check_all lm reqs) = length reqs"
  by (induction reqs arbitrary: lm) (auto split: prod.splits)

lemma limiter_after_params:
  "lm_burst (limiter_after lm reqs) = lm_burst lm" "lm_refill (limiter_after lm reqs) = lm_refill lm"
  by (induction reqs arbitrary: lm) (auto simp: check_at_params)

lemma limiter_after_ok:
  assumes "lm_ok lm t0" and "sorted (t0 # map snd reqs)" and "list_all (\<lambda>r. snd r \<le> t1) reqs" and "t0 \<le> t1"
  shows "lm_ok (limiter_after lm reqs) t1"
  using assms
proof (induction reqs arbitrary: lm t0)
  case Nil
  then show ?case by (auto intro: lm_ok_mono)
next
  case (Cons r reqs)
  obtain key now where r: "r = (key, now)" by (cases r)
  have "lm_ok (snd (check_at lm key now)) now"
    using Cons.prems by (intro check_at_ok) (auto simp: r intro: lm_ok_mono)
  then show ?case using Cons.prems Cons.IH [of "snd (check_at lm key now)" now] by (simp add: r)
qed

lemma level_later:
  assumes "lm_ok lm t0" and "t0 \<le> t"
  shows "level lm key t \<le> level lm key t0 + lm_refill lm * elapsed t0 t"
proof (cases "map_of (lm_buckets lm) key")
  case None
  then show ?thesis using assms by (simp add: level_def lm_ok_def)
next
  case (Some b)
  then have "bk_last b \<le> t0" using assms(1) by (auto simp: lm_ok_def list_all_iff dest!: map_of_SomeD)
  from elapsed_add [OF this assms(2)] have e: "elapsed (bk_last b) t = elapsed (bk_last b) t0 + elapsed t0 t"
    by simp
  have "0 \<le> elapsed t0 t * lm_refill lm" using assms(1) by (simp add: lm_ok_def)
  then show ?thesis using Some by (simp add: level_def refilled_def e min_def algebra_simps)
qed

lemma grants_bounded:
  assumes "lm_ok lm t0" and "sorted (t0 # map snd reqs)" and "list_all (\<lambda>r. snd r \<le> t1) reqs" and "t0 \<le> t1"
  shows "of_nat (grants key reqs (check_all lm reqs)) \<le> level lm key t0 + lm_refill lm * elapsed t0 t1"
  using assms
proof (induction reqs arbitrary: lm t0)
  case Nil
  then show ?case by (auto simp: grants_def level_nonneg lm_ok_def)
next
  case (Cons r reqs)
  obtain k now where r: "r = (k, now)" by (cases r)
  have t: "t0 \<le> now" "now \<le> t1" "sorted (now # map snd reqs)" "list_all (\<lambda>r. snd r \<le> t1) reqs"
    using Cons.prems by (simp_all add: r)
  have ok: "lm_ok lm now" using Cons.prems(1) t(1) by (rule lm_ok_mono)
  let ?lm = "snd (check_at lm k now)" and ?g = "of_bool (k = key \<and> 1 \<le> level lm k now) :: rat"
  have "fst (check_at lm k now) = Inr () \<longleftrightarrow> 1 \<le> level lm k now" by (simp add: check_at_after [OF ok])
  then have "of_nat (grants key (r # reqs) (check_all lm (r # reqs))) =
      ?g + of_nat (grants key reqs (check_all ?lm reqs))"
    by (auto simp: grants_def r case_prod_beta)
  also have "\<dots> \<le> ?g + (level ?lm key now + lm_refill lm * elapsed now t1)"
    using Cons.IH [OF check_at_ok [OF ok] t(3,4,2), of k] by (simp add: check_at_params)
  also have "\<dots> \<le> level lm key now + lm_refill lm * elapsed now t1"
    using level_check [OF ok order_refl, of k key] by (auto simp: after_def refilled_def)
  also have "\<dots> \<le> level lm key t0 + lm_refill lm * elapsed t0 now + lm_refill lm * elapsed now t1"
    using level_later [OF Cons.prems(1) t(1), of key] by simp
  finally show ?case
    unfolding elapsed_add [OF t(1,2), symmetric] by (simp add: algebra_simps)
qed

text \<open>
  Property C23. The rate limit. In any window of requests with non-decreasing instants, after any
  earlier traffic and whatever other callers do, a caller is granted at most the burst plus the
  refill rate times the length of the window.
\<close>

theorem rate_bounded:
  assumes "0 \<le> burst" and "0 \<le> refill" and "sorted (map snd (earlier @ window))" and "window \<noteq> []"
  shows "of_nat (grants key window (drop (length earlier) (check_all (limiter_new burst refill n) (earlier @ window))))
    \<le> burst + refill * elapsed (snd (hd window)) (snd (last window))"
proof -
  let ?new = "limiter_new burst refill n" and ?t0 = "snd (hd window)" and ?t1 = "snd (last window)"
  let ?lm = "limiter_after ?new earlier"
  have srt: "sorted (map snd window)" using assms(3) by (simp add: sorted_append)
  have hd: "list_all (\<lambda>r. ?t0 \<le> snd r) window" using srt assms(4) by (cases window) (auto simp: list_all_iff)
  have last: "list_all (\<lambda>r. snd r \<le> ?t1) window"
    using srt assms(4) by (cases window rule: rev_cases) (auto simp: list_all_iff sorted_append)
  have "list_all (\<lambda>r. snd r \<le> ?t0) earlier"
    using assms(3,4) by (auto simp: list_all_iff sorted_append)
  moreover have "sorted (0 # map snd earlier)" using assms(3) by (simp add: sorted_append)
  moreover have "lm_ok ?new 0" using assms(1,2) by (simp add: lm_ok_def limiter_new_def)
  ultimately have ok: "lm_ok ?lm ?t0" by (intro limiter_after_ok [of _ 0]) simp_all
  have "sorted (?t0 # map snd window)" "?t0 \<le> ?t1"
    using srt hd last assms(4) by (auto simp: list_all_iff)
  from grants_bounded [OF ok this(1) last this(2), of key] level_le [of ?lm key ?t0]
  show ?thesis by (simp add: check_all_append limiter_after_params limiter_new_def)
qed

theorem rate_bounded_witness:
  "of_nat (grants ''a'' [(''a'', 5), (''b'', 5), (''a'', 5)]
     (drop (length [(''a'', 5)]) (check_all (limiter_new 2 1 9) ([(''a'', 5)] @ [(''a'', 5), (''b'', 5), (''a'', 5)]))))
    \<le> (2 :: rat) + 1 * elapsed 5 5"
  using rate_bounded [of 2 1 "[(''a'', 5)]" "[(''a'', 5), (''b'', 5), (''a'', 5)]" "''a''" 9] by simp

text \<open>
  The advertised wait is exact. A refused caller is told a positive wait; if nobody else
  spends its tokens, a retry is granted once that much time has passed and refused before.
\<close>

theorem retry_after_exact:
  assumes "lm_ok lm now" and "0 < lm_refill lm" and "1 \<le> lm_burst lm"
    and "check_at lm key now = (Inl wait, lm')"
  shows "0 < wait \<and> (\<forall>t. fst (check_at lm' key (now + t)) = Inr () \<longleftrightarrow> wait \<le> elapsed now (now + t))"
proof -
  let ?l = "level lm key now"
  have l: "?l < 1" and wait: "wait = (1 - ?l) / lm_refill lm" and lm': "lm' = snd (check_at lm key now)"
    using assms(4) by (auto simp: check_at_after [OF assms(1)] split: if_splits)
  have "fst (check_at lm' key (now + t)) = Inr () \<longleftrightarrow> wait \<le> elapsed now (now + t)" for t
  proof -
    have "lm_ok lm' (now + t)" unfolding lm' by (rule lm_ok_mono [OF check_at_ok [OF assms(1)]]) simp
    then have "fst (check_at lm' key (now + t)) = Inr () \<longleftrightarrow> 1 \<le> level lm' key (now + t)"
      by (simp add: check_at_after)
    also have "level lm' key (now + t) =
        min (?l + elapsed now (now + t) * lm_refill lm) (lm_burst lm)"
      using l unfolding lm' by (simp add: level_check [OF assms(1)] after_def refilled_def)
    also have "1 \<le> \<dots> \<longleftrightarrow> wait \<le> elapsed now (now + t)"
      using assms(2,3) by (simp add: wait pos_divide_le_eq algebra_simps)
    finally show ?thesis .
  qed
  with l assms(2) show ?thesis by (simp add: wait)
qed

theorem retry_after_exact_witness:
  "\<exists>wait lm'. check_at \<lparr>lm_buckets = [(''a'', \<lparr>bk_tokens = 0, bk_last = 7\<rparr>)], lm_burst = 1, lm_refill = 1,
      lm_max = 9\<rparr> ''a'' 7 = (Inl wait, lm') \<and> 0 < wait"
proof -
  let ?lm = "\<lparr>lm_buckets = [(''a'', \<lparr>bk_tokens = 0, bk_last = 7\<rparr>)], lm_burst = 1, lm_refill = 1, lm_max = 9\<rparr>"
  have "lm_ok ?lm 7" by (simp add: lm_ok_def)
  moreover have "\<exists>wait lm'. check_at ?lm ''a'' 7 = (Inl wait, lm')"
    by (simp add: check_at_def retained_def refilled_def Let_def)
  ultimately show ?thesis using retry_after_exact [of ?lm 7 "''a''"] by fastforce
qed

section \<open>Corners\<close>

text \<open>When every tracked caller is active the map outgrows its cap: the cap only triggers eviction.\<close>

lemma cap_can_be_passed:
  "length (lm_buckets (limiter_after (limiter_new 1 1 1) [(''a'', 0), (''b'', 0), (''c'', 0)])) = 3"
  by (simp add: limiter_new_def check_at_def retained_def refilled_def Let_def)

text \<open>
  The instant is read before the lock is taken, so two callers can be served in the opposite order;
  a bucket then moves back in time and the same interval refills it twice. Here three grants fall
  within one second although burst and rate allow two.
\<close>

lemma clock_skew_refills_twice:
  "check_all (limiter_new 1 1 9) [(''a'', 1000000000), (''a'', 0), (''a'', 1000000000), (''a'', 0),
     (''a'', 1000000000)] = [Inr (), Inl 1, Inr (), Inl 1, Inr ()]"
  by (simp add: limiter_new_def check_at_def retained_def refilled_def elapsed_def Let_def)

end
