(* ===== verification/Rpc.thy ===== *)
theory Rpc
  imports Text
begin

text \<open>
  The on-chain lookup of \<open>crates/api/src/rpc.rs\<close>: from a contract id to the hash its instance entry
  names. Strkey decoding, the XDR codec and the HTTP client are parameters; every check the code makes
  on what they return is here.
\<close>

datatype executable = Wasm string | Stellar_Asset

text \<open>The parts of a decoded ledger entry the code looks at.\<close>

datatype contract_executable = Executable_Wasm bytes | Executable_Asset

datatype sc_val = Contract_Instance contract_executable | Other_Val

datatype ledger_entry = Contract_Data sc_val | Other_Entry_Data

text \<open>The response body as deserialised: a missing \<open>entries\<close> field is the empty list.\<close>

record rpc_response =
  rr_result :: "string list option"
  rr_error :: "string option"

text \<open>\<open>rpc_thread\<close> is the panic of the thread a lookup runs in, if it panics.\<close>

record rpc =
  rpc_strkey :: "string \<Rightarrow> string + bytes"
  rpc_key_xdr :: "bytes \<Rightarrow> string + string"
  rpc_post :: "string \<Rightarrow> string \<Rightarrow> string + rpc_response"
  rpc_entry :: "string \<Rightarrow> string + ledger_entry"
  rpc_hex :: "bytes \<Rightarrow> string"
  rpc_thread :: "string option"

definition get_ledger_entry :: "rpc \<Rightarrow> string \<Rightarrow> string \<Rightarrow> string + string option" where
  "get_ledger_entry r rpc_url key_b64 =
     (case rpc_post r rpc_url key_b64 of
        Inl e \<Rightarrow> Inl e
      | Inr resp \<Rightarrow>
          (case rr_error resp of
             Some err \<Rightarrow> Inl (''RPC error from '' @ rpc_url @ '': '' @ err)
           | None \<Rightarrow>
               (case rr_result resp of
                  None \<Rightarrow> Inl ''RPC response has neither result nor error''
                | Some entries \<Rightarrow> Inr (case entries of [] \<Rightarrow> None | xdr # _ \<Rightarrow> Some xdr))))"

text \<open>What the instance entry executes.\<close>

definition entry_executable :: "rpc \<Rightarrow> ledger_entry \<Rightarrow> string + executable" where
  "entry_executable r data =
     (case data of
        Other_Entry_Data \<Rightarrow> Inl ''RPC returned a non-ContractData entry for a ContractData key''
      | Contract_Data Other_Val \<Rightarrow> Inl ''contract instance entry does not hold a ContractInstance value''
      | Contract_Data (Contract_Instance (Executable_Wasm hash)) \<Rightarrow> Inr (Wasm (rpc_hex r hash))
      | Contract_Data (Contract_Instance Executable_Asset) \<Rightarrow> Inr Stellar_Asset)"

definition fetch_executable :: "rpc \<Rightarrow> string \<Rightarrow> string \<Rightarrow> string + executable option" where
  "fetch_executable r rpc_url contract_id =
     rbind (map_err (\<lambda>e. ''`'' @ contract_id @ ''` is not a valid contract id (C'' @ ELLIPSIS @ '' strkey): '' @ e)
              (rpc_strkey r contract_id)) (\<lambda>contract.
     rbind (map_err (\<lambda>e. ''encoding ledger key: '' @ e) (rpc_key_xdr r contract)) (\<lambda>key_b64.
     rbind (get_ledger_entry r rpc_url key_b64) (\<lambda>entry.
     case entry of
       None \<Rightarrow> Inr None
     | Some xdr \<Rightarrow>
         rbind (map_err (\<lambda>e. ''decoding ledger entry XDR: '' @ e) (rpc_entry r xdr)) (\<lambda>data.
         rbind (entry_executable r data) (\<lambda>x. Inr (Some x))))))"

text \<open>A hash is only ever taken from the instance entry the network returned for this contract.\<close>

lemma get_ledger_entry_Some:
  "get_ledger_entry r rpc_url key = Inr (Some xdr) \<longleftrightarrow>
     (\<exists>resp rest. rpc_post r rpc_url key = Inr resp \<and> rr_error resp = None \<and> rr_result resp = Some (xdr # rest))"
  by (cases "rpc_post r rpc_url key") (auto simp: get_ledger_entry_def split: option.splits list.splits)

lemma entry_executable_Wasm:
  "entry_executable r data = Inr (Wasm h) \<longleftrightarrow>
     (\<exists>hash. data = Contract_Data (Contract_Instance (Executable_Wasm hash)) \<and> h = rpc_hex r hash)"
  by (auto simp: entry_executable_def split: ledger_entry.splits sc_val.splits contract_executable.splits)

lemma fetch_executable_Wasm:
  "fetch_executable r rpc_url contract_id = Inr (Some (Wasm h)) \<longleftrightarrow>
     (\<exists>contract key xdr rest resp hash. rpc_strkey r contract_id = Inr contract \<and>
        rpc_key_xdr r contract = Inr key \<and> rpc_post r rpc_url key = Inr resp \<and> rr_error resp = None \<and>
        rr_result resp = Some (xdr # rest) \<and>
        rpc_entry r xdr = Inr (Contract_Data (Contract_Instance (Executable_Wasm hash))) \<and>
        h = rpc_hex r hash)" (is "?l \<longleftrightarrow> ?r")
proof
  assume ?l
  then obtain contract key entry where c: "rpc_strkey r contract_id = Inr contract"
    "rpc_key_xdr r contract = Inr key" "get_ledger_entry r rpc_url key = Inr entry"
    and e: "(case entry of None \<Rightarrow> Inr None
     | Some xdr \<Rightarrow>
         rbind (map_err (\<lambda>e. ''decoding ledger entry XDR: '' @ e) (rpc_entry r xdr)) (\<lambda>data.
         rbind (entry_executable r data) (\<lambda>x. Inr (Some x)))) = Inr (Some (Wasm h))"
    unfolding fetch_executable_def rbind_eq_Inr map_err_eq_Inr by blast
  from e obtain xdr data where "entry = Some xdr" "rpc_entry r xdr = Inr data" "entry_executable r data = Inr (Wasm h)"
    by (auto simp: rbind_simps split: option.splits)
  with c show ?r by (auto simp: get_ledger_entry_Some entry_executable_Wasm)
next
  assume ?r
  then obtain contract key xdr rest resp hash where "rpc_strkey r contract_id = Inr contract"
    "rpc_key_xdr r contract = Inr key" "rpc_post r rpc_url key = Inr resp" "rr_error resp = None"
    "rr_result resp = Some (xdr # rest)"
    "rpc_entry r xdr = Inr (Contract_Data (Contract_Instance (Executable_Wasm hash)))" "h = rpc_hex r hash"
    by blast
  then show ?l by (simp add: fetch_executable_def get_ledger_entry_def entry_executable_def)
qed

end
