(* ===== verification/Service.thy ===== *)
theory Service
  imports Outbox RateLimit Rpc
begin

text \<open>
  The REST service, \<open>crates/api/src/server.rs\<close>: the bearer gate, the request of \<open>POST /verify\<close>, the job
  it starts, and the public reads. A handler runs uninterrupted between two awaits, so it is split
  there: \<open>admit\<close> up to the on-chain lookup, \<open>accept_job\<close> after it; \<open>run_job\<close> is the steps \<open>begin_build\<close>
  and \<open>finish_job\<close>. A semaphore is the number of permits its holders have. SQLite errors are the
  \<open>bool\<close> arguments.
\<close>

section \<open>Authentication\<close>

text \<open>\<open>auth\<close> is the \<open>Authorization\<close> header when it is present and readable as text.\<close>

definition bearer_token :: "string option \<Rightarrow> string option" where
  "bearer_token auth =
     (case auth of
        None \<Rightarrow> None
      | Some s \<Rightarrow>
          (case split_once s '' '' of
             None \<Rightarrow> None
           | Some (scheme, tok) \<Rightarrow>
               if eq_ignore_ascii_case scheme ''bearer'' then Some (trim tok) else None))"

definition constant_time_eq :: "bytes \<Rightarrow> bytes \<Rightarrow> bool" where
  "constant_time_eq a b =
     (if length a \<noteq> length b then False
      else fold (\<lambda>(x, y) diff. or diff (xor (of_char x) (of_char y))) (zip a b) (0 :: 8 word) = 0)"

definition is_authorized :: "string option \<Rightarrow> string option \<Rightarrow> bool" where
  "is_authorized expected auth =
     (case expected of
        None \<Rightarrow> True
      | Some e \<Rightarrow> constant_time_eq (case bearer_token auth of None \<Rightarrow> [] | Some t \<Rightarrow> t) e)"

definition rate_limit_key :: "string option \<Rightarrow> string option \<Rightarrow> string" where
  "rate_limit_key api_token auth =
     (case api_token of
        Some _ \<Rightarrow> (case bearer_token auth of Some t \<Rightarrow> ''tok:'' @ t | None \<Rightarrow> ''anon'')
      | None \<Rightarrow> ''anon'')"

section \<open>Requests and errors\<close>

record verify_request =
  vq_contract_id :: "string option"
  vq_wasm_hash :: "string option"
  vq_repo :: "string option"
  vq_rev :: "string option"
  vq_source_uri :: "string option"
  vq_source_sha256 :: "string option"
  vq_bldimg :: string
  vq_bldopt :: "string list"

datatype api_error =
    Unauthorized
  | Too_Many_Requests
  | Rate_Limited rat
  | Bad_Request string
  | Not_Found string
  | Internal string

text \<open>Status, message and the \<open>Retry-After\<close> header, rounded up to a whole second.\<close>

definition into_response :: "api_error \<Rightarrow> nat \<times> string \<times> nat option" where
  "into_response e =
     (case e of
        Unauthorized \<Rightarrow> (401, ''missing or invalid bearer token'', None)
      | Too_Many_Requests \<Rightarrow> (429, ''too many verification jobs in flight; retry shortly'', None)
      | Rate_Limited wait \<Rightarrow> (429, ''rate limit exceeded; slow down'', Some (nat (max 1 \<lceil>wait\<rceil>)))
      | Bad_Request msg \<Rightarrow> (400, msg, None)
      | Not_Found msg \<Rightarrow> (404, msg, None)
      | Internal msg \<Rightarrow> (500, msg, None))"

definition parse_source :: "verify_request \<Rightarrow> api_error + source_ref" where
  "parse_source req =
     (case (vq_repo req, vq_source_uri req) of
        (Some repo, None) \<Rightarrow>
          rbind (ok_or (Bad_Request ''`repo` requires `rev` (a commit)'') (vq_rev req)) (\<lambda>r. Inr (Git repo r))
      | (None, Some uri) \<Rightarrow>
          rbind (ok_or (Bad_Request ''`source_uri` requires `source_sha256` (SEP-58)'') (vq_source_sha256 req))
            (\<lambda>sha. Inr (Archive uri sha))
      | _ \<Rightarrow> Inl (Bad_Request ''pass exactly one source: `repo`+`rev`, or `source_uri`+`source_sha256`''))"

text \<open>The hash to reproduce: the network's for a contract id, else the caller's.\<close>

definition expected_hash :: "libs \<Rightarrow> rpc \<Rightarrow> string \<Rightarrow> verify_request \<Rightarrow> api_error + string" where
  "expected_hash l rpc rpc_url req =
     (case (vq_contract_id req, vq_wasm_hash req) of
        (Some contract_id, _) \<Rightarrow>
          (case rpc_thread rpc of Some e \<Rightarrow> Inl (Internal e) | None \<Rightarrow>
           case fetch_executable rpc rpc_url contract_id of
             Inl e \<Rightarrow> Inl (Bad_Request (''on-chain lookup failed: '' @ e))
           | Inr (Some (Wasm hash)) \<Rightarrow> Inr hash
           | Inr (Some Stellar_Asset) \<Rightarrow>
               Inl (Bad_Request ''contract is a built-in Stellar Asset Contract; there is no WASM to verify'')
           | Inr None \<Rightarrow> Inl (Not_Found (''contract '' @ contract_id @ '' does not exist on this network'')))
      | (None, Some hash) \<Rightarrow> Inr (lib_lowercase l hash)
      | (None, None) \<Rightarrow>
          Inl (Bad_Request ''pass a contract_id (hash resolved on-chain) or an explicit wasm_hash''))"

section \<open>Metrics\<close>

datatype outcome = Verified_Outcome | Mismatch_Outcome | Errored_Outcome

text \<open>Atomic counters wrap at 64 bits.\<close>

record metrics =
  mt_submitted :: "64 word"
  mt_in_flight :: "64 word"
  mt_verified :: "64 word"
  mt_mismatch :: "64 word"
  mt_errored :: "64 word"
  mt_build_ms_total :: "64 word"
  mt_builds_timed :: "64 word"

definition no_metrics :: metrics where
  "no_metrics = \<lparr>mt_submitted = 0, mt_in_flight = 0, mt_verified = 0, mt_mismatch = 0, mt_errored = 0,
     mt_build_ms_total = 0, mt_builds_timed = 0\<rparr>"

definition on_accepted :: "metrics \<Rightarrow> metrics" where
  "on_accepted m = m\<lparr>mt_submitted := mt_submitted m + 1, mt_in_flight := mt_in_flight m + 1\<rparr>"

definition on_finished :: "outcome \<Rightarrow> nat option \<Rightarrow> metrics \<Rightarrow> metrics" where
  "on_finished out build_ms m =
     (let m = m\<lparr>mt_in_flight := mt_in_flight m - 1\<rparr>;
          m = (case out of
                 Verified_Outcome \<Rightarrow> m\<lparr>mt_verified := mt_verified m + 1\<rparr>
               | Mismatch_Outcome \<Rightarrow> m\<lparr>mt_mismatch := mt_mismatch m + 1\<rparr>
               | Errored_Outcome \<Rightarrow> m\<lparr>mt_errored := mt_errored m + 1\<rparr>)
      in case build_ms of
           None \<Rightarrow> m
         | Some ms \<Rightarrow> m\<lparr>mt_build_ms_total := mt_build_ms_total m + of_nat ms,
                        mt_builds_timed := mt_builds_timed m + 1\<rparr>)"

text \<open>\<open>snapshot\<close>: the six served figures.\<close>

definition snapshot :: "metrics \<Rightarrow> 64 word \<times> 64 word \<times> 64 word \<times> 64 word \<times> 64 word \<times> rat" where
  "snapshot m =
     (let timed = mt_builds_timed m;
          avg = (if 0 < timed then of_nat (unat (mt_build_ms_total m)) / of_nat (unat timed) / 1000 else 0)
      in (mt_submitted m, mt_in_flight m, mt_verified m, mt_mismatch m, mt_errored m, avg))"

section \<open>The service\<close>

definition MAX_CONCURRENT_BUILDS :: nat where "MAX_CONCURRENT_BUILDS = 2"
definition MAX_OUTSTANDING_JOBS :: nat where "MAX_OUTSTANDING_JOBS = 16"
definition DEFAULT_PAGE :: nat where "DEFAULT_PAGE = 24"

text \<open>Fifteen minutes, the clock of the engine's environment counting milliseconds here.\<close>

definition DEFAULT_TIMEOUT :: nat where "DEFAULT_TIMEOUT = 15 * 60 * 1000"

text \<open>What never changes while the service runs.\<close>

record deployment =
  su_libs :: libs
  su_env :: env
  su_docker :: docker
  su_rpc_url :: string
  su_allow_unpinned :: bool
  su_api_token :: "string option"
  su_attesting :: bool
  su_debug_duration :: "nat \<Rightarrow> string"
  su_debug_names :: "string list \<Rightarrow> string"

record job =
  jb_id :: int
  jb_request :: request

text \<open>
  \<open>sv_lookups\<close> are the handlers that hold an admission permit while they ask the network, \<open>sv_waiting\<close>
  the jobs spawned but without a build slot, \<open>sv_building\<close> those with one, \<open>sv_lost\<close> the jobs whose end
  could not be written to the database (logged by the code), \<open>sv_submitting\<close> the outbox row whose
  command the attestation worker is running.
\<close>

record service =
  sv_db :: db
  sv_limiter :: limiter
  sv_metrics :: metrics
  sv_lookups :: "(verify_request \<times> source_ref) list"
  sv_waiting :: "job list"
  sv_building :: "job list"
  sv_lost :: "int list"
  sv_submitting :: "attestation_status attestation_row option"

definition app_state_new :: "db \<Rightarrow> service" where
  "app_state_new d =
     \<lparr>sv_db = d,
      sv_limiter = limiter_new RATE_LIMIT_BURST RATE_LIMIT_REFILL_PER_SEC MAX_TRACKED_CLIENTS,
      sv_metrics = no_metrics, sv_lookups = [], sv_waiting = [], sv_building = [], sv_lost = [],
      sv_submitting = None\<rparr>"

text \<open>Admission permits in use.\<close>

definition outstanding :: "service \<Rightarrow> nat" where
  "outstanding s = length (sv_lookups s) + length (sv_waiting s) + length (sv_building s)"

text \<open>\<open>start_verification\<close> up to the on-chain lookup.\<close>

definition admit ::
  "deployment \<Rightarrow> string option \<Rightarrow> verify_request \<Rightarrow> nat \<Rightarrow> service \<Rightarrow> (api_error + source_ref) \<times> service" where
  "admit su auth req now s =
     (if \<not> is_authorized (su_api_token su) auth then (Inl Unauthorized, s)
      else case check_at (sv_limiter s) (rate_limit_key (su_api_token su) auth) now of
        (Inl wait, lm) \<Rightarrow> (Inl (Rate_Limited wait), s\<lparr>sv_limiter := lm\<rparr>)
      | (Inr _, lm) \<Rightarrow>
          let s = s\<lparr>sv_limiter := lm\<rparr> in
          case parse_source req of
            Inl e \<Rightarrow> (Inl e, s)
          | Inr source \<Rightarrow>
              if MAX_OUTSTANDING_JOBS \<le> outstanding s then (Inl Too_Many_Requests, s)
              else (Inr source, s\<lparr>sv_lookups := sv_lookups s @ [(req, source)]\<rparr>))"

text \<open>The permit of a handler that ends without a job.\<close>

definition release_lookup :: "verify_request \<times> source_ref \<Rightarrow> service \<Rightarrow> service" where
  "release_lookup h s = s\<lparr>sv_lookups := remove1 h (sv_lookups s)\<rparr>"

definition job_request :: "deployment \<Rightarrow> verify_request \<Rightarrow> source_ref \<Rightarrow> string \<Rightarrow> request" where
  "job_request su req source hash =
     \<lparr>rq_source = source, rq_bldimg = vq_bldimg req, rq_bldopt = vq_bldopt req, rq_expected = hash,
      rq_timeout = DEFAULT_TIMEOUT, rq_allow_unpinned = su_allow_unpinned su, rq_emit_wasm = None\<rparr>"

text \<open>\<open>start_verification\<close> from the resolved hash on; the permit passes to the job.\<close>

definition accept_job ::
  "deployment \<Rightarrow> nat \<Rightarrow> bool \<Rightarrow> verify_request \<times> source_ref \<Rightarrow> string \<Rightarrow> service \<Rightarrow> (api_error + int \<times> string) \<times> service" where
  "accept_job su now db_ok h hash s =
     (let (req, source) = h; s = release_lookup h s in
      if \<not> db_ok then (Inl (Internal ''inserting pending verification''), s)
      else case insert_pending (su_libs su) now (vq_contract_id req) hash source (vq_bldimg req) (sv_db s) of
        (i, d) \<Rightarrow>
          (Inr (i, hash),
           s\<lparr>sv_db := d, sv_metrics := on_accepted (sv_metrics s),
             sv_waiting := sv_waiting s @ [\<lparr>jb_id = i, jb_request = job_request su req source hash\<rparr>]\<rparr>))"

text \<open>The whole handler, when nothing else runs between its awaits.\<close>

definition start_verification ::
  "deployment \<Rightarrow> rpc \<Rightarrow> bool \<Rightarrow> string option \<Rightarrow> verify_request \<Rightarrow> nat \<Rightarrow> nat \<Rightarrow> service \<Rightarrow>
     (api_error + int \<times> string) \<times> service" where
  "start_verification su rpc db_ok auth req instant now s =
     (case admit su auth req instant s of
        (Inl e, s) \<Rightarrow> (Inl e, s)
      | (Inr source, s) \<Rightarrow>
          (case expected_hash (su_libs su) rpc (su_rpc_url su) req of
             Inl e \<Rightarrow> (Inl e, release_lookup (req, source) s)
           | Inr hash \<Rightarrow> accept_job su now db_ok (req, source) hash s))"

section \<open>Jobs\<close>

text \<open>The messages of \<open>VerifyError\<close>; how Rust's \<open>Debug\<close> prints a duration and a list is a parameter.\<close>

definition error_text :: "deployment \<Rightarrow> verify_error \<Rightarrow> string" where
  "error_text su e =
     (case e of
        SourceFetch m \<Rightarrow> ''source fetch failed: '' @ m
      | SourceIntegrity expected actual \<Rightarrow>
          ''source integrity check failed: declared source_sha256 '' @ expected @ '', got '' @ actual
      | SourceLayout n \<Rightarrow>
          ''source archive must contain exactly one top-level directory, found '' @ show_nat n
      | UnpinnedImage img \<Rightarrow>
          ''build image must be digest-pinned (`image@sha256:...`), got `'' @ img @ ''`''
      | BuildFailed code build_log \<Rightarrow> ''build failed (exit code '' @ show_int code @ '')''
      | Timeout t \<Rightarrow> ''build timed out after '' @ su_debug_duration su t
      | NoWasmProduced \<Rightarrow> ''build produced no .wasm artifact''
      | AmbiguousWasm n names \<Rightarrow>
          ''build produced '' @ show_nat n @ '' .wasm artifacts ('' @ su_debug_names su names @
          ''); narrow it with a bldopt like --package=<name>''
      | Docker m \<Rightarrow> ''docker: '' @ m
      | Io m \<Rightarrow> m)"

definition engine_end :: "deployment \<Rightarrow> verify_error + report \<Rightarrow> job_end" where
  "engine_end su r = (case r of Inr rep \<Rightarrow> Reproduced rep | Inl e \<Rightarrow> Not_Reproduced (error_text su e))"

definition panic_end :: "string \<Rightarrow> job_end" where
  "panic_end e = Not_Reproduced (''job panicked: '' @ e)"

fun end_outcome :: "job_end \<Rightarrow> outcome" where
  "end_outcome (Reproduced rep) =
     (if outcome_status rep = Job_Verified then Verified_Outcome else Mismatch_Outcome)"
| "end_outcome (Not_Reproduced _) = Errored_Outcome"

fun end_build_ms :: "job_end \<Rightarrow> nat option" where
  "end_build_ms (Reproduced rep) = Some (rp_build_time rep)"
| "end_build_ms (Not_Reproduced _) = None"

text \<open>\<open>run_job\<close> gets its build slot.\<close>

definition begin_build :: "job \<Rightarrow> service \<Rightarrow> service" where
  "begin_build j s = s\<lparr>sv_waiting := remove1 j (sv_waiting s), sv_building := sv_building s @ [j]\<rparr>"

text \<open>
  \<open>run_job\<close> after the build: the slot is freed, the end recorded, a report offered to the attestor, the
  metrics updated, and the admission permit freed with the job. \<open>db_ok\<close> and \<open>att_ok\<close> are whether the
  two database writes succeed.
\<close>

definition finish_job :: "deployment \<Rightarrow> nat \<Rightarrow> bool \<Rightarrow> bool \<Rightarrow> job_end \<Rightarrow> job \<Rightarrow> service \<Rightarrow> service" where
  "finish_job su now db_ok att_ok ended j s =
     (let d = (if db_ok then record_end now ended (jb_id j) (sv_db s) else sv_db s);
          d = (case ended of
                 Reproduced rep \<Rightarrow> enqueue (su_libs su) (su_attesting su) now att_ok (jb_id j) rep d
               | Not_Reproduced _ \<Rightarrow> d)
      in s\<lparr>sv_db := d, sv_building := remove1 j (sv_building s),
           sv_metrics := on_finished (end_outcome ended) (end_build_ms ended) (sv_metrics s),
           sv_lost := (if db_ok then sv_lost s else sv_lost s @ [jb_id j])\<rparr>)"

section \<open>Public reads\<close>

text \<open>\<open>str::parse::<i64>\<close>.\<close>

definition parse_i64 :: "string \<Rightarrow> int option" where
  "parse_i64 s =
     (let (neg, ds) = (if starts_with s ''-'' then (True, drop 1 s)
                       else if starts_with s ''+'' then (False, drop 1 s) else (False, s))
      in if ds = [] then None
         else case read_digits 0 ds of
           None \<Rightarrow> None
         | Some n \<Rightarrow>
             let z = (if neg then - int n else int n) in
             if - (2 ^ 63) \<le> z \<and> z < 2 ^ 63 then Some z else None)"

definition list_verifications ::
  "nat option \<Rightarrow> nat option \<Rightarrow> db \<Rightarrow> api_error + (nat \<times> nat \<times> nat \<times> job_status verification_row list)" where
  "list_verifications limit offset d =
     (let limit = min (case limit of None \<Rightarrow> DEFAULT_PAGE | Some n \<Rightarrow> n) MAX_PAGE;
          offset = (case offset of None \<Rightarrow> 0 | Some n \<Rightarrow> n) in
      rbind (map_err Internal (recent limit offset d)) (\<lambda>items. Inr (count_rows d, limit, offset, items)))"

definition get_verification :: "libs \<Rightarrow> string \<Rightarrow> db \<Rightarrow> api_error + job_status verification_row" where
  "get_verification l key d =
     rbind (map_err Internal (case parse_i64 key of Some i \<Rightarrow> get_row i d | None \<Rightarrow> lookup l key d)) (\<lambda>row.
     ok_or (Not_Found ''not_found'') row)"

section \<open>Starting up\<close>

text \<open>\<open>main.rs\<close>: an empty token is no token, and orphaned jobs are failed before anything is served.\<close>

definition ORPHANED_JOB_ERROR :: string where
  "ORPHANED_JOB_ERROR =
     ''verification was interrupted by a service restart and did not complete; resubmit to retry''"

definition api_token_from :: "string option \<Rightarrow> string option" where
  "api_token_from v = (case v of Some t \<Rightarrow> if t \<noteq> [] then Some t else None | None \<Rightarrow> None)"

definition start_service :: "nat \<Rightarrow> db \<Rightarrow> string + service" where
  "start_service now d =
     rbind (migrate d) (\<lambda>d. Inr (app_state_new (snd (fail_orphaned_pending now ORPHANED_JOB_ERROR d))))"

section \<open>All interleavings\<close>

text \<open>How a job can end: the engine returned, or its thread panicked.\<close>

definition job_ends :: "deployment \<Rightarrow> job \<Rightarrow> job_end \<Rightarrow> bool" where
  "job_ends su j ended \<longleftrightarrow>
     (\<exists>w r w'. reproduce (su_env su) (su_libs su) (su_docker su) (jb_request j) w = (r, w') \<and>
        ended = engine_end su r) \<or> (\<exists>e. ended = panic_end e)"

inductive service_step :: "deployment \<Rightarrow> service \<Rightarrow> service \<Rightarrow> bool" for su where
  Request: "admit su auth req instant s = (r, s') \<Longrightarrow> service_step su s s'"
| Dropped: "h \<in> set (sv_lookups s) \<Longrightarrow> service_step su s (release_lookup h s)"
| Resolved: "h \<in> set (sv_lookups s) \<Longrightarrow>
    expected_hash (su_libs su) rpc (su_rpc_url su) (fst h) = Inr hash \<Longrightarrow>
    accept_job su now db_ok h hash s = (r, s') \<Longrightarrow> service_step su s s'"
| Slot: "j \<in> set (sv_waiting s) \<Longrightarrow> length (sv_building s) < MAX_CONCURRENT_BUILDS \<Longrightarrow>
    service_step su s (begin_build j s)"
| Done: "j \<in> set (sv_building s) \<Longrightarrow> job_ends su j ended \<Longrightarrow>
    service_step su s (finish_job su now db_ok att_ok ended j s)"
| Picked: "su_attesting su \<Longrightarrow> sv_submitting s = None \<Longrightarrow> due_attestation now (sv_db s) = Inr (Some row) \<Longrightarrow>
    service_step su s (s\<lparr>sv_submitting := Some row\<rparr>)"
| Submitted: "sv_submitting s = Some row \<Longrightarrow> attempt cfg now db_ok run row (sv_db s) = (recorded, d) \<Longrightarrow>
    service_step su s (s\<lparr>sv_db := d, sv_submitting := None\<rparr>)"
| Restart: "start_service now (sv_db s) = Inr s' \<Longrightarrow> service_step su s s'"

inductive reachable :: "deployment \<Rightarrow> service \<Rightarrow> bool" for su where
  Fresh: "start_service now empty_db = Inr s \<Longrightarrow> reachable su s"
| Step: "reachable su s \<Longrightarrow> service_step su s s' \<Longrightarrow> reachable su s'"

inductive_cases service_stepE: "service_step su s s'"

end
