(* ===== verification/OutboxProps.thy ===== *)
theory OutboxProps
  imports Outbox
begin

text \<open>
  What the attestation path promises: no secret key survives redaction, every queued attestation is
  settled within a bounded time on the worker's own clock, and a settled one is never touched again.
\<close>

section \<open>Redaction\<close>

text \<open>The maximal alphanumeric words of a text.\<close>

fun words :: "string \<Rightarrow> string \<Rightarrow> string list" where
  "words acc [] = [acc]"
| "words acc (c # s) = (if is_alphanumeric c then words (acc @ [c]) s else acc # words [] s)"

lemma words_append: "list_all is_alphanumeric w \<Longrightarrow> words acc (w @ s) = words (acc @ w) s"
  by (induction w arbitrary: acc) simp_all

definition redact_word :: "string \<Rightarrow> string list" where
  "redact_word w = (if is_secret w then [''S'', [], [], ''redacted''] else [w])"

lemma words_REDACTED: "words [] (REDACTED @ s) = ''S'' # [] # [] # words ''redacted'' s"
proof -
  have "list_all is_alphanumeric ''redacted''" by code_simp
  from words_append [OF this, of "[]" s] show ?thesis
    by (simp add: REDACTED_def ELLIPSIS_def is_alphanumeric_def is_digit_def in_range_def)
qed

lemma words_redacted:
  assumes "list_all is_alphanumeric acc"
  shows "words [] (concat (map redact_piece (split_inclusive acc s))) = concat (map redact_word (words acc s))"
  using assms
proof (induction s arbitrary: acc)
  case Nil
  show ?case
  proof (cases "acc = []")
    case True
    then show ?thesis by (simp add: redact_word_def is_secret_def)
  next
    case False
    then have "is_alphanumeric (last acc)" using Nil by (simp add: list_all_iff)
    then show ?thesis
      using False Nil words_REDACTED [of "[]"] words_append [of acc "[]" "[]"]
      by (simp add: redact_piece_def redact_word_def)
  qed
next
  case (Cons c s)
  show ?case
  proof (cases "is_alphanumeric c")
    case True
    then show ?thesis using Cons.prems Cons.IH [of "acc @ [c]"] by simp
  next
    case False
    let ?rest = "concat (map redact_piece (split_inclusive [] s))"
    have "words [] (redact_piece (acc @ [c]) @ ?rest) = redact_word acc @ words [] ?rest"
      using False Cons.prems words_REDACTED [of "c # ?rest"] words_append [of acc "[]" "c # ?rest"]
      by (simp add: redact_piece_def redact_word_def)
    then show ?thesis using False Cons.IH [of "[]"] by simp
  qed
qed

text \<open>
  Property C33. No key gets out. In scrubbed CLI output every alphanumeric word that had the shape of a
  Stellar secret key is gone, replaced by the marker, every other word is kept as it was in its
  place, and no word of the output has that shape.
\<close>

theorem redact_sound:
  "words [] (redact s) = concat (map redact_word (words [] s)) \<and>
   list_all (\<lambda>w. \<not> is_secret w) (words [] (redact s))"
proof -
  have eq: "words [] (redact s) = concat (map redact_word (words [] s))"
    unfolding redact_def by (rule words_redacted) simp
  have "list_all (\<lambda>w. \<not> is_secret w) (redact_word w)" for w
    by (simp add: redact_word_def is_secret_def)
  then show ?thesis unfolding eq by (auto simp: list_all_iff)
qed

section \<open>The retry schedule\<close>

lemma backoff_schedule:
  "map backoff [1, 2, 3, 4, 5, 6, 7, 8, 9] = [5, 10, 20, 40, 80, 160, 300, 300, 300]"
  by code_simp

lemma backoff_bounds: "5 \<le> backoff n \<and> backoff n \<le> RETRY_CAP"
  by (simp add: backoff_def RETRY_BASE_def RETRY_CAP_def Let_def)

section \<open>Progress of the worker\<close>

text \<open>
  The worker's life: its turns, and what the service queues meanwhile (with the arguments of
  \<open>enqueue_attestation\<close>; this only ever wakes it earlier).
\<close>

datatype worker_event = Turn turn | Queued nat int string string string

fun worker_event_db :: "attest_config \<Rightarrow> libs \<Rightarrow> worker_event \<Rightarrow> db \<Rightarrow> db" where
  "worker_event_db cfg l (Turn u) d = snd (worker_turn cfg u d)"
| "worker_event_db cfg l (Queued now v w i r) d = snd (enqueue_attestation l now v w i r d)"

definition worker_loop :: "attest_config \<Rightarrow> libs \<Rightarrow> worker_event list \<Rightarrow> db \<Rightarrow> db" where
  "worker_loop cfg l es d = fold (worker_event_db cfg l) es d"

text \<open>
  The clock of the loop. From \<open>e\<close> on the worker is free, and its next turn starts by \<open>b\<close>, or \<open>lag\<close>
  seconds later at most: at once after a recorded attempt, else when it has slept, or earlier if it is
  woken. A command is given \<open>INVOKE_TIMEOUT\<close>.
\<close>

fun on_time :: "attest_config \<Rightarrow> libs \<Rightarrow> nat \<Rightarrow> nat \<Rightarrow> nat \<Rightarrow> worker_event list \<Rightarrow> db \<Rightarrow> bool" where
  "on_time cfg l lag e b [] d \<longleftrightarrow> True"
| "on_time cfg l lag e b (Turn u # es) d \<longleftrightarrow>
     e \<le> tn_start u \<and> tn_start u \<le> b + lag \<and>
     tn_start u \<le> tn_end u \<and> tn_end u \<le> tn_start u + INVOKE_TIMEOUT + lag \<and>
     (case worker_turn cfg u d of (wait, d') \<Rightarrow>
        on_time cfg l lag (tn_end u) (tn_end u + (case wait of None \<Rightarrow> 0 | Some secs \<Rightarrow> secs)) es d')"
| "on_time cfg l lag e b (Queued now v w i r # es) d \<longleftrightarrow>
     on_time cfg l lag e b es (snd (enqueue_attestation l now v w i r d))"

fun last_end :: "nat \<Rightarrow> worker_event list \<Rightarrow> nat" where
  "last_end e [] = e"
| "last_end e (Turn u # es) = last_end (tn_end u) es"
| "last_end e (Queued now v w i r # es) = last_end e es"

text \<open>The turns on which some query fails.\<close>

definition healthy :: "turn \<Rightarrow> bool" where
  "healthy u \<longleftrightarrow> tn_reads u \<and> tn_writes u \<and> tn_plans u"

fun failures :: "worker_event list \<Rightarrow> nat" where
  "failures [] = 0"
| "failures (Turn u # es) = (if healthy u then 0 else 1) + failures es"
| "failures (Queued now v w i r # es) = failures es"

text \<open>How many attempts the pending rows have left; \<open>J\<close> are the ids of the rows that are watched.\<close>

definition rows_in :: "int set \<Rightarrow> db \<Rightarrow> string attestation_row list" where
  "rows_in J d = filter (\<lambda>r. ar_id r \<in> J) (db_attestations d)"

definition left :: "string attestation_row \<Rightarrow> nat" where
  "left r = (if ar_status r = ''pending'' then nat (MAX_ATTEMPTS - ar_attempts r) else 0)"

definition attempts_left :: "int set \<Rightarrow> db \<Rightarrow> nat" where
  "attempts_left J d = sum_list (map left (rows_in J d))"

definition waiting_ok :: "nat \<Rightarrow> string attestation_row \<Rightarrow> bool" where
  "waiting_ok t r \<longleftrightarrow> ar_status r = ''pending'' \<longrightarrow>
     0 \<le> ar_attempts r \<and> ar_attempts r < MAX_ATTEMPTS \<and> ar_next_attempt_at r \<le> t"

text \<open>The watched rows are the oldest ones, and those of them that wait are due by \<open>t\<close>.\<close>

definition outbox_ok :: "int set \<Rightarrow> nat \<Rightarrow> db \<Rightarrow> bool" where
  "outbox_ok J t d \<longleftrightarrow> db_inv d \<and> J \<subseteq> ar_id ` set (db_attestations d) \<and>
     (\<forall>r \<in> set (db_attestations d). ar_id r \<notin> J \<longrightarrow> (\<forall>j \<in> J. j < ar_id r)) \<and>
     list_all (waiting_ok t) (rows_in J d)"

definition settled :: "db \<Rightarrow> string attestation_row list" where
  "settled d = filter (\<lambda>r. ar_status r \<noteq> ''pending'') (db_attestations d)"

definition all_settled :: "int set \<Rightarrow> db \<Rightarrow> bool" where
  "all_settled J d \<longleftrightarrow> (\<forall>j \<in> J. \<exists>r \<in> set (settled d). ar_id r = j)"

lemma update_where_sum_less:
  fixes w :: "'r \<Rightarrow> nat"
  assumes "r \<in> set rows" and "p r" and "w (f r) < w r" and "\<And>r. r \<in> set rows \<Longrightarrow> p r \<Longrightarrow> w (f r) \<le> w r"
  shows "sum_list (map w (update_where p f rows)) < sum_list (map w rows)"
proof -
  have le: "sum_list (map w (update_where p f xs)) \<le> sum_list (map w xs)" if "set xs \<subseteq> set rows" for xs
    using that assms(4) by (induction xs) (auto simp: update_where_def add_mono)
  from assms(1) obtain us vs where rows: "rows = us @ r # vs" by (auto simp: in_set_conv_decomp)
  have "sum_list (map w (update_where p f us)) \<le> sum_list (map w us)"
    "sum_list (map w (update_where p f vs)) \<le> sum_list (map w vs)" by (rule le, use rows in auto)+
  then show ?thesis using assms(2,3) by (simp add: rows update_where_def)
qed

text \<open>What one recorded attempt writes to the rows with the attempted id.\<close>

definition settles_or_defers ::
  "nat \<Rightarrow> int \<Rightarrow> (string attestation_row \<Rightarrow> string attestation_row) \<Rightarrow> bool" where
  "settles_or_defers now tried f \<longleftrightarrow> (\<forall>r. ar_id (f r) = ar_id r \<and>
     (ar_status (f r) \<noteq> ''pending'' \<or>
      (ar_status (f r) = ar_status r \<and> ar_attempts (f r) = ar_attempts r + 1 \<and>
       tried + 1 < MAX_ATTEMPTS \<and> ar_next_attempt_at (f r) \<le> now + RETRY_CAP)))"

lemma settles_finish:
  assumes "st \<noteq> Att_Pending"
  shows "settles_or_defers now tried (\<lambda>r. r\<lparr>ar_status := att_as_str st, ar_tx_hash := tx_hash,
    ar_last_error := error, ar_attempts := ar_attempts r + 1, ar_updated_at := now\<rparr>)"
  using assms by (cases st) (simp_all add: settles_or_defers_def)

lemma attempt_writes:
  "\<exists>f. settles_or_defers now (ar_attempts row) f \<and> attempt cfg now True run row d =
     (True, d\<lparr>db_attestations := update_where (\<lambda>r. ar_id r = ar_id row) f (db_attestations d)\<rparr>)"
proof (cases "submit cfg run")
  case (Inr tx)
  then show ?thesis
    using settles_finish [where st = Att_Submitted and tx_hash = tx and error = None and now = now and tried = "ar_attempts row"]
    by (auto simp: attempt_def attestation_submitted_def finish_attestation_def)
next
  case (Inl e)
  show ?thesis
  proof (cases e)
    case (Permanent why)
    then show ?thesis
      using Inl settles_finish [where st = Att_Rejected and tx_hash = None and error = "Some why" and now = now and tried = "ar_attempts row"]
      by (auto simp: attempt_def attestation_rejected_def finish_attestation_def)
  next
    case (Transient why)
    let ?next = "ar_attempts row + 1"
    show ?thesis
    proof (cases "MAX_ATTEMPTS \<le> ?next")
      case True
      then show ?thesis
        using Inl Transient settles_finish [where st = Att_Rejected and tx_hash = None and now = now and tried = "ar_attempts row"
          and error = "Some (''gave up after '' @ show_int ?next @ '' attempts; last error: '' @ why)"]
        by (auto simp: attempt_def attestation_rejected_def finish_attestation_def Let_def)
    next
      case False
      have "settles_or_defers now (ar_attempts row) (\<lambda>r. r\<lparr>ar_last_error := Some why,
          ar_attempts := ar_attempts r + 1, ar_next_attempt_at := now + backoff ?next, ar_updated_at := now\<rparr>)"
        using False backoff_bounds [of ?next] by (simp add: settles_or_defers_def)
      then show ?thesis
        using Inl Transient False by (auto simp: attempt_def attestation_retry_later_def Let_def)
    qed
  qed
qed

lemma attempt_inv: "db_inv d \<Longrightarrow> db_inv (snd (attempt cfg now ok run row d))"
  by (auto simp: attempt_def Let_def attestation_submitted_def attestation_rejected_def db_inv_ops
      split: sum.splits submit_error.splits)

lemma attestation_from_sql_Inr:
  assumes "attestation_from_sql r = Inr row"
  shows "ar_id row = ar_id r" and "ar_attempts row = ar_attempts r"
  using assms by (auto simp: attestation_from_sql_def rbind_eq_Inr)

text \<open>A turn either attempts the oldest due row and records it, or ends in a sleep with nothing changed.\<close>

lemma due_parses:
  "find (\<lambda>r. ar_status r = ''pending'' \<and> ar_next_attempt_at r \<le> now) rows = Some r \<Longrightarrow> \<exists>row. attestation_from_sql r = Inr row"
  by (auto simp: find_Some_iff attestation_from_sql_def att_parse_def)

lemma attempt_not_written: "attempt cfg now False run row d = (False, d)"
  by (simp add: attempt_def Let_def)

lemma worker_turn_cases:
  assumes "db_inv d"
  obtains (Attempt) r f where "r \<in> set (db_attestations d)" "ar_status r = ''pending''" "ar_next_attempt_at r \<le> tn_start u"
      "\<forall>x \<in> set (db_attestations d). ar_status x = ''pending'' \<and> ar_next_attempt_at x \<le> tn_start u \<longrightarrow> ar_id r \<le> ar_id x"
      "settles_or_defers (tn_end u) (ar_attempts r) f"
      "worker_turn cfg u d =
        (None, d\<lparr>db_attestations := update_where (\<lambda>x. ar_id x = ar_id r) f (db_attestations d)\<rparr>)"
      "db_inv (snd (worker_turn cfg u d))"
  | (Sleep) "worker_turn cfg u d = (Some (sleep_time (tn_end u) (tn_plans u) d), d)"
      "healthy u \<Longrightarrow> \<forall>x \<in> set (db_attestations d). ar_status x = ''pending'' \<longrightarrow> tn_start u < ar_next_attempt_at x"
proof -
  let ?p = "\<lambda>r. ar_status r = ''pending'' \<and> ar_next_attempt_at r \<le> tn_start u"
  show thesis
  proof (cases "find ?p (db_attestations d)")
    case None
    then have "\<forall>x \<in> set (db_attestations d). ar_status x = ''pending'' \<longrightarrow> tn_start u < ar_next_attempt_at x"
      by (auto simp: find_None_iff not_le)
    with None show thesis
      by (intro Sleep) (simp_all add: worker_turn_def due_attestation_def optional_row_def)
  next
    case (Some r)
    then obtain n where n: "n < length (db_attestations d)" "db_attestations d ! n = r" "?p r"
      "\<forall>m < n. \<not> ?p (db_attestations d ! m)" by (auto simp: find_Some_iff)
    from due_parses [OF Some] obtain row where row: "attestation_from_sql r = Inr row" ..
    have due: "due_attestation (tn_start u) d = Inr (Some row)"
      using Some row by (simp add: due_attestation_def optional_row_def)
    show thesis
    proof (cases "tn_reads u \<and> tn_writes u")
      case False
      with due show thesis
        by (intro Sleep) (auto simp: worker_turn_def attempt_not_written healthy_def)
    next
      case True
      have "sorted_wrt (<) (map ar_id (db_attestations d))" using assms by (simp add: db_inv_def ids_ordered_def)
      then have "ar_id r \<le> ar_id x" if "x \<in> set (db_attestations d)" "?p x" for x
      proof -
        from that obtain m where m: "m < length (db_attestations d)" "db_attestations d ! m = x"
          by (auto simp: in_set_conv_nth)
        with n that have "n \<le> m" by (metis not_le)
        with m n \<open>sorted_wrt (<) (map ar_id (db_attestations d))\<close> show ?thesis
          by (cases "n = m") (auto simp: sorted_wrt_iff_nth_less less_imp_le)
      qed
      moreover obtain f where "settles_or_defers (tn_end u) (ar_attempts row) f"
        "attempt cfg (tn_end u) True (tn_run u) row d =
          (True, d\<lparr>db_attestations := update_where (\<lambda>x. ar_id x = ar_id row) f (db_attestations d)\<rparr>)"
        using attempt_writes by blast
      moreover have "r \<in> set (db_attestations d)" using n by auto
      ultimately show thesis
        using True due n(3) attestation_from_sql_Inr [OF row] attempt_inv [OF assms, of cfg "tn_end u" True "tn_run u" row]
        by (intro Attempt [of r f]) (auto simp: worker_turn_def)
    qed
  qed
qed

lemma fold_min_start: "fold min ts t \<le> t" for t :: "'a :: linorder"
  by (induction ts arbitrary: t) (simp, metis fold_simps(2) min.boundedE min.commute)

lemma fold_min_le: "x \<in> set ts \<Longrightarrow> fold min ts t \<le> x" for x t :: "'a :: linorder"
proof (induction ts arbitrary: t)
  case (Cons y ts)
  then show ?case using fold_min_start [of ts "min y t"] by auto
qed simp

lemma sleep_bounds:
  "sleep_time now plans d \<le> IDLE_POLL"
  "plans \<Longrightarrow> x \<in> set (db_attestations d) \<Longrightarrow> ar_status x = ''pending'' \<Longrightarrow>
     now + sleep_time now plans d \<le> max (now + 1) (ar_next_attempt_at x)"
proof -
  show "sleep_time now plans d \<le> IDLE_POLL"
    by (auto simp: sleep_time_def IDLE_POLL_def split: option.split)
  assume x: "plans" "x \<in> set (db_attestations d)" "ar_status x = ''pending''"
  let ?ts = "map ar_next_attempt_at (filter (\<lambda>r. ar_status r = ''pending'') (db_attestations d))"
  have mem: "ar_next_attempt_at x \<in> set ?ts" using x by auto
  then obtain t ts where ts: "?ts = t # ts" by (cases ?ts) auto
  then have "fold min ts t \<le> ar_next_attempt_at x" using mem fold_min_le fold_min_start by auto
  with x(1) ts show "now + sleep_time now plans d \<le> max (now + 1) (ar_next_attempt_at x)"
    by (auto simp: sleep_time_def seconds_until_next_attestation_def)
qed

lemma same_id_same_row:
  assumes "db_inv d" and "r \<in> set (db_attestations d)" and "r' \<in> set (db_attestations d)" and "ar_id r = ar_id r'"
  shows "r = r'"
proof -
  have "inj_on ar_id (set (db_attestations d))"
    using assms(1) ids_ordered_distinct [of "map ar_id (db_attestations d)"]
    by (simp add: db_inv_def distinct_map)
  then show ?thesis using assms(4,2,3) by (rule inj_onD)
qed

lemma outbox_ok_mono: "outbox_ok J t d \<Longrightarrow> t \<le> t' \<Longrightarrow> outbox_ok J t' d"
  by (auto simp: outbox_ok_def list_all_iff waiting_ok_def)

text \<open>What one recorded attempt does to the watched rows.\<close>

lemma recorded_attempt:
  assumes "outbox_ok J t d" and "r \<in> set (db_attestations d)" and "ar_status r = ''pending''"
    and "settles_or_defers now (ar_attempts r) f"
    and "d' = d\<lparr>db_attestations := update_where (\<lambda>x. ar_id x = ar_id r) f (db_attestations d)\<rparr>" and "db_inv d'"
  shows "ar_id r \<in> J \<Longrightarrow> outbox_ok J (max t (now + RETRY_CAP)) d' \<and> attempts_left J d' < attempts_left J d"
    and "ar_id r \<notin> J \<Longrightarrow> outbox_ok J t d' \<and> attempts_left J d' = attempts_left J d"
    and "set (settled d) \<subseteq> set (settled d')"
proof -
  have inv: "db_inv d" and ok: "list_all (waiting_ok t) (rows_in J d)" using assms(1) by (simp_all add: outbox_ok_def)
  have only: "x = r" if "x \<in> set (db_attestations d)" "ar_id x = ar_id r" for x
    using same_id_same_row [OF inv that(1) assms(2) that(2)] .
  have id: "ar_id (f x) = ar_id x" for x using assms(4) by (simp add: settles_or_defers_def)
  have ids: "map ar_id (db_attestations d') = map ar_id (db_attestations d)"
    by (simp add: assms(5) update_where_def id)
  have set': "ar_id ` set (db_attestations d') = ar_id ` set (db_attestations d)" using ids by (metis set_map)
  have "\<forall>i \<in> ar_id ` set (db_attestations d). i \<notin> J \<longrightarrow> (\<forall>j \<in> J. j < i)"
    using assms(1) by (simp add: outbox_ok_def)
  then have "\<forall>i \<in> ar_id ` set (db_attestations d'). i \<notin> J \<longrightarrow> (\<forall>j \<in> J. j < i)" by (simp only: set')
  then have "\<forall>r \<in> set (db_attestations d'). ar_id r \<notin> J \<longrightarrow> (\<forall>j \<in> J. j < ar_id r)" by blast
  then have keep: "outbox_ok J t' d'" if "list_all (waiting_ok t') (rows_in J d')" for t'
    using assms(1,6) set' that by (simp add: outbox_ok_def)
  have rows: "rows_in J d' = update_where (\<lambda>x. ar_id x = ar_id r) f (rows_in J d)"
    by (simp add: rows_in_def assms(5) update_where_def filter_map comp_def id if_distrib cong: if_cong)
  show "set (settled d) \<subseteq> set (settled d')"
  proof
    fix x assume "x \<in> set (settled d)"
    then have x: "x \<in> set (db_attestations d)" "ar_status x \<noteq> ''pending''" by (auto simp: settled_def)
    then have "ar_id x \<noteq> ar_id r" using only assms(3) by blast
    with x show "x \<in> set (settled d')" by (force simp: settled_def assms(5) update_where_def)
  qed
  show "ar_id r \<notin> J \<Longrightarrow> outbox_ok J t d' \<and> attempts_left J d' = attempts_left J d"
  proof -
    assume "ar_id r \<notin> J"
    then have "rows_in J d' = rows_in J d"
      unfolding rows by (auto simp: update_where_def rows_in_def intro!: map_idI)
    with ok keep show ?thesis by (simp add: attempts_left_def)
  qed
  assume J: "ar_id r \<in> J"
  then have r: "r \<in> set (rows_in J d)" using assms(2) by (simp add: rows_in_def)
  then have fr: "left (f r) < left r" "waiting_ok (now + RETRY_CAP) (f r)"
    using assms(3,4) ok by (auto simp: settles_or_defers_def left_def waiting_ok_def list_all_iff)
  have "left (f x) \<le> left x" if "x \<in> set (rows_in J d)" "ar_id x = ar_id r" for x
    using only [OF _ that(2)] that(1) fr(1) by (simp add: rows_in_def)
  then have less: "attempts_left J d' < attempts_left J d"
    unfolding attempts_left_def rows
    using update_where_sum_less [of r "rows_in J d" "\<lambda>x. ar_id x = ar_id r" left f] r fr(1) by simp
  have "list_all (waiting_ok (max t (now + RETRY_CAP))) (rows_in J d')"
    unfolding rows using ok fr(2) only
    by (fastforce simp: list_all_iff update_where_def waiting_ok_def rows_in_def)
  with keep less show "outbox_ok J (max t (now + RETRY_CAP)) d' \<and> attempts_left J d' < attempts_left J d" by blast
qed

lemma queued_keeps:
  assumes "outbox_ok J t d" and "d' = snd (enqueue_attestation l now v w i r d)"
  shows "outbox_ok J t d' \<and> attempts_left J d' = attempts_left J d \<and> set (settled d) \<subseteq> set (settled d')"
proof -
  have inv: "db_inv d'" using assms by (simp add: outbox_ok_def db_inv_enqueue)
  have new: "j < next_id (map ar_id (db_attestations d))" if "j \<in> J" for j
    using assms(1) that by (auto simp: outbox_ok_def intro!: next_id_greater)
  then have "next_id (map ar_id (db_attestations d)) \<notin> J" by blast
  with assms inv new show ?thesis
    by (auto simp: outbox_ok_def enqueue_attestation_def Let_def rows_in_def attempts_left_def settled_def)
qed

lemma turn_keeps:
  assumes "outbox_ok J t d"
  shows "set (settled d) \<subseteq> set (settled (snd (worker_turn cfg u d)))"
    and "outbox_ok J (max t (tn_end u + RETRY_CAP)) (snd (worker_turn cfg u d))"
proof -
  have inv: "db_inv d" using assms by (simp add: outbox_ok_def)
  have "set (settled d) \<subseteq> set (settled (snd (worker_turn cfg u d))) \<and>
    outbox_ok J (max t (tn_end u + RETRY_CAP)) (snd (worker_turn cfg u d))"
    using inv
  proof (cases rule: worker_turn_cases [where u = u and cfg = cfg])
    case (Attempt r f)
    note step = recorded_attempt [OF assms Attempt(1,2,5) HOL.refl Attempt(7) [unfolded Attempt(6) snd_conv]]
    show ?thesis unfolding Attempt(6) snd_conv using step outbox_ok_mono [OF _ max.cobounded1] by blast
  next
    case Sleep
    then show ?thesis using outbox_ok_mono [OF assms max.cobounded1] by simp
  qed
  then show "set (settled d) \<subseteq> set (settled (snd (worker_turn cfg u d)))"
    and "outbox_ok J (max t (tn_end u + RETRY_CAP)) (snd (worker_turn cfg u d))" by simp_all
qed

lemma loop_keeps:
  assumes "outbox_ok J t d"
  shows "set (settled d) \<subseteq> set (settled (worker_loop cfg l es d))"
  using assms
proof (induction es arbitrary: t d)
  case (Cons ev es)
  then have "set (settled d) \<subseteq> set (settled (worker_event_db cfg l ev d)) \<and>
      (\<exists>t'. outbox_ok J t' (worker_event_db cfg l ev d))"
    using turn_keeps queued_keeps by (cases ev) (fastforce simp: HOL.refl)+
  with Cons.IH show ?case by (fastforce simp: worker_loop_def)
qed (simp add: worker_loop_def)

lemma unsettled:
  assumes "outbox_ok J t d" and "\<not> all_settled J d"
  obtains x where "x \<in> set (db_attestations d)" "ar_id x \<in> J" "ar_status x = ''pending''" "ar_next_attempt_at x \<le> t"
proof -
  from assms(2) obtain j where j: "j \<in> J" "\<forall>r \<in> set (settled d). ar_id r \<noteq> j" by (auto simp: all_settled_def)
  with assms(1) obtain x where x: "x \<in> set (db_attestations d)" "ar_id x = j" by (auto simp: outbox_ok_def)
  with j have "ar_status x = ''pending''" by (auto simp: settled_def)
  moreover from this x j assms(1) have "ar_next_attempt_at x \<le> t"
    by (auto simp: outbox_ok_def rows_in_def list_all_iff waiting_ok_def)
  ultimately show thesis using x j that by blast
qed

text \<open>
  The potential: every attempt left and every failing turn to come pays for one wait of at most
  \<open>turn_budget\<close> seconds.
\<close>

definition turn_budget :: "nat \<Rightarrow> nat" where
  "turn_budget lag = RETRY_CAP + 2 * INVOKE_TIMEOUT + 3 * lag + 1"

lemma settles_by:
  assumes "outbox_ok J t d" and "on_time cfg l lag e b es d" and "e \<le> b" and "b \<le> t + INVOKE_TIMEOUT + lag + 1"
    and "\<not> all_settled J (worker_loop cfg l es d)"
  shows "last_end e es \<le> t + INVOKE_TIMEOUT + lag + 1 + (attempts_left J d + failures es) * turn_budget lag"
  using assms
proof (induction es arbitrary: t d e b)
  case (Cons ev es)
  note ok = Cons.prems(1)
  have "\<not> all_settled J d"
    using loop_keeps [OF ok, of cfg l "ev # es"] Cons.prems(5) by (fastforce simp: all_settled_def)
  then obtain x where x: "x \<in> set (db_attestations d)" "ar_id x \<in> J" "ar_status x = ''pending''" "ar_next_attempt_at x \<le> t"
    using unsettled [OF ok] by blast
  show ?case
  proof (cases ev)
    case (Queued now v w i r)
    let ?d = "snd (enqueue_attestation l now v w i r d)"
    from queued_keeps [OF ok HOL.refl, of l now v w i r] Cons.prems(2-5)
    show ?thesis using Cons.IH [of t ?d e b] by (simp add: Queued worker_loop_def)
  next
    case (Turn u)
    obtain wait d' where turn: "worker_turn cfg u d = (wait, d')" by (cases "worker_turn cfg u d")
    let ?b = "tn_end u + (case wait of None \<Rightarrow> 0 | Some secs \<Rightarrow> secs)" and ?t = "max t (tn_end u + RETRY_CAP)"
    from Cons.prems(2) have clock: "tn_start u \<le> b + lag" "tn_end u \<le> tn_start u + INVOKE_TIMEOUT + lag"
      and rest: "on_time cfg l lag (tn_end u) ?b es d'" by (simp_all add: Turn turn)
    have un: "\<not> all_settled J (worker_loop cfg l es d')" using Cons.prems(5) by (simp add: Turn turn worker_loop_def)
    have IH: "outbox_ok J t' d' \<Longrightarrow> ?b \<le> t' + INVOKE_TIMEOUT + lag + 1 \<Longrightarrow> last_end (tn_end u) es \<le>
        t' + INVOKE_TIMEOUT + lag + 1 + (attempts_left J d' + failures es) * turn_budget lag" for t'
      using Cons.IH [OF _ rest _ _ un] by simp
    have late: "?t \<le> t + turn_budget lag"
      using clock Cons.prems(4) by (simp add: turn_budget_def)
    text \<open>A wait that is paid for.\<close>
    have paid: "last_end e (ev # es) \<le> t + INVOKE_TIMEOUT + lag + 1 + (attempts_left J d + failures (ev # es)) * turn_budget lag"
      if "outbox_ok J ?t d'" "?b \<le> ?t" "Suc (attempts_left J d' + failures es) \<le> attempts_left J d + failures (ev # es)"
    proof -
      have "last_end (tn_end u) es \<le> ?t + INVOKE_TIMEOUT + lag + 1 + (attempts_left J d' + failures es) * turn_budget lag"
        using IH [OF that(1)] that(2) by simp
      also have "\<dots> \<le> t + INVOKE_TIMEOUT + lag + 1 + Suc (attempts_left J d' + failures es) * turn_budget lag"
        using late by simp
      also have "\<dots> \<le> t + INVOKE_TIMEOUT + lag + 1 + (attempts_left J d + failures (ev # es)) * turn_budget lag"
        using mult_le_mono1 [OF that(3)] by simp
      finally show ?thesis by (simp add: Turn)
    qed
    text \<open>A turn before the watched row is due.\<close>
    have free: "last_end e (ev # es) \<le> t + INVOKE_TIMEOUT + lag + 1 + (attempts_left J d + failures (ev # es)) * turn_budget lag"
      if "outbox_ok J t d'" "attempts_left J d' = attempts_left J d" "?b \<le> t + INVOKE_TIMEOUT + lag + 1"
    proof -
      have "last_end (tn_end u) es \<le> t + INVOKE_TIMEOUT + lag + 1 + (attempts_left J d + failures es) * turn_budget lag"
        using IH [OF that(1,3)] that(2) by simp
      also have "\<dots> \<le> t + INVOKE_TIMEOUT + lag + 1 + (attempts_left J d + failures (ev # es)) * turn_budget lag"
        by (simp add: Turn)
      finally show ?thesis by (simp add: Turn)
    qed
    have inv: "db_inv d" using ok by (simp add: outbox_ok_def)
    from inv show ?thesis
    proof (cases rule: worker_turn_cases [where u = u and cfg = cfg])
      case (Attempt r f)
      from Attempt(6,7) turn have w: "wait = None" and inv': "db_inv d'" and d': "d' = d\<lparr>db_attestations :=
          update_where (\<lambda>x. ar_id x = ar_id r) f (db_attestations d)\<rparr>" by simp_all
      note step = recorded_attempt [OF ok Attempt(1,2,5) d' inv']
      show ?thesis
      proof (cases "ar_id r \<in> J")
        case True
        with step(1) w show ?thesis by (intro paid) (auto simp: Turn)
      next
        case False
        then have "ar_id x < ar_id r" using ok x(2) Attempt(1) by (auto simp: outbox_ok_def)
        then have "tn_start u < ar_next_attempt_at x" using Attempt(4) x by (metis not_le)
        with step(2) [OF False] w x(4) clock(2) show ?thesis by (intro free) auto
      qed
    next
      case Sleep
      from Sleep(1) turn have w: "wait = Some (sleep_time (tn_end u) (tn_plans u) d)" and d': "d' = d" by simp_all
      show ?thesis
      proof (cases "healthy u")
        case True
        then have "tn_end u + sleep_time (tn_end u) (tn_plans u) d \<le> max (tn_end u + 1) (ar_next_attempt_at x)"
          using sleep_bounds(2) x by (simp add: healthy_def)
        moreover have "tn_start u < t" using Sleep(2) [OF True] x by fastforce
        ultimately show ?thesis using ok w d' x(4) clock(2) by (intro free) auto
      next
        case False
        have "tn_end u + sleep_time (tn_end u) (tn_plans u) d \<le> ?t"
          using sleep_bounds(1) [of "tn_end u" "tn_plans u" d] by (simp add: IDLE_POLL_def RETRY_CAP_def)
        with False w d' show ?thesis using outbox_ok_mono [OF ok max.cobounded1] by (intro paid) (simp_all add: Turn)
      qed
    qed
  qed
qed (simp add: worker_loop_def)

lemma attempts_left_le:
  assumes "list_all (waiting_ok t) (db_attestations d)"
  shows "attempts_left J d \<le> 10 * length (db_attestations d)"
proof -
  have "sum_list (map left (filter p rows)) \<le> 10 * length rows" if "list_all (waiting_ok t) rows" for p rows
    using that by (induction rows) (auto simp: left_def waiting_ok_def MAX_ATTEMPTS_def)
  with assms show ?thesis by (simp add: attempts_left_def rows_in_def)
qed

text \<open>
  Property C34. Every attestation is settled. Let the worker be free at time t, with every pending row due by
  then or within \<open>wait\<close> seconds. Whatever the CLI does on each run, up to its time limit, whatever
  is queued meanwhile, and with each turn starting when the loop has it start (at most \<open>lag\<close> seconds
  late): once the worker has lived for the wait and 421 seconds (and three lags) for each of ten
  attempts per row and each turn on which SQLite failed, every row is submitted or rejected; and
  rows that were already settled are exactly as they were.
\<close>

theorem attestations_settle:
  assumes "db_inv d" and "list_all (waiting_ok (t + wait)) (db_attestations d)" and "on_time cfg l lag t t es d"
    and "t + wait + 61 + lag + (10 * length (db_attestations d) + failures es) * (421 + 3 * lag) < last_end t es"
    and "r \<in> set (db_attestations d)"
  shows "\<exists>r' \<in> set (db_attestations (worker_loop cfg l es d)). ar_id r' = ar_id r \<and> ar_status r' \<noteq> ''pending'' \<and>
    (ar_status r \<noteq> ''pending'' \<longrightarrow> r' = r)"
proof -
  let ?J = "ar_id ` set (db_attestations d)"
  have ok: "outbox_ok ?J (t + wait) d" using assms(1,2) by (auto simp: outbox_ok_def rows_in_def list_all_iff)
  have "attempts_left ?J d + failures es \<le> 10 * length (db_attestations d) + failures es"
    using attempts_left_le [OF assms(2)] by simp
  then have "(attempts_left ?J d + failures es) * (421 + 3 * lag) \<le>
      (10 * length (db_attestations d) + failures es) * (421 + 3 * lag)" by (rule mult_le_mono1)
  with assms(4) have "\<not> last_end t es \<le> t + wait + 60 + lag + 1 + (attempts_left ?J d + failures es) * (421 + 3 * lag)"
    by linarith
  then have "\<not> last_end t es \<le> t + wait + INVOKE_TIMEOUT + lag + 1 + (attempts_left ?J d + failures es) * turn_budget lag"
    by (simp only: turn_budget_def RETRY_CAP_def INVOKE_TIMEOUT_def) simp
  then have "all_settled ?J (worker_loop cfg l es d)"
    using settles_by [OF ok assms(3)] by auto
  moreover have "set (settled d) \<subseteq> set (settled (worker_loop cfg l es d))" by (rule loop_keeps [OF ok])
  ultimately show ?thesis using assms(5)
    by (cases "ar_status r = ''pending''") (auto simp: all_settled_def settled_def)
qed

definition demo_outbox :: db where
  "demo_outbox = snd (enqueue_attestation demo_libs 7 1 ''w'' ''i'' ''r'' empty_db)"

definition demo_attest :: attest_config where
  "demo_attest = \<lparr>ac_cli = ''stellar'', ac_registry_id = ''CREG'', ac_rpc_url = ''http://rpc'',
     ac_network_passphrase = TESTNET_PASSPHRASE, ac_config_home = ''db.stellar'', ac_address = ''GVER''\<rparr>"

text \<open>A worker that submits the one row on its first turn and then looks once a minute.\<close>

definition demo_turn :: "nat \<Rightarrow> turn" where
  "demo_turn now = \<lparr>tn_start = now, tn_end = now, tn_reads = True, tn_writes = True, tn_plans = True,
     tn_run = Exited (Some 0) [] []\<rparr>"

fun demo_idle :: "nat \<Rightarrow> nat \<Rightarrow> worker_event list" where
  "demo_idle e 0 = []"
| "demo_idle e (Suc n) = Turn (demo_turn (e + 60)) # demo_idle (e + 60) n"

definition demo_life :: "worker_event list" where
  "demo_life = Turn (demo_turn 7) # Turn (demo_turn 7) # demo_idle 7 72"

lemma idle_turn:
  assumes "list_all (\<lambda>r. ar_status r \<noteq> ''pending'') (db_attestations d)"
  shows "worker_turn cfg (demo_turn now) d = (Some 60, d)"
proof -
  have "find (\<lambda>r. ar_status r = ''pending'' \<and> ar_next_attempt_at r \<le> now) (db_attestations d) = None"
    "filter (\<lambda>r. ar_status r = ''pending'') (db_attestations d) = []"
    using assms by (auto simp: list_all_iff find_None_iff filter_empty_conv)
  then show ?thesis
    by (simp add: worker_turn_def demo_turn_def due_attestation_def optional_row_def sleep_time_def
        seconds_until_next_attestation_def IDLE_POLL_def)
qed

lemma idle_on_time:
  assumes "list_all (\<lambda>r. ar_status r \<noteq> ''pending'') (db_attestations d)"
  shows "on_time cfg l lag e (e + 60) (demo_idle e n) d \<and> last_end e (demo_idle e n) = e + 60 * n \<and>
    failures (demo_idle e n) = 0"
proof (induction n arbitrary: e)
  case (Suc n)
  from Suc [of "e + 60"] show ?case
    by (simp add: idle_turn [OF assms]) (simp add: demo_turn_def healthy_def)
qed simp

lemma demo_life_on_time:
  "on_time demo_attest demo_libs 0 7 7 demo_life demo_outbox \<and> last_end 7 demo_life = 4327 \<and> failures demo_life = 0"
proof -
  have "fst (worker_turn demo_attest (demo_turn 7) demo_outbox) = None"
    "list_all (\<lambda>r. ar_status r \<noteq> ''pending'') (db_attestations (snd (worker_turn demo_attest (demo_turn 7) demo_outbox)))"
    by code_simp+
  then obtain d where turn: "worker_turn demo_attest (demo_turn 7) demo_outbox = (None, d)"
    and finished: "list_all (\<lambda>r. ar_status r \<noteq> ''pending'') (db_attestations d)"
    by (cases "worker_turn demo_attest (demo_turn 7) demo_outbox") simp
  note idle = idle_turn [OF finished] idle_on_time [OF finished, of demo_attest demo_libs 0 7 72]
  have times: "tn_start (demo_turn n) = n" "tn_end (demo_turn n) = n" "healthy (demo_turn n)" for n
    by (simp_all add: demo_turn_def healthy_def)
  show ?thesis using idle(2) by (simp add: demo_life_def turn idle(1) times)
qed

theorem attestations_settle_witness:
  "\<exists>r \<in> set (db_attestations (worker_loop demo_attest demo_libs demo_life demo_outbox)). ar_status r \<noteq> ''pending''"
proof -
  have "db_inv demo_outbox" unfolding demo_outbox_def by (intro db_inv_ops db_inv_empty)
  moreover have "list_all (waiting_ok (7 + 0)) (db_attestations demo_outbox)" "length (db_attestations demo_outbox) = 1"
    by (simp_all add: demo_outbox_def enqueue_attestation_def empty_db_def Let_def waiting_ok_def MAX_ATTEMPTS_def)
  moreover from this(2) obtain r where "r \<in> set (db_attestations demo_outbox)" by (cases "db_attestations demo_outbox") auto
  ultimately show ?thesis
    using attestations_settle [of demo_outbox 7 0 demo_attest demo_libs 0 demo_life r] demo_life_on_time by auto
qed

end
