(* ===== verification/ReproduceProps.thy ===== *)
theory ReproduceProps
  imports Reproduce "HOL-Library.Multiset"
begin

text \<open>
  What a reproduction does to the machine and what its verdict means: sandboxing of every container,
  what becomes of every container and volume, and the conditions behind Verified.
\<close>

section \<open>Reading docker events\<close>

text \<open>The docker arguments of an event, if it runs docker.\<close>

definition docker_args :: "docker \<Rightarrow> event \<Rightarrow> string list option" where
  "docker_args d ev = (case ev of
     Process sp r \<Rightarrow>
       if sp_program sp = dk_program d \<and> prefix (dk_prefix d) (sp_args sp)
       then Some (drop (length (dk_prefix d)) (sp_args sp)) else None
   | _ \<Rightarrow> None)"

lemma docker_args_spawn [simp]:
  "docker_args d (Process (docker_spawn d args stdin limit) r) = Some args"
  by (simp add: docker_args_def docker_spawn_def)

lemma docker_args_other [simp]:
  "docker_args d (Get u r) = None" "docker_args d (Resolve h p a) = None" "docker_args d (File op x) = None"
  by (simp_all add: docker_args_def)

text \<open>The docker program is not one of the tools the source routes run.\<close>

definition own_program :: "docker \<Rightarrow> bool" where
  "own_program d \<longleftrightarrow> dk_program d \<notin> {''git'', ''gzip''}"

lemma docker_args_tools:
  assumes "own_program d"
  shows "docker_args d (Process (git_clone_spawn a b) r) = None"
    "docker_args d (Process (git_archive_spawn a b) r) = None"
    "docker_args d (Process (gunzip_spawn x) r) = None"
  using assms
  by (auto simp: docker_args_def git_clone_spawn_def git_archive_spawn_def gunzip_spawn_def own_program_def)

text \<open>Fetching the source runs no docker command.\<close>

lemma fetch_all_events:
  assumes "\<And>host port r. p (Resolve host port r)" and "\<And>u r. p (Get u r)" and "\<And>op r. p (File op r)"
    and "\<And>a b r. p (Process (git_clone_spawn a b) r)" and "\<And>a b r. p (Process (git_archive_spawn a b) r)"
    and "\<And>x r. p (Process (gunzip_spawn x) r)"
  shows "all_events p (fetch env l src)"
proof (cases src)
  case (Git repo commit)
  have "all_events p (if is_http repo then guard_public_url env l repo else ret ())"
    using assms(1) by (simp add: guard_all_events all_events_basic)
  moreover have "all_events p (clone_and_export env repo commit tmp)" for tmp
    unfolding clone_and_export_def by (intro all_events_intros assms)
  ultimately show ?thesis unfolding Git fetch.simps fetch_git_def Let_def
    by (intro all_events_andThen all_events_basic)
next
  case (Archive uri sha)
  have "all_events p (gunzip env data)" for data
    by (auto simp: gunzip_def intro!: all_events_intros assms(6))
  then have "all_events p (check_and_stage env l sha data)" for data
    unfolding check_and_stage_def Let_def by (auto intro!: all_events_intros)
  then have "all_events p (case rs_body resp of
       Inl e \<Rightarrow> fail_with (SourceFetch (''reading '' @ uri @ '': '' @ e))
     | Inr body \<Rightarrow>
         let data = take (MAX_ARCHIVE_BYTES + 1) body in
         if MAX_ARCHIVE_BYTES < length data
         then fail_with (SourceFetch (''source archive exceeds the '' @ show_nat MAX_ARCHIVE_BYTES @
                '' byte limit''))
         else check_and_stage env l sha data)" for resp :: response
    by (simp add: Let_def all_events_basic split: sum.splits)
  then show ?thesis
    unfolding Archive fetch.simps fetch_archive_def get_with_guarded_redirects_def
    by (intro all_events_andThen get_hops_all_events assms)
qed

section \<open>Any predicate of docker events\<close>

text \<open>
  One induction over the pipeline for every property of single events: it is enough to look at the
  docker commands the pipeline can issue.
\<close>

definition pipeline_command :: "env \<Rightarrow> request \<Rightarrow> string list \<Rightarrow> bool" where
  "pipeline_command env rq args \<longleftrightarrow>
     args = [''version'', ''--format'', ''{{.Server.Version}}''] \<or>
     (\<exists>v. args = [''volume'', ''create'', v]) \<or> (\<exists>v. args = [''volume'', ''rm'', ''--force'', v]) \<or>
     (\<exists>v. args = create_args (fetch_spec env rq (STAGE_DIR @ ''/'' @ STAGED_TOP_DIR) v)) \<or>
     (\<exists>v. args = create_args (build_spec rq (STAGE_DIR @ ''/'' @ STAGED_TOP_DIR) v)) \<or>
     (\<exists>c. args = [''cp'', ''-'', c @ '':'' @ STAGE_DIR]) \<or>
     (\<exists>c s. args = [''cp'', c @ '':'' @ s, ''-'']) \<or>
     (\<exists>c. args = [''start'', ''--attach'', c]) \<or> (\<exists>c. args = [''kill'', c]) \<or>
     (\<exists>c. args = [''rm'', ''--force'', ''--volumes'', c]) \<or>
     args = [''image'', ''inspect'', rq_bldimg rq, ''--format'', ''{{json .RepoDigests}}'']"

lemma reproduce_all_events:
  assumes src: "\<And>env l. all_events p (fetch env l (rq_source rq))"
    and cmd: "\<And>args stdin limit r. pipeline_command env rq args \<Longrightarrow>
      p (Process (docker_spawn d args stdin limit) r)"
    and files: "\<And>op r. p (File op r)"
  shows "all_events p (reproduce env l d rq)"
proof -
  have c: "p (Process (docker_spawn d args stdin limit) r)"
    if "pipeline_command env rq args" for args stdin limit r using cmd that .
  have put: "all_events p (put_archive env d cid STAGE_DIR tar)" for cid tar
    by (rule put_archive_all_events) (auto intro!: c simp: pipeline_command_def)
  have run: "all_events p (run_to_completion env d cid t)" for cid t
    by (rule run_all_events) (auto intro!: c simp: pipeline_command_def)
  have drop: "all_events p (drop_container env d cid)" for cid
    unfolding drop_container_def by (rule docker_all_events) (auto intro!: c simp: pipeline_command_def)
  have vol: "all_events p (create_volume env d v)" "all_events p (drop_volume env d v)" for v
    unfolding drop_volume_def
    by (rule create_volume_all_events docker_all_events; auto intro!: c simp: pipeline_command_def)+
  have cr1: "all_events p (docker_create env d (fetch_spec env rq (STAGE_DIR @ ''/'' @ STAGED_TOP_DIR) v))" for v
    by (rule create_all_events) (auto intro!: c simp: pipeline_command_def)
  have cr2: "all_events p (docker_create env d (build_spec rq (STAGE_DIR @ ''/'' @ STAGED_TOP_DIR) v))" for v
    by (rule create_all_events) (auto intro!: c simp: pipeline_command_def)
  have get: "all_events p (get_archive env d cid s)" for cid s
    by (rule get_archive_all_events, rule c, unfold pipeline_command_def)
      (rule disjI2, rule disjI2, rule disjI2, rule disjI2, rule disjI2, rule disjI2, rule disjI1,
        intro exI, rule refl)
  have ext: "all_events p (extract_wasm env l d cid wd)" for cid wd
  proof -
    have "all_events p (case r of Inr tar \<Rightarrow> lift_result (select_wasm_from_tar l tar)
      | Inl e \<Rightarrow> (case e of Docker msg \<Rightarrow> if is_missing_path msg then fail_with NoWasmProduced else fail_with e
          | _ \<Rightarrow> fail_with e))" for r
      by (auto simp: all_events_basic split: sum.splits verify_error.splits)
    then show ?thesis unfolding extract_wasm_def by (intro all_events_intros get)
  qed
  have img: "all_events p (image_digest env l d (rq_bldimg rq))"
    unfolding image_digest_def
    by (intro all_events_intros docker_all_events c) (auto simp: pipeline_command_def)
  have emit: "all_events p (case rq_emit_wasm rq of None \<Rightarrow> ret () | Some path \<Rightarrow> do_file env (Write_File path w))" for w
    by (auto simp: all_events_basic files split: option.splits)
  have fetch_deps: "all_events p
      (fetch_dependencies env d rq source (STAGE_DIR @ ''/'' @ STAGED_TOP_DIR) v t)" for source v t
  proof -
    have "all_events p (if ro_exit_code run \<noteq> 0 then fail_with (BuildFailed (ro_exit_code run) (ro_log run))
        else ret ())" for run by (simp add: all_events_basic)
    then show ?thesis
      unfolding fetch_dependencies_def by (intro all_events_intros cr1 put run drop)
  qed
  have build: "all_events p (build_and_compare env l d rq source wd cid t)" for source wd cid t
    unfolding build_and_compare_def Let_def
    by (intro all_events_andThen put run all_events_basic)
      (auto intro!: all_events_andThen ext emit img all_events_try simp: all_events_basic)
  have phases: "all_events p (run_phases env l d rq source v)" for source v
    unfolding run_phases_def Let_def
    by (intro all_events_andThen all_events_with_drop fetch_deps cr2 build drop all_events_basic)
  have pre: "all_events p (preflight env d)"
    unfolding preflight_def
    by (intro all_events_intros docker_all_events c) (auto simp: pipeline_command_def)
  show ?thesis
  proof (cases "\<not> rq_allow_unpinned rq \<and> \<not> contains (rq_bldimg rq) ''@sha256:''")
    case True
    then show ?thesis by (simp add: reproduce_def all_events_basic)
  next
    case False
    have "all_events p (andThen (preflight env d) (\<lambda>_.
        andThen (fetch env l (rq_source rq)) (\<lambda>source.
        andThen (unique_token env) (\<lambda>token.
        andThen (create_volume env d (''verify-cargo-'' @ token)) (\<lambda>cargo_home.
        with_drop (run_phases env l d rq source cargo_home) (drop_volume env d cargo_home))))))"
      by (intro all_events_andThen all_events_with_drop pre src vol phases all_events_basic)
    with False show ?thesis by (simp add: reproduce_def all_events_basic)
  qed
qed

section \<open>The sandbox\<close>

definition hardening :: "string list" where
  "hardening = [''--cap-drop=ALL'', ''--security-opt=no-new-privileges'', ''--memory'', ''3g'',
     ''--memory-swap'', ''3g'', ''--cpus'', ''2'', ''--pids-limit'', ''2048'']"

text \<open>
  A container that may be created: the build, off the network, or the dependency fetch, which runs
  cargo fetch and nothing else; both without capabilities and under the resource limits.
\<close>

definition isolated :: "string list \<Rightarrow> bool" where
  "isolated args \<longleftrightarrow> prefix ([''create'', ''--network=none''] @ hardening @ [''--workdir'']) args"

definition fetch_only :: "string list \<Rightarrow> bool" where
  "fetch_only args \<longleftrightarrow>
     (let rest = (if length args > 1 \<and> starts_with (args ! 1) ''--network='' then drop 2 args else drop 1 args)
      in prefix (hardening @ [''--entrypoint'', ''cargo'', ''--workdir'']) rest \<and>
         suffix [''fetch'', ''--locked''] args)"

definition sandboxed :: "docker \<Rightarrow> event \<Rightarrow> bool" where
  "sandboxed d ev = (case docker_args d ev of
     Some (verb # args) \<Rightarrow> verb = ''create'' \<longrightarrow> isolated (verb # args) \<or> fetch_only (verb # args)
   | _ \<Rightarrow> True)"

lemma show_2048: "show_nat 2048 = ''2048''"
  by (simp add: show_nat.simps char_of_def bit_Suc_0_iff)

lemma create_args_build: "isolated (create_args (build_spec rq wd v))"
  by (simp add: isolated_def create_args_def build_spec_def BUILD_LIMITS_def BUILD_SECURITY_def
      hardening_def show_2048)

lemma create_args_fetch: "fetch_only (create_args (fetch_spec env rq wd v))"
  by (cases "fetch_network env")
    (simp_all add: fetch_only_def create_args_def fetch_spec_def BUILD_LIMITS_def BUILD_SECURITY_def
      hardening_def show_2048 Let_def suffix_def fetch_network_def network_for_def split: option.splits)

lemma create_args_hd: "\<exists>rest. create_args spec = ''create'' # rest"
  by (simp add: create_args_def)

lemma sandboxed_create:
  "isolated args \<or> fetch_only args \<Longrightarrow> sandboxed d (Process (docker_spawn d args stdin limit) r)"
  by (auto simp: sandboxed_def split: list.splits)

lemma sandboxed_other:
  "take 1 args \<noteq> [''create''] \<Longrightarrow> sandboxed d (Process (docker_spawn d args stdin limit) r)"
  by (auto simp: sandboxed_def split: list.splits)

text \<open>
  Property C15. The sandbox. Whatever the submitted source, image and options, the machine's answers
  and the outcome, every container a reproduction creates is either the build with its network off
  or the dependency fetch, which runs only cargo fetch, and both drop all capabilities, forbid new
  privileges and carry the memory, swap, CPU and process limits.
\<close>

theorem every_container_sandboxed:
  assumes "own_program d"
  shows "\<exists>evs. history (snd (reproduce env l d rq w)) = history w @ evs \<and> list_all (sandboxed d) evs"
proof -
  have "all_events (sandboxed d) (fetch env l src)" for env l src
    by (rule fetch_all_events) (simp_all add: sandboxed_def docker_args_tools [OF assms])
  moreover have "sandboxed d (Process (docker_spawn d args stdin limit) r)"
    if "pipeline_command env rq args" for env args stdin limit r
    using that create_args_fetch create_args_build
    unfolding pipeline_command_def
    by (elim disjE exE) (simp_all add: sandboxed_other sandboxed_create)
  ultimately have "all_events (sandboxed d) (reproduce env l d rq)"
    by (intro reproduce_all_events) (simp_all add: sandboxed_def)
  then show ?thesis by (simp add: all_events_def traces_def)
qed

section \<open>Clean-up\<close>

datatype resource = Container string | Volume string

text \<open>
  What docker says about containers and volumes: \<open>created\<close> is what a creation that exited 0 made
  (under the name it printed, blank if it printed none), \<open>to_remove\<close> what a removal names. A removal
  has happened only if it exited 0; the code looks at neither.
\<close>

definition stdout_ok :: "event \<Rightarrow> bytes option" where
  "stdout_ok ev = (case ev of
     Process sp (Exited code out err) \<Rightarrow> if code = Some 0 then Some out else None | _ \<Rightarrow> None)"

definition created :: "docker \<Rightarrow> event \<Rightarrow> resource multiset" where
  "created d ev = (case (docker_args d ev, stdout_ok ev) of
     (Some args, Some out) \<Rightarrow>
       if take 1 args = [''create''] then {#Container (trim (utf8_lossy out))#}
       else if take 2 args = [''volume'', ''create''] then {#Volume (args ! 2)#} else {#}
   | _ \<Rightarrow> {#})"

definition to_remove :: "docker \<Rightarrow> event \<Rightarrow> resource multiset" where
  "to_remove d ev = (case docker_args d ev of
     Some args \<Rightarrow>
       if take 3 args = [''rm'', ''--force'', ''--volumes''] then {#Container (args ! 3)#}
       else if take 3 args = [''volume'', ''rm'', ''--force''] then {#Volume (args ! 3)#} else {#}
   | None \<Rightarrow> {#})"

text \<open>What exists after an event, and what an event leaves for good: a failed removal, a nameless container.\<close>

definition step_live :: "docker \<Rightarrow> resource multiset \<Rightarrow> event \<Rightarrow> resource multiset" where
  "step_live d live ev = (if stdout_ok ev \<noteq> None then live - to_remove d ev else live) + created d ev"

definition leaves :: "docker \<Rightarrow> event \<Rightarrow> resource multiset" where
  "leaves d ev = (if stdout_ok ev \<noteq> None then filter_mset (\<lambda>r. r = Container []) (created d ev)
     else to_remove d ev)"

definition live_after :: "docker \<Rightarrow> resource multiset \<Rightarrow> event list \<Rightarrow> resource multiset" where
  "live_after d live evs = foldl (step_live d) live evs"

definition left_over :: "docker \<Rightarrow> event list \<Rightarrow> resource multiset" where
  "left_over d evs = sum_list (map (leaves d) evs)"

lemma live_after_simps [simp]:
  "live_after d live [] = live"
  "live_after d live (ev # evs) = live_after d (step_live d live ev) evs"
  "live_after d live (xs @ ys) = live_after d (live_after d live xs) ys"
  by (simp_all add: live_after_def)

lemma left_over_simps [simp]:
  "left_over d [] = {#}"
  "left_over d (ev # evs) = leaves d ev + left_over d evs"
  "left_over d (xs @ ys) = left_over d xs + left_over d ys"
  by (simp_all add: left_over_def)

lemmas event_defs = step_live_def leaves_def created_def to_remove_def

text \<open>A computation after which exists what was there before, and what it left over.\<close>

definition balanced :: "docker \<Rightarrow> 'a io \<Rightarrow> bool" where
  "balanced d m \<longleftrightarrow> traces m (\<lambda>_ evs. \<forall>live. live_after d live evs = live + left_over d evs)"

definition neutral :: "docker \<Rightarrow> event \<Rightarrow> bool" where
  "neutral d ev \<longleftrightarrow> created d ev = {#} \<and> to_remove d ev = {#}"

lemma balanced_neutral: "all_events (neutral d) m \<Longrightarrow> balanced d m"
proof -
  have "list_all (neutral d) evs \<Longrightarrow> live_after d live evs = live + left_over d evs" for live evs
    by (induction evs arbitrary: live) (simp_all add: neutral_def step_live_def leaves_def)
  then show "all_events (neutral d) m \<Longrightarrow> balanced d m"
    unfolding all_events_def balanced_def by (blast intro: traces_mono)
qed

lemma balanced_andThen:
  assumes "balanced d m" and "\<And>x. balanced d (f x)"
  shows "balanced d (andThen m f)"
  unfolding balanced_def
proof (rule traces_andThen [OF assms(1) [unfolded balanced_def]])
  fix x evs assume "\<forall>live. live_after d live evs = live + left_over d evs"
  then show "traces (f x) (\<lambda>_ evs'. \<forall>live. live_after d live (evs @ evs') = live + left_over d (evs @ evs'))"
    by (intro traces_mono [OF assms(2) [unfolded balanced_def]]) (simp add: ac_simps)
qed

text \<open>What a creation adds, and what a removal of \<open>res\<close> makes of it.\<close>

definition opens :: "docker \<Rightarrow> ('a \<Rightarrow> resource) \<Rightarrow> 'a io \<Rightarrow> bool" where
  "opens d res m \<longleftrightarrow> traces m (\<lambda>r evs. \<forall>live. live_after d live evs =
     live + left_over d evs + (case r of Inl _ \<Rightarrow> {#} | Inr x \<Rightarrow> {#res x#}))"

definition closes :: "docker \<Rightarrow> resource \<Rightarrow> 'a io \<Rightarrow> bool" where
  "closes d x m \<longleftrightarrow> traces m (\<lambda>_ evs. \<forall>live. live_after d (live + {#x#}) evs = live + left_over d evs)"

lemma balanced_scope:
  fixes m :: "'a io"
  assumes "opens d res m" and "\<And>x. balanced d (f x)" and "\<And>x. closes d (res x) (c x)"
  shows "balanced d (andThen m (\<lambda>x. with_drop (f x) (c x)))"
  unfolding balanced_def
proof (rule traces_andThen [OF assms(1) [unfolded opens_def]])
  fix x :: 'a and evs
  assume "\<forall>live. live_after d live evs = live + left_over d evs +
      (case (Inr x :: verify_error + 'a) of Inl _ \<Rightarrow> {#} | Inr x \<Rightarrow> {#res x#})"
  then have x: "live_after d live evs = live + left_over d evs + {#res x#}" for live by simp
  show "traces (with_drop (f x) (c x))
      (\<lambda>r evs'. \<forall>live. live_after d live (evs @ evs') = live + left_over d (evs @ evs'))"
  proof (rule traces_with_drop [OF assms(2) [unfolded balanced_def]], rule traces_mono [OF assms(3) [unfolded closes_def]])
    fix r :: "verify_error + 'c" and used ended
    assume "\<forall>live. live_after d live used = live + left_over d used"
      and c: "\<forall>live. live_after d (live + {#res x#}) ended = live + left_over d ended"
    then have u: "live_after d live used = live + left_over d used" for live by simp
    have "live_after d (live + left_over d evs + {#res x#} + left_over d used) ended =
        live + left_over d evs + left_over d used + left_over d ended" for live
      using c [rule_format, of "live + left_over d evs + left_over d used"] by (simp add: ac_simps)
    then show "\<forall>live. live_after d live (evs @ used @ ended) = live + left_over d (evs @ used @ ended)"
      by (simp add: x u ac_simps)
  qed
qed simp

lemma neutral_command:
  assumes "take 1 args \<noteq> [''create'']" and "take 2 args \<noteq> [''volume'', ''create'']"
    and "take 3 args \<noteq> [''rm'', ''--force'', ''--volumes'']" and "take 3 args \<noteq> [''volume'', ''rm'', ''--force'']"
  shows "neutral d (Process (docker_spawn d args stdin limit) r)"
  using assms by (simp add: neutral_def created_def to_remove_def split: option.split)

lemma neutral_other: "docker_args d ev = None \<Longrightarrow> neutral d ev"
  by (simp add: neutral_def created_def to_remove_def)

lemma stdout_ok_process:
  "stdout_ok (Process sp (Exited (Some 0) out err)) = Some out"
  "(\<And>out err. r \<noteq> Exited (Some 0) out err) \<Longrightarrow> stdout_ok (Process sp r) = None"
  by (auto simp: stdout_ok_def split: proc_end.splits)

lemma create_opens: "opens d Container (docker_create env d spec)"
  unfolding opens_def docker_create_def Let_def
proof (rule traces_andThen [OF docker_run_ok_traces])
  obtain rest where ca: "create_args spec = ''create'' # rest" using create_args_hd by blast
  fix out evs
  assume "\<exists>e. evs = [Process (docker_spawn d (create_args spec) None None) e] \<and>
      (\<forall>out'. Inr out = Inr out' \<longleftrightarrow> (\<exists>err. e = Exited (Some 0) out' err))"
  then obtain err where evs: "evs = [Process (docker_spawn d (create_args spec) None None) (Exited (Some 0) out err)]"
    by blast
  show "traces (lift_result (if trim (utf8_lossy out) = []
        then Inl (Docker ''`docker create` returned no container id'') else Inr (trim (utf8_lossy out))))
      (\<lambda>r evs'. \<forall>live. live_after d live (evs @ evs') = live + left_over d (evs @ evs') +
        (case r of Inl _ \<Rightarrow> {#} | Inr cid \<Rightarrow> {#Container cid#}))"
    by (rule traces_lift) (simp add: evs event_defs stdout_ok_process ca)
next
  obtain rest where ca: "create_args spec = ''create'' # rest" using create_args_hd by blast
  fix e :: verify_error and evs
  assume "\<exists>r. evs = [Process (docker_spawn d (create_args spec) None None) r] \<and>
      (\<forall>out. Inl e = Inr out \<longleftrightarrow> (\<exists>err. r = Exited (Some 0) out err))"
  then obtain r where "evs = [Process (docker_spawn d (create_args spec) None None) r]"
    and "\<And>out err. r \<noteq> Exited (Some 0) out err" by blast
  then show "\<forall>live. live_after d live evs = live + left_over d evs +
      (case (Inl e :: verify_error + string) of Inl _ \<Rightarrow> {#} | Inr cid \<Rightarrow> {#Container cid#})"
    by (simp add: event_defs stdout_ok_process(2) ca)
qed

lemma volume_opens: "opens d Volume (create_volume env d v)"
  unfolding opens_def create_volume_def
proof (rule traces_andThen [OF docker_run_ok_traces])
  fix out evs
  assume "\<exists>e. evs = [Process (docker_spawn d [''volume'', ''create'', v] None None) e] \<and>
      (\<forall>out'. Inr out = Inr out' \<longleftrightarrow> (\<exists>err. e = Exited (Some 0) out' err))"
  then obtain err where evs: "evs = [Process (docker_spawn d [''volume'', ''create'', v] None None)
      (Exited (Some 0) out err)]" by blast
  show "traces (ret v) (\<lambda>r evs'. \<forall>live. live_after d live (evs @ evs') = live + left_over d (evs @ evs') +
      (case r of Inl _ \<Rightarrow> {#} | Inr x \<Rightarrow> {#Volume x#}))"
    by (rule traces_ret) (simp add: evs event_defs stdout_ok_process)
next
  fix e :: verify_error and evs
  assume "\<exists>r. evs = [Process (docker_spawn d [''volume'', ''create'', v] None None) r] \<and>
      (\<forall>out. Inl e = Inr out \<longleftrightarrow> (\<exists>err. r = Exited (Some 0) out err))"
  then obtain r where "evs = [Process (docker_spawn d [''volume'', ''create'', v] None None) r]"
    and "\<And>out err. r \<noteq> Exited (Some 0) out err" by blast
  then show "\<forall>live. live_after d live evs = live + left_over d evs +
      (case (Inl e :: verify_error + string) of Inl _ \<Rightarrow> {#} | Inr x \<Rightarrow> {#Volume x#})"
    by (simp add: event_defs stdout_ok_process(2))
qed

lemma drop_closes:
  "closes d (Container c) (drop_container env d c)" "closes d (Volume v) (drop_volume env d v)"
  unfolding closes_def drop_container_def drop_volume_def
  by (rule docker_run_traces; simp add: event_defs split: option.split)+

lemma balanced_put: "balanced d (put_archive env d cid dest tar)"
  by (intro balanced_neutral put_archive_all_events neutral_command) simp_all

lemma balanced_run: "balanced d (run_to_completion env d cid t)"
  by (intro balanced_neutral run_all_events neutral_command) simp_all

lemma balanced_basic:
  "balanced d (ret x)" "balanced d (fail_with e)" "balanced d (now_io env)" "balanced d (unique_token env)"
  by (simp_all add: balanced_neutral all_events_basic)

lemma balanced_fetch_dependencies: "balanced d (fetch_dependencies env d rq source wd v t)"
  unfolding fetch_dependencies_def
  by (rule balanced_scope [OF create_opens _ drop_closes(1)])
    (intro balanced_andThen balanced_put balanced_run, simp add: balanced_basic)

lemma balanced_build: "balanced d (build_and_compare env l d rq source wd cid t)"
proof -
  let ?p = "neutral d"
  have get: "all_events ?p (get_archive env d cid s)" for s
    by (intro get_archive_all_events neutral_command) simp_all
  have "all_events ?p (case r of Inr tar \<Rightarrow> lift_result (select_wasm_from_tar l tar)
      | Inl e \<Rightarrow> (case e of Docker msg \<Rightarrow> if is_missing_path msg then fail_with NoWasmProduced else fail_with e
          | _ \<Rightarrow> fail_with e))" for r
    by (auto simp: all_events_basic split: sum.splits verify_error.splits)
  then have ext: "all_events ?p (extract_wasm env l d cid wd)"
    unfolding extract_wasm_def by (intro all_events_intros get)
  have img: "all_events ?p (image_digest env l d (rq_bldimg rq))"
    unfolding image_digest_def by (intro all_events_intros docker_all_events neutral_command) simp_all
  have emit: "all_events ?p (case rq_emit_wasm rq of None \<Rightarrow> ret () | Some path \<Rightarrow> do_file env (Write_File path x))" for x
    by (auto simp: all_events_basic neutral_other split: option.splits)
  have put: "all_events ?p (put_archive env d cid STAGE_DIR tar)" for tar
    by (intro put_archive_all_events neutral_command) simp_all
  have run: "all_events ?p (run_to_completion env d cid n)" for n
    by (intro run_all_events neutral_command) simp_all
  have "all_events ?p (build_and_compare env l d rq source wd cid t)"
    unfolding build_and_compare_def Let_def
    by (intro all_events_andThen put run all_events_basic)
      (auto intro!: all_events_andThen ext emit img all_events_try simp: all_events_basic)
  then show ?thesis by (rule balanced_neutral)
qed

lemma balanced_run_phases: "balanced d (run_phases env l d rq source v)"
  unfolding run_phases_def Let_def
  by (intro balanced_andThen balanced_fetch_dependencies balanced_basic
      balanced_scope [OF create_opens _ drop_closes(1)] balanced_build)

text \<open>
  Property C16. Nothing is left behind but what docker refused to remove. However a reproduction ends, on
  success, on any error and on a time-out, exactly this exists by the time it returns, besides what was
  there before: the containers and volumes it made and whose removal it asked for in vain (the command
  could not be run or did not exit 0), and containers docker made without naming them. So if
  docker names what it makes and removes what it is asked to, nothing.
\<close>

theorem nothing_left_behind:
  assumes "own_program d"
  shows "\<exists>evs. history (snd (reproduce env l d rq w)) = history w @ evs \<and>
    (\<forall>live. live_after d live evs = live + left_over d evs)"
proof -
  have src: "balanced d (fetch env l src)" for env l src
    by (rule balanced_neutral, rule fetch_all_events)
      (simp_all add: neutral_other docker_args_tools [OF assms])
  have pre: "balanced d (preflight env d)"
    unfolding preflight_def
    by (intro balanced_neutral all_events_intros docker_all_events neutral_command) simp_all
  have "balanced d (reproduce env l d rq)"
    unfolding reproduce_def
    by (auto simp: balanced_basic
        intro!: balanced_andThen pre src balanced_scope [OF volume_opens _ drop_closes(2)] balanced_run_phases)
  then show ?thesis by (simp add: balanced_def traces_def)
qed

section \<open>The verdict\<close>

text \<open>The events \<open>xs\<close> happened, in this order, between two worlds.\<close>

definition passes :: "event list \<Rightarrow> world \<Rightarrow> world \<Rightarrow> bool" where
  "passes xs w w' \<longleftrightarrow> (\<exists>evs. history w' = history w @ evs \<and> subseq xs evs)"

lemma passes_trans: "passes xs w1 w2 \<Longrightarrow> passes ys w2 w3 \<Longrightarrow> passes (xs @ ys) w1 w3"
  unfolding passes_def using list_emb_append_mono by fastforce

lemma passes_exact: "history w' = history w @ xs \<Longrightarrow> passes xs w w'"
  by (auto simp: passes_def)

text \<open>Every computation of the pipeline only adds to the history.\<close>

abbreviation extends :: "'a io \<Rightarrow> bool" where "extends \<equiv> all_events (\<lambda>_. True)"

lemma passes_extends: "extends m \<Longrightarrow> m w = (r, w') \<Longrightarrow> passes [] w w'"
  by (auto simp: all_events_def passes_def dest: tracesD)

lemma extends_docker: "extends (docker_run env d args)"
  by (rule docker_all_events) simp

lemma extends_drop: "extends (drop_container env d c)" "extends (drop_volume env d v)"
  by (simp_all add: drop_container_def drop_volume_def extends_docker)

lemma docker_run_Inr:
  assumes "docker_run env d args w = (Inr out, w')"
  shows "\<exists>err. history w' = history w @ [Process (docker_spawn d args None None) (Exited (Some 0) out err)]"
  using tracesD [OF docker_run_ok_traces assms] by auto

lemma docker_create_Inr:
  assumes "docker_create env d spec w = (Inr c, w')"
  shows "\<exists>out err. passes [Process (docker_spawn d (create_args spec) None None) (Exited (Some 0) out err)] w w' \<and>
    c = trim (utf8_lossy out)"
  using assms unfolding docker_create_def Let_def
  by (auto simp: io_simps split: if_splits dest!: docker_run_Inr intro!: passes_exact)

lemma run_Inr:
  assumes "run_to_completion env d c t w = (Inr ro, w')"
  shows "\<exists>code out err. passes [Process (docker_spawn d [''start'', ''--attach'', c] None (Some t))
      (Exited code out err)] w w' \<and> ro_exit_code ro = (case code of Some n \<Rightarrow> n | None \<Rightarrow> - 1)"
proof (cases "env_process env (history w) (docker_spawn d [''start'', ''--attach'', c] None (Some t))")
  case (Exited code out err)
  with assms show ?thesis unfolding run_to_completion_def
    by (intro exI [of _ code] exI [of _ out] exI [of _ err])
      (auto simp: andThen_def do_process_def Let_def ret_def intro!: passes_exact)
qed (use assms in \<open>auto simp: run_to_completion_def andThen_def do_process_def Let_def fail_with_def
  try_io_def split: prod.splits\<close>)

lemma get_archive_Inr:
  assumes "get_archive env d c src w = (Inr tar, w')"
  shows "\<exists>err. passes [Process (docker_spawn d [''cp'', c @ '':'' @ src, ''-''] None None)
      (Exited (Some 0) tar err)] w w'"
  using assms unfolding get_archive_def
  by (auto simp: andThen_def do_process_def Let_def lift_result_def output_of_def
      split: proc_end.splits if_splits intro!: passes_exact)

lemma with_drop_eq: "with_drop m c w = (r, w') \<longleftrightarrow> (\<exists>w1. m w = (r, w1) \<and> w' = snd (c w1))"
  by (auto simp: with_drop_def split: prod.splits)

lemma try_io_eq: "try_io m w = (Inr r, w') \<longleftrightarrow> m w = (r, w')"
  by (auto simp: try_io_def split: prod.splits)

text \<open>What the machine was seen to do for the dependency fetch, the build and the artifact.\<close>

definition fetch_seen :: "env \<Rightarrow> docker \<Rightarrow> request \<Rightarrow> string \<Rightarrow> event list \<Rightarrow> bool" where
  "fetch_seen env d rq v evs \<longleftrightarrow> (\<exists>out err out' err'.
     evs = [Process (docker_spawn d (create_args (fetch_spec env rq (STAGE_DIR @ ''/'' @ STAGED_TOP_DIR) v))
              None None) (Exited (Some 0) out err),
            Process (docker_spawn d [''start'', ''--attach'', trim (utf8_lossy out)] None
              (Some (rq_timeout rq div FETCH_TIMEOUT_FRACTION))) (Exited (Some 0) out' err')])"

definition build_seen :: "docker \<Rightarrow> request \<Rightarrow> string \<Rightarrow> bytes \<Rightarrow> event list \<Rightarrow> bool" where
  "build_seen d rq v tar evs \<longleftrightarrow> (\<exists>out err limit out' err' err''. limit \<le> rq_timeout rq \<and>
     evs = [Process (docker_spawn d (create_args (build_spec rq (STAGE_DIR @ ''/'' @ STAGED_TOP_DIR) v))
              None None) (Exited (Some 0) out err),
            Process (docker_spawn d [''start'', ''--attach'', trim (utf8_lossy out)] None (Some limit))
              (Exited (Some 0) out' err'),
            Process (docker_spawn d [''cp'', trim (utf8_lossy out) @ '':'' @ (STAGE_DIR @ ''/'' @ STAGED_TOP_DIR) @
              ''/target/'' @ WASM_TARGET @ ''/release'', ''-''] None None) (Exited (Some 0) tar err'')])"

lemma extends_put: "extends (put_archive env d c dest tar)"
  by (rule put_archive_all_events) simp

lemma fetch_dependencies_seen:
  assumes "fetch_dependencies env d rq source (STAGE_DIR @ ''/'' @ STAGED_TOP_DIR) v
      (rq_timeout rq div FETCH_TIMEOUT_FRACTION) w = (Inr u, w')"
  shows "\<exists>evs. fetch_seen env d rq v evs \<and> passes evs w w'"
proof -
  let ?wd = "STAGE_DIR @ ''/'' @ STAGED_TOP_DIR" and ?t = "rq_timeout rq div FETCH_TIMEOUT_FRACTION"
  from assms obtain c w1 w2 w3 w4 ro where cr: "docker_create env d (fetch_spec env rq ?wd v) w = (Inr c, w1)"
    and put: "put_archive env d c STAGE_DIR (sa_tar source) w1 = (Inr (), w2)"
    and run: "run_to_completion env d c ?t w2 = (Inr ro, w3)" and ok: "ro_exit_code ro = 0"
    and dr: "w' = snd (drop_container env d c w3)"
    unfolding fetch_dependencies_def
    by (auto simp: andThen_Inr with_drop_eq ret_eq split: if_splits)
  from docker_create_Inr [OF cr] obtain out err where
    p1: "passes [Process (docker_spawn d (create_args (fetch_spec env rq ?wd v)) None None)
      (Exited (Some 0) out err)] w w1" and c: "c = trim (utf8_lossy out)" by blast
  from run_Inr [OF run] ok obtain out' err' where
    p3: "passes [Process (docker_spawn d [''start'', ''--attach'', c] None (Some ?t))
      (Exited (Some 0) out' err')] w2 w3" by (auto split: option.splits)
  have p2: "passes [] w1 w2" by (rule passes_extends [OF extends_put put])
  have p4: "passes [] w3 w'" unfolding dr
    by (rule passes_extends [OF extends_drop(1)]) (rule prod.collapse [symmetric])
  have "passes ([Process (docker_spawn d (create_args (fetch_spec env rq ?wd v)) None None) (Exited (Some 0) out err)] @
      [] @ [Process (docker_spawn d [''start'', ''--attach'', c] None (Some ?t)) (Exited (Some 0) out' err')] @ []) w w'"
    by (intro passes_trans [OF p1] passes_trans [OF p2] passes_trans [OF p3] p4)
  moreover have "fetch_seen env d rq v
      ([Process (docker_spawn d (create_args (fetch_spec env rq ?wd v)) None None) (Exited (Some 0) out err)] @
      [] @ [Process (docker_spawn d [''start'', ''--attach'', c] None (Some ?t)) (Exited (Some 0) out' err')] @ [])"
    unfolding fetch_seen_def c by auto
  ultimately show ?thesis by blast
qed

lemma extends_pure: "extends (ret x)" "extends (lift_result r)" "extends (now_io env)"
  "extends (unique_token env)" "extends (fail_with e)"
  by (simp_all add: all_events_basic)

lemma extract_wasm_Inr:
  assumes "extract_wasm env l d c wd w = (Inr (artifact, wasm), w')"
  shows "\<exists>tar err. select_wasm_from_tar l tar = Inr (artifact, wasm) \<and>
    passes [Process (docker_spawn d [''cp'', c @ '':'' @ wd @ ''/target/'' @ WASM_TARGET @ ''/release'', ''-'']
      None None) (Exited (Some 0) tar err)] w w'"
proof -
  from assms obtain r w1 where get: "get_archive env d c (wd @ ''/target/'' @ WASM_TARGET @ ''/release'') w = (r, w1)"
    and rest: "(case r of Inr tar \<Rightarrow> lift_result (select_wasm_from_tar l tar)
      | Inl e \<Rightarrow> (case e of Docker msg \<Rightarrow> if is_missing_path msg then fail_with NoWasmProduced else fail_with e
          | _ \<Rightarrow> fail_with e)) w1 = (Inr (artifact, wasm), w')"
    unfolding extract_wasm_def by (auto simp: andThen_Inr try_io_eq)
  show ?thesis
  proof (cases r)
    case (Inl e)
    with rest show ?thesis by (cases e) (auto split: if_splits)
  next
    case (Inr tar)
    with rest have "select_wasm_from_tar l tar = Inr (artifact, wasm)" "w' = w1"
      by (simp_all add: lift_result_Inr)
    with get_archive_Inr [OF get [unfolded Inr]] show ?thesis by auto
  qed
qed

definition report_ok :: "libs \<Rightarrow> request \<Rightarrow> report \<Rightarrow> bytes \<Rightarrow> bool" where
  "report_ok l rq rep tar \<longleftrightarrow>
     (\<exists>wasm. select_wasm_from_tar l tar = Inr (rp_artifact rep, wasm) \<and>
        rp_rebuilt rep = sha256_hex l wasm \<and> rp_wasm_size rep = length wasm) \<and>
     rp_expected rep = lib_lowercase l (rq_expected rq) \<and>
     rp_result rep = (if rp_rebuilt rep = rp_expected rep then Result_Verified else Result_Mismatch) \<and>
     rp_bldimg rep = rq_bldimg rq \<and> rp_bldopt rep = rq_bldopt rq"

lemma build_and_compare_seen:
  assumes "build_and_compare env l d rq source wd c started w = (Inr rep, w')"
  shows "\<exists>tar limit out' err' err''. report_ok l rq rep tar \<and> rp_source_sha256 rep = sa_sha256 source \<and>
    limit \<le> rq_timeout rq \<and>
    passes [Process (docker_spawn d [''start'', ''--attach'', c] None (Some limit)) (Exited (Some 0) out' err'),
      Process (docker_spawn d [''cp'', c @ '':'' @ wd @ ''/target/'' @ WASM_TARGET @ ''/release'', ''-'']
        None None) (Exited (Some 0) tar err'')] w w'"
proof -
  from assms obtain w1 now w2 run w3 fin w4 artifact wasm w5 w6 dg w7 where
    put: "put_archive env d c STAGE_DIR (sa_tar source) w = (Inr (), w1)"
    and now: "now_io env w1 = (Inr now, w2)"
    and run: "run_to_completion env d c (rq_timeout rq - (now - started)) w2 = (Inr run, w3)"
    and fin: "now_io env w3 = (Inr fin, w4)" and code: "ro_exit_code run = 0"
    and ext: "extract_wasm env l d c wd w4 = (Inr (artifact, wasm), w5)"
    and emit: "(case rq_emit_wasm rq of None \<Rightarrow> ret () | Some path \<Rightarrow> do_file env (Write_File path wasm)) w5 =
      (Inr (), w6)"
    and dig: "try_io (image_digest env l d (rq_bldimg rq)) w6 = (Inr dg, w7)"
    and rep: "rep = \<lparr>rp_result = (if sha256_hex l wasm = lib_lowercase l (rq_expected rq)
          then Result_Verified else Result_Mismatch), rp_expected = lib_lowercase l (rq_expected rq),
          rp_rebuilt = sha256_hex l wasm, rp_wasm_size = length wasm, rp_artifact = artifact,
          rp_bldimg = rq_bldimg rq, rp_bldimg_digest = (case dg of Inr g \<Rightarrow> g | Inl _ \<Rightarrow> None),
          rp_bldopt = rq_bldopt rq, rp_source_sha256 = sa_sha256 source, rp_trust_level = Arbitrary,
          rp_build_time = fin - started,
          rp_build_log = (if (if sha256_hex l wasm = lib_lowercase l (rq_expected rq)
            then Result_Verified else Result_Mismatch) = Result_Mismatch then Some (ro_log run) else None)\<rparr>"
    and w': "w' = w7"
    unfolding build_and_compare_def Let_def
    by (auto simp: andThen_Inr ret_eq split: if_splits)
  from run_Inr [OF run] code obtain out' err' where
    p3: "passes [Process (docker_spawn d [''start'', ''--attach'', c] None
      (Some (rq_timeout rq - (now - started)))) (Exited (Some 0) out' err')] w2 w3"
    by (auto split: option.splits)
  from extract_wasm_Inr [OF ext] obtain tar err'' where sel: "select_wasm_from_tar l tar = Inr (artifact, wasm)"
    and p5: "passes [Process (docker_spawn d [''cp'', c @ '':'' @ wd @ ''/target/'' @ WASM_TARGET @ ''/release'', ''-'']
      None None) (Exited (Some 0) tar err'')] w4 w5" by blast
  have p1: "passes [] w w1" by (rule passes_extends [OF extends_put put])
  have p2: "passes [] w1 w2" by (rule passes_extends [OF extends_pure(3) now])
  have p4: "passes [] w3 w4" by (rule passes_extends [OF extends_pure(3) fin])
  have "extends (case rq_emit_wasm rq of None \<Rightarrow> ret () | Some path \<Rightarrow> do_file env (Write_File path wasm))"
    by (auto simp: all_events_basic split: option.splits)
  from passes_extends [OF this emit] have p6: "passes [] w5 w6" .
  have "extends (try_io (image_digest env l d (rq_bldimg rq)))"
    unfolding image_digest_def by (intro all_events_intros extends_docker)
  from passes_extends [OF this dig] have p7: "passes [] w6 w'" unfolding w' .
  note passes_trans [OF p1 passes_trans [OF p2 passes_trans [OF p3 passes_trans [OF p4
    passes_trans [OF p5 passes_trans [OF p6 p7]]]]]]
  moreover have "report_ok l rq rep tar" using sel by (simp add: report_ok_def rep)
  ultimately show ?thesis
    by (intro exI [of _ tar] exI [of _ "rq_timeout rq - (now - started)"] exI [of _ out'] exI [of _ err']
        exI [of _ err'']) (simp add: rep)
qed

lemma reproduce_seen:
  assumes "reproduce env l d rq w = (Inr rep, w')"
  shows "(rq_allow_unpinned rq \<or> contains (rq_bldimg rq) ''@sha256:'') \<and>
    (\<exists>v tar evs1 evs2. fetch_seen env d rq v evs1 \<and> build_seen d rq v tar evs2 \<and>
       passes (evs1 @ evs2) w w' \<and> report_ok l rq rep tar)"
proof -
  let ?wd = "STAGE_DIR @ ''/'' @ STAGED_TOP_DIR"
  have pin: "rq_allow_unpinned rq \<or> contains (rq_bldimg rq) ''@sha256:''"
    using assms by (auto simp: reproduce_def split: if_splits)
  then have run: "andThen (preflight env d) (\<lambda>_.
        andThen (fetch env l (rq_source rq)) (\<lambda>source.
        andThen (unique_token env) (\<lambda>token.
        andThen (create_volume env d (''verify-cargo-'' @ token)) (\<lambda>cargo_home.
        with_drop (run_phases env l d rq source cargo_home) (drop_volume env d cargo_home))))) w = (Inr rep, w')"
    using assms by (auto simp: reproduce_def)
  from run obtain w1 source w2 token w3 v w4 w5 where
    pre: "preflight env d w = (Inr (), w1)" and src: "fetch env l (rq_source rq) w1 = (Inr source, w2)"
    and tok: "unique_token env w2 = (Inr token, w3)"
    and vol: "create_volume env d (''verify-cargo-'' @ token) w3 = (Inr v, w4)"
    and ph: "run_phases env l d rq source v w4 = (Inr rep, w5)" and w': "w' = snd (drop_volume env d v w5)"
    unfolding andThen_Inr with_drop_eq by auto
  from ph obtain started w6 w7 c w8 w9 where now: "now_io env w4 = (Inr started, w6)"
    and fd: "fetch_dependencies env d rq source ?wd v (rq_timeout rq div FETCH_TIMEOUT_FRACTION) w6 = (Inr (), w7)"
    and cr: "docker_create env d (build_spec rq ?wd v) w7 = (Inr c, w8)"
    and bc: "build_and_compare env l d rq source ?wd c started w8 = (Inr rep, w9)"
    and w5: "w5 = snd (drop_container env d c w9)"
    unfolding run_phases_def Let_def andThen_Inr with_drop_eq by auto
  from fetch_dependencies_seen [OF fd] obtain evs1 where f: "fetch_seen env d rq v evs1"
    and p7: "passes evs1 w6 w7" by blast
  from docker_create_Inr [OF cr] obtain out err where c: "c = trim (utf8_lossy out)"
    and p8: "passes [Process (docker_spawn d (create_args (build_spec rq ?wd v)) None None)
      (Exited (Some 0) out err)] w7 w8" by blast
  from build_and_compare_seen [OF bc] obtain tar limit out' err' err'' where rep: "report_ok l rq rep tar"
    and lim: "limit \<le> rq_timeout rq"
    and p9: "passes [Process (docker_spawn d [''start'', ''--attach'', c] None (Some limit)) (Exited (Some 0) out' err'),
      Process (docker_spawn d [''cp'', c @ '':'' @ ?wd @ ''/target/'' @ WASM_TARGET @ ''/release'', ''-'']
        None None) (Exited (Some 0) tar err'')] w8 w9" by blast
  have b: "build_seen d rq v tar
     ([Process (docker_spawn d (create_args (build_spec rq ?wd v)) None None) (Exited (Some 0) out err)] @
      [Process (docker_spawn d [''start'', ''--attach'', c] None (Some limit)) (Exited (Some 0) out' err'),
      Process (docker_spawn d [''cp'', c @ '':'' @ ?wd @ ''/target/'' @ WASM_TARGET @ ''/release'', ''-'']
        None None) (Exited (Some 0) tar err'')])" (is "build_seen d rq v tar ?evs2")
    unfolding build_seen_def c using lim by auto
  have "extends (preflight env d)" unfolding preflight_def by (intro all_events_intros extends_docker)
  then have a1: "passes [] w w1" using pre by (rule passes_extends)
  have a2: "passes [] w1 w2" by (rule passes_extends [OF fetch_all_events src]) simp_all
  have a3: "passes [] w2 w3" by (rule passes_extends [OF extends_pure(4) tok])
  have a4: "passes [] w3 w4" by (rule passes_extends [OF create_volume_all_events vol]) simp
  have a5: "passes [] w4 w6" by (rule passes_extends [OF extends_pure(3) now])
  have a6: "passes [] w9 w5" unfolding w5
    by (rule passes_extends [OF extends_drop(1)]) (rule prod.collapse [symmetric])
  have a7: "passes [] w5 w'" unfolding w'
    by (rule passes_extends [OF extends_drop(2)]) (rule prod.collapse [symmetric])
  have "passes ([] @ [] @ [] @ [] @ [] @ evs1 @ ?evs2 @ [] @ []) w w'"
    by (intro passes_trans [OF a1] passes_trans [OF a2] passes_trans [OF a3] passes_trans [OF a4]
        passes_trans [OF a5] passes_trans [OF p7] passes_trans [OF passes_trans [OF p8 p9]]
        passes_trans [OF a6] a7)
  then have "passes (evs1 @ ?evs2) w w'" by simp
  with f b rep pin show ?thesis by blast
qed

text \<open>
  Property C14. What a report means. When a reproduction returns a report, the image was pinned (or
  pinning was waived), the dependency fetch ran to exit code 0 within its share of the time, then the
  build ran to exit code 0 in its own network-less container within the job's time, and the artifact
  hashed is the one selected from what was copied out of that container; the result is Verified if its
  SHA-256 is the expected hash in lower case, else Mismatch.
\<close>

theorem report_sound:
  assumes "reproduce env l d rq w = (Inr rep, w')"
  shows "(rq_allow_unpinned rq \<or> contains (rq_bldimg rq) ''@sha256:'') \<and>
    (\<exists>v tar evs1 evs2. fetch_seen env d rq v evs1 \<and> build_seen d rq v tar evs2 \<and>
       passes (evs1 @ evs2) w w' \<and> report_ok l rq rep tar)"
  by (rule reproduce_seen [OF assms])

section \<open>A concrete run\<close>

text \<open>A machine on which every program succeeds and the build leaves one artifact.\<close>

definition DEMO_DIGEST :: string where "DEMO_DIGEST = ''r@sha256:'' @ replicate 64 CHR ''0''"

definition demo_answer :: "string list \<Rightarrow> bytes" where
  "demo_answer args =
     (if take 1 args = [''create''] then ''c1''
      else if take 1 args = [''cp''] then ''release/x.wasm''
      else if take 1 args = [''image''] then DEMO_DIGEST else ''ok'')"

definition demo_machine :: env where
  "demo_machine = (demo_env [])\<lparr>env_process := (\<lambda>_ sp. Exited (Some 0) (demo_answer (sp_args sp)) [])\<rparr>"

definition demo_request :: request where
  "demo_request = \<lparr>rq_source = Git ''/repo'' ''abc'', rq_bldimg = ''img@sha256:12'', rq_bldopt = [],
     rq_expected = ''release/X.wasm'', rq_timeout = 90, rq_allow_unpinned = False, rq_emit_wasm = None\<rparr>"

text \<open>The demo codecs with any hash and hex functions.\<close>

definition demo_codecs :: "libs \<Rightarrow> bool" where
  "demo_codecs l \<longleftrightarrow> (\<exists>sha hex unhex. l = demo_libs\<lparr>lib_sha256 := sha, lib_hex := hex, lib_unhex := unhex\<rparr>)"

lemma demo_codecs_update: "demo_codecs (demo_libs\<lparr>lib_sha256 := sha, lib_hex := hex, lib_unhex := unhex\<rparr>)"
  by (auto simp: demo_codecs_def)

lemma demo_codecs_libs: "demo_codecs demo_libs"
proof -
  have "demo_libs = demo_libs\<lparr>lib_sha256 := lib_sha256 demo_libs, lib_hex := lib_hex demo_libs,
      lib_unhex := lib_unhex demo_libs\<rparr>" by simp
  then show ?thesis unfolding demo_codecs_def by blast
qed

text \<open>The requests this machine answers with Verified, and its answers.\<close>

definition demo_question :: "libs \<Rightarrow> request \<Rightarrow> bool" where
  "demo_question l rq \<longleftrightarrow> rq_source rq = Git ''/repo'' ''abc'' \<and> contains (rq_bldimg rq) ''@sha256:'' \<and>
     lib_lowercase l (rq_expected rq) = sha256_hex l ''release/x.wasm'' \<and> rq_emit_wasm rq = None"

definition demo_report :: "libs \<Rightarrow> report \<Rightarrow> bool" where
  "demo_report l rep \<longleftrightarrow> rp_result rep = Result_Verified \<and> rp_rebuilt rep = sha256_hex l ''release/x.wasm'' \<and>
     rp_expected rep = sha256_hex l ''release/x.wasm'' \<and> rp_bldimg_digest rep = Some DEMO_DIGEST \<and>
     rp_source_sha256 rep = sha256_hex l ''ok''"

lemma demo_question_request: "demo_question demo_libs demo_request"
proof -
  have "contains ''img@sha256:12'' ''@sha256:''"
    "lib_lowercase demo_libs ''release/X.wasm'' = sha256_hex demo_libs ''release/x.wasm''" by code_simp+
  then show ?thesis by (simp add: demo_question_def demo_request_def)
qed

lemma trim_plain:
  assumes "ws_prefix s = 0" and "ws_suffix s = 0"
  shows "trim s = s"
  using assms by (simp add: trim_def trim_start.simps trim_end.simps)

lemma demo_docker_run:
  "docker_run demo_machine docker_local args w =
     (Inr (demo_answer args), record_event (Process (docker_spawn docker_local args None None)
        (Exited (Some 0) (demo_answer args) [])) w)"
  by (simp add: docker_run_def andThen_def do_process_def lift_result_def output_of_def demo_machine_def
      docker_spawn_def docker_local_def Let_def)

lemma demo_create:
  "\<exists>w'. docker_create demo_machine docker_local spec w = (Inr ''c1'', w')"
proof -
  have "trim (utf8_lossy ''c1'') = ''c1''" by code_simp
  moreover have "demo_answer (create_args spec) = ''c1''" by (simp add: demo_answer_def create_args_def)
  ultimately show ?thesis
    by (simp add: docker_create_def andThen_def demo_docker_run lift_result_def Let_def)
qed

lemma demo_put: "\<exists>w'. put_archive demo_machine docker_local cid dest tar w = (Inr (), w')"
  by (simp add: put_archive_def andThen_def do_process_def lift_result_def demo_machine_def Let_def)

lemma demo_run: "\<exists>w' ro. run_to_completion demo_machine docker_local cid t w = (Inr ro, w') \<and> ro_exit_code ro = 0"
  by (simp add: run_to_completion_def andThen_def do_process_def ret_def demo_machine_def Let_def)

lemma demo_get: "\<exists>w'. get_archive demo_machine docker_local cid s w = (Inr ''release/x.wasm'', w')"
  by (simp add: get_archive_def andThen_def do_process_def lift_result_def output_of_def demo_machine_def
      Let_def docker_spawn_def docker_local_def demo_answer_def)

lemma demo_codecs_facts:
  assumes "demo_codecs l"
  shows "normalize_for_staging l ''ok'' = Inr ''source''"
    and "select_wasm_from_tar l ''release/x.wasm'' = Inr (''release/x.wasm'', ''release/x.wasm'')"
    and "lib_json_strings l b = Inr [b]"
proof -
  from assms obtain sha hex unhex where l: "l = demo_libs\<lparr>lib_sha256 := sha, lib_hex := hex, lib_unhex := unhex\<rparr>"
    unfolding demo_codecs_def by blast
  show "normalize_for_staging l ''ok'' = Inr ''source''" unfolding l by code_simp
  show "select_wasm_from_tar l ''release/x.wasm'' = Inr (''release/x.wasm'', ''release/x.wasm'')"
    unfolding l by code_simp
  show "lib_json_strings l b = Inr [b]" unfolding l by (simp add: demo_libs_def)
qed

lemma demo_source:
  assumes "demo_codecs l"
  shows "\<exists>w' source. fetch demo_machine l (Git ''/repo'' ''abc'') w = (Inr source, w') \<and>
     sa_sha256 source = sha256_hex l ''ok''"
proof -
  note demo_codecs_facts(1) [OF assms]
  then show ?thesis
    by (simp add: fetch_git_def is_http_def andThen_def ret_def unique_token_def clone_and_export_def
        try_io_def do_file_def with_drop_def do_process_def lift_result_def git_output_def demo_machine_def
        demo_env_def git_clone_spawn_def git_archive_spawn_def demo_answer_def Let_def)
qed

lemma demo_image:
  assumes "demo_codecs l"
  shows "\<exists>w'. image_digest demo_machine l docker_local img w = (Inr (Some DEMO_DIGEST), w')"
  by (simp add: image_digest_def andThen_def demo_docker_run lift_result_def demo_codecs_facts(3) [OF assms] demo_answer_def)

lemma demo_fetch_phase:
  "\<exists>w'. fetch_dependencies demo_machine docker_local rq source wd v t w = (Inr (), w')"
proof -
  obtain w1 where c: "docker_create demo_machine docker_local (fetch_spec demo_machine rq wd v) w =
    (Inr ''c1'', w1)" using demo_create by blast
  obtain w2 where p: "put_archive demo_machine docker_local ''c1'' STAGE_DIR (sa_tar source) w1 = (Inr (), w2)"
    using demo_put by blast
  obtain w3 ro where r: "run_to_completion demo_machine docker_local ''c1'' t w2 = (Inr ro, w3)" "ro_exit_code ro = 0"
    using demo_run by blast
  show ?thesis
    by (simp add: fetch_dependencies_def andThen_def c p r with_drop_def ret_def)
qed

lemma demo_build_phase:
  assumes "demo_codecs l" and "demo_question l rq"
  shows "\<exists>rep w'. build_and_compare demo_machine l docker_local rq source wd ''c1'' t w = (Inr rep, w') \<and>
     rp_source_sha256 rep = sa_sha256 source \<and> (sa_sha256 source = sha256_hex l ''ok'' \<longrightarrow> demo_report l rep)"
proof -
  obtain w2 where p: "put_archive demo_machine docker_local ''c1'' STAGE_DIR (sa_tar source) w = (Inr (), w2)"
    using demo_put by blast
  let ?lim = "rq_timeout rq - (env_clock demo_machine (history w2) - t)"
  obtain w3 ro where r: "run_to_completion demo_machine docker_local ''c1'' ?lim w2 = (Inr ro, w3)"
    "ro_exit_code ro = 0" using demo_run by blast
  obtain w4 where g: "get_archive demo_machine docker_local ''c1'' (wd @ ''/target/'' @ WASM_TARGET @ ''/release'') w3 =
    (Inr ''release/x.wasm'', w4)" using demo_get by blast
  obtain w5 where i: "image_digest demo_machine l docker_local (rq_bldimg rq) w4 = (Inr (Some DEMO_DIGEST), w5)"
    using demo_image [OF assms(1)] by blast
  have e: "extract_wasm demo_machine l docker_local ''c1'' wd w3 = (Inr (''release/x.wasm'', ''release/x.wasm''), w4)"
    unfolding extract_wasm_def andThen_def try_io_def g by (simp add: demo_codecs_facts(2) [OF assms(1)] lift_result_def)
  show ?thesis
    using p r i e assms(2)
    by (simp add: build_and_compare_def andThen_def now_io_def try_io_def demo_question_def demo_report_def
        ret_def Let_def)
qed

lemma demo_reproduces:
  assumes "demo_codecs l" and "demo_question l rq"
  shows "\<exists>rep w'. reproduce demo_machine l docker_local rq w = (Inr rep, w') \<and>
     demo_report l rep"
proof -
  obtain w1 where pre: "preflight demo_machine docker_local w = (Inr (), w1)"
    by (simp add: preflight_def andThen_def demo_docker_run ret_def)
  have "rq_source rq = Git ''/repo'' ''abc''" using assms(2) by (simp add: demo_question_def)
  then obtain w2 and source :: source_archive
    where src: "fetch demo_machine l (rq_source rq) w1 = (Inr source, w2)"
    and sha: "sa_sha256 source = sha256_hex l ''ok''" using demo_source [OF assms(1)] by metis
  obtain token w3 where tok: "unique_token demo_machine w2 = (Inr token, w3)" by (simp add: unique_token_def)
  obtain v w4 where vol: "create_volume demo_machine docker_local (''verify-cargo-'' @ token) w3 = (Inr v, w4)"
    by (simp add: create_volume_def andThen_def demo_docker_run ret_def)
  let ?wd = "STAGE_DIR @ ''/'' @ STAGED_TOP_DIR"
  obtain w5 where fd: "fetch_dependencies demo_machine docker_local rq source ?wd v
      (rq_timeout rq div FETCH_TIMEOUT_FRACTION) w4 = (Inr (), w5)"
    using demo_fetch_phase by blast
  obtain w6 where cr: "docker_create demo_machine docker_local (build_spec rq ?wd v) w5 = (Inr ''c1'', w6)"
    using demo_create by blast
  obtain rep w7 where bc: "build_and_compare demo_machine l docker_local rq source ?wd ''c1''
      (env_clock demo_machine (history w4)) w6 = (Inr rep, w7)" and ok: "demo_report l rep"
    using demo_build_phase [OF assms] sha by blast
  have ph: "run_phases demo_machine l docker_local rq source v w4 =
      (Inr rep, snd (drop_container demo_machine docker_local ''c1'' w7))"
    using fd cr bc by (simp add: run_phases_def Let_def andThen_def now_io_def with_drop_def)
  have "contains (rq_bldimg rq) ''@sha256:''" using assms(2) by (simp add: demo_question_def)
  then show ?thesis
    using ok vol by (simp add: reproduce_def andThen_def pre src tok ph with_drop_def)
qed

theorem every_container_sandboxed_witness:
  "\<exists>evs. history (snd (reproduce demo_machine demo_libs docker_local demo_request demo_start)) =
       history demo_start @ evs \<and> list_all (sandboxed docker_local) evs"
  by (rule every_container_sandboxed) (simp add: own_program_def docker_local_def)

theorem nothing_left_behind_witness:
  "\<exists>evs. history (snd (reproduce demo_machine demo_libs docker_local demo_request demo_start)) =
       history demo_start @ evs \<and> (\<forall>live. live_after docker_local live evs = live + left_over docker_local evs)"
  by (rule nothing_left_behind) (simp add: own_program_def docker_local_def)

theorem report_sound_witness:
  "\<exists>rep w' v tar evs1 evs2.
     reproduce demo_machine demo_libs docker_local demo_request demo_start = (Inr rep, w') \<and>
     rp_result rep = Result_Verified \<and>
     fetch_seen demo_machine docker_local demo_request v evs1 \<and>
     build_seen docker_local demo_request v tar evs2 \<and>
     passes (evs1 @ evs2) demo_start w' \<and> report_ok demo_libs demo_request rep tar"
proof -
  from demo_reproduces [OF demo_codecs_libs demo_question_request] obtain rep w' where
    r: "reproduce demo_machine demo_libs docker_local demo_request demo_start = (Inr rep, w')"
    and v: "rp_result rep = Result_Verified" unfolding demo_report_def by blast
  from report_sound [OF r] r v show ?thesis by blast
qed

section \<open>Images that read as options\<close>

text \<open>
  The pin check accepts an image reference beginning with dashes, and \<open>create_args\<close> puts it where docker
  still parses options: the sandbox properties are about the argument list, and such a reference
  could only weaken the container through docker's own option parser.
\<close>

lemma option_image_accepted:
  "contains ''--volume=/:/x@sha256:ro'' ''@sha256:''"
  "create_args (build_spec (demo_request\<lparr>rq_bldimg := ''--volume=/:/x@sha256:ro''\<rparr>) wd v) =
     [''create'', ''--network=none''] @ hardening @
     [''--workdir'', wd, ''--volume'', v @ '':'' @ CARGO_HOME, ''--env'', ''CARGO_HOME='' @ CARGO_HOME,
      ''--env'', ''CARGO_NET_OFFLINE=true'', ''--volume=/:/x@sha256:ro'', ''contract'', ''build'']"
proof -
  show "contains ''--volume=/:/x@sha256:ro'' ''@sha256:''" by code_simp
  show "create_args (build_spec (demo_request\<lparr>rq_bldimg := ''--volume=/:/x@sha256:ro''\<rparr>) wd v) =
     [''create'', ''--network=none''] @ hardening @
     [''--workdir'', wd, ''--volume'', v @ '':'' @ CARGO_HOME, ''--env'', ''CARGO_HOME='' @ CARGO_HOME,
      ''--env'', ''CARGO_NET_OFFLINE=true'', ''--volume=/:/x@sha256:ro'', ''contract'', ''build'']"
    by (simp add: create_args_def build_spec_def BUILD_LIMITS_def BUILD_SECURITY_def
      hardening_def show_2048 demo_request_def)
qed

section \<open>Which artifact is hashed\<close>

text \<open>The finished artifacts of a build output: readable root-level files named \<open>*.wasm\<close>.\<close>

definition root_level :: "string \<Rightarrow> bool" where
  "root_level path \<longleftrightarrow> length (filter (\<lambda>s. s \<noteq> []) (split_on (CHR ''/'') path)) = 2"

definition finished :: "tar_entry list \<Rightarrow> (string \<times> bytes) list" where
  "finished es = concat (map (\<lambda>e. case te_data e of Inr b \<Rightarrow> [(utf8_lossy (te_path e), b)] | Inl _ \<Rightarrow> [])
     (filter (\<lambda>e. te_type e = Regular \<and> ends_with (utf8_lossy (te_path e)) ''.wasm'' \<and>
        root_level (utf8_lossy (te_path e))) es))"

definition readable :: "tar_entry \<Rightarrow> bool" where
  "readable e \<longleftrightarrow> (\<exists>b. te_data e = Inr b)"

definition optimized :: "string \<times> bytes \<Rightarrow> bool" where
  "optimized a \<longleftrightarrow> ends_with (fst a) ''.optimized.wasm''"

lemma collect_wasm_finished:
  "list_all readable es \<Longrightarrow> collect_wasm (map Inr es) found = Inr (found @ finished es)"
proof (induction es arbitrary: found)
  case Nil
  then show ?case by (simp add: finished_def)
next
  case (Cons e es)
  then obtain b where "te_data e = Inr b" by (auto simp: readable_def)
  with Cons show ?case by (simp add: finished_def root_level_def Let_def map_err_def)
qed

lemma choose_pair:
  "choose_wasm [a, b] =
     (if optimized a \<and> \<not> optimized b then Inr a else if optimized b \<and> \<not> optimized a then Inr b
      else Inl (AmbiguousWasm 2 [fst a, fst b]))"
  by (auto simp: choose_wasm_def optimized_def upt_rec Let_def)

lemma choose_many:
  "2 < length found \<Longrightarrow> choose_wasm found = Inl (AmbiguousWasm (length found) (map fst found))"
  by (auto simp: choose_wasm_def Let_def split: list.splits)

lemma list_up_to_two:
  obtains "xs = []" | a where "xs = [a]" | a b where "xs = [a, b]" | a b c ys where "xs = a # b # c # ys"
  by (metis list.exhaust)

text \<open>
  Property C17. Which artifact is hashed. From a readable build output the artifact is the single
  root-level .wasm file, or the optimized one of exactly two where exactly one is named
  *.optimized.wasm. With no such file the answer is NoWasmProduced, and with any other number or
  combination it is AmbiguousWasm naming all of them: an artifact is never guessed.
\<close>

theorem artifact_selected:
  assumes "lib_untar l tar = Inr (map Inr es)" and "list_all readable es"
  shows "select_wasm_from_tar l tar =
    (if finished es = [] then Inl NoWasmProduced
     else if length (finished es) = 1 then Inr (hd (finished es))
     else if length (finished es) = 2 \<and> length (filter optimized (finished es)) = 1
       then Inr (hd (filter optimized (finished es)))
     else Inl (AmbiguousWasm (length (finished es)) (map fst (finished es))))"
proof -
  have sel: "select_wasm_from_tar l tar = choose_wasm (finished es)"
    using assms by (simp add: select_wasm_from_tar_def collect_wasm_finished)
  consider "finished es = []" | a where "finished es = [a]" | a b where "finished es = [a, b]"
    | "2 < length (finished es)"
    by (cases "finished es" rule: list_up_to_two) auto
  then show ?thesis
  proof cases
    case 1
    then show ?thesis by (simp add: sel choose_wasm_def)
  next
    case 2
    then show ?thesis by (simp add: sel choose_wasm_def)
  next
    case 3
    then show ?thesis by (auto simp: sel choose_pair)
  next
    case 4
    then show ?thesis by (auto simp: sel choose_many)
  qed
qed

text \<open>The optimized file need not be the twin of the other one: any two names do.\<close>

lemma unrelated_optimized_accepted:
  "choose_wasm [(''release/a.wasm'', x), (''release/b.optimized.wasm'', y)] =
     Inr (''release/b.optimized.wasm'', y)"
proof -
  have "ends_with ''release/b.optimized.wasm'' ''.optimized.wasm''"
    "\<not> ends_with ''release/a.wasm'' ''.optimized.wasm''" by code_simp+
  then show ?thesis by (simp add: choose_pair optimized_def)
qed

definition output_entry :: "bytes \<Rightarrow> entry_type \<Rightarrow> bytes \<Rightarrow> tar_entry" where
  "output_entry path kind content = \<lparr>te_type = kind, te_path = path, te_link = None, te_mode = None,
     te_mtime = None, te_data = Inr content\<rparr>"

definition demo_output :: "tar_entry list" where
  "demo_output = [output_entry ''release/'' Directory [], output_entry ''release/x.wasm'' Regular ''old'',
     output_entry ''release/deps/x.wasm'' Regular ''old'',
     output_entry ''release/x.optimized.wasm'' Regular ''new'']"

theorem artifact_selected_witness:
  "select_wasm_from_tar (demo_libs\<lparr>lib_untar := \<lambda>_. Inr (map Inr demo_output)\<rparr>) ''t'' =
     Inr (''release/x.optimized.wasm'', ''new'')"
proof -
  have f: "finished demo_output = [(''release/x.wasm'', ''old''), (''release/x.optimized.wasm'', ''new'')]"
    by code_simp
  have o: "filter optimized [(''release/x.wasm'', ''old''), (''release/x.optimized.wasm'', ''new'')] =
    [(''release/x.optimized.wasm'', ''new'')]" by code_simp
  have "list_all readable demo_output" by (simp add: demo_output_def output_entry_def readable_def)
  with artifact_selected [of "demo_libs\<lparr>lib_untar := \<lambda>_. Inr (map Inr demo_output)\<rparr>" "''t''" demo_output]
  show ?thesis unfolding f o by simp
qed

end
