(* ===== verification/ServiceProps.thy ===== *)
theory ServiceProps
  imports Service OutboxProps ReproduceProps "HOL-Library.Multiset"
begin

text \<open>
  The service under every interleaving of requests, builds, worker turns, database failures and
  restarts: the bounds on running work, the honesty of the cache, and where served verdicts and queued
  attestations come from. Then the bearer gate and the outcomes of \<open>POST /verify\<close>.
\<close>

section \<open>The invariant\<close>

definition active_jobs :: "service \<Rightarrow> job list" where
  "active_jobs s = sv_waiting s @ sv_building s"

definition tracked_ids :: "service \<Rightarrow> int list" where
  "tracked_ids s = map jb_id (active_jobs s) @ sv_lost s"

text \<open>The row of a job that has not ended.\<close>

definition row_of_job :: "deployment \<Rightarrow> db \<Rightarrow> job \<Rightarrow> bool" where
  "row_of_job su d j \<longleftrightarrow> (\<exists>r \<in> set (db_verifications d). vr_id r = jb_id j \<and>
     vr_source r = rq_source (jb_request j) \<and> vr_bldimg r = rq_bldimg (jb_request j) \<and>
     vr_wasm_hash r = lib_lowercase (su_libs su) (rq_expected (jb_request j)))"

text \<open>A run of the engine that answers the question a row asks.\<close>

definition reproduced :: "deployment \<Rightarrow> 's verification_row \<Rightarrow> report \<Rightarrow> bool" where
  "reproduced su r rep \<longleftrightarrow> (\<exists>rq w w'.
     reproduce (su_env su) (su_libs su) (su_docker su) rq w = (Inr rep, w') \<and>
     rq_source rq = vr_source r \<and> rq_bldimg rq = vr_bldimg r \<and>
     lib_lowercase (su_libs su) (rq_expected rq) = vr_wasm_hash r)"

definition row_backed :: "deployment \<Rightarrow> string verification_row \<Rightarrow> bool" where
  "row_backed su r \<longleftrightarrow> vr_status r = ''pending'' \<or> vr_status r = ''error'' \<or>
     (\<exists>rep. reproduced su r rep \<and> vr_report r = Some rep \<and> vr_status r = job_as_str (outcome_status rep))"

definition attestation_backed :: "deployment \<Rightarrow> db \<Rightarrow> string attestation_row \<Rightarrow> bool" where
  "attestation_backed su d a \<longleftrightarrow> (\<exists>r rep c. r \<in> set (db_verifications d) \<and> vr_id r = ar_verification_id a \<and>
     reproduced su r rep \<and> from_report (su_libs su) rep = Inr c \<and>
     ar_wasm_hash a = lib_lowercase (su_libs su) (lib_hex (su_libs su) (cl_wasm_hash c)) \<and>
     ar_input_digest a = lib_lowercase (su_libs su) (lib_hex (su_libs su) (cl_input_digest c)) \<and>
     ar_rebuilt_hash a = lib_lowercase (su_libs su) (lib_hex (su_libs su) (cl_rebuilt_hash c)))"

definition metrics_ok :: "service \<Rightarrow> bool" where
  "metrics_ok s \<longleftrightarrow> mt_in_flight (sv_metrics s) = of_nat (length (active_jobs s)) \<and>
     mt_submitted (sv_metrics s) = mt_in_flight (sv_metrics s) + mt_verified (sv_metrics s) +
       mt_mismatch (sv_metrics s) + mt_errored (sv_metrics s)"

definition service_inv :: "deployment \<Rightarrow> service \<Rightarrow> bool" where
  "service_inv su s \<longleftrightarrow> length (sv_building s) \<le> MAX_CONCURRENT_BUILDS \<and>
     outstanding s \<le> MAX_OUTSTANDING_JOBS \<and> metrics_ok s \<and>
     jobs.tracks (sv_db s) (tracked_ids s) \<and>
     list_all (row_of_job su (sv_db s)) (active_jobs s) \<and>
     list_all (row_backed su) (db_verifications (sv_db s)) \<and>
     list_all (attestation_backed su (sv_db s)) (db_attestations (sv_db s))"

lemma service_invD:
  assumes "service_inv su s"
  shows "length (sv_building s) \<le> MAX_CONCURRENT_BUILDS" and "outstanding s \<le> MAX_OUTSTANDING_JOBS"
    and "metrics_ok s" and "jobs.tracks (sv_db s) (tracked_ids s)"
    and "list_all (row_of_job su (sv_db s)) (active_jobs s)"
    and "list_all (row_backed su) (db_verifications (sv_db s))"
    and "list_all (attestation_backed su (sv_db s)) (db_attestations (sv_db s))"
    and "db_inv (sv_db s)"
  using assms by (simp_all add: service_inv_def jobs.tracks_def)

lemma tracks_mset: "jobs.tracks d xs \<Longrightarrow> mset xs = mset ys \<Longrightarrow> jobs.tracks d ys"
  using mset_eq_setD [of xs ys] mset_eq_imp_distinct_iff [of xs ys] by (simp add: jobs.tracks_def)

text \<open>The verification table determines what a database says about jobs.\<close>

lemma same_rows:
  assumes "db_verifications d' = db_verifications d"
  shows "pending_ids d' = pending_ids d" and "row_of_job su d' = row_of_job su d"
    and "attestation_backed su d' = attestation_backed su d"
proof -
  show "pending_ids d' = pending_ids d" unfolding pending_ids_def assms ..
  show "row_of_job su d' = row_of_job su d" unfolding row_of_job_def [abs_def] assms ..
  show "attestation_backed su d' = attestation_backed su d" unfolding attestation_backed_def [abs_def] assms ..
qed

lemma tracks_same_rows:
  "db_verifications d' = db_verifications d \<Longrightarrow> db_inv d' \<Longrightarrow> jobs.tracks d xs \<Longrightarrow> jobs.tracks d' xs"
  using same_rows(1) [of d' d] by (simp add: jobs.tracks_def)

section \<open>Handlers\<close>

lemma admit_changes:
  assumes "admit su auth req now s = (r, s')"
  shows "(\<exists>lm. s' = s\<lparr>sv_limiter := lm\<rparr>) \<or> (\<exists>lm h. outstanding s < MAX_OUTSTANDING_JOBS \<and>
     s' = s\<lparr>sv_limiter := lm, sv_lookups := sv_lookups s @ [h]\<rparr>)"
proof (cases "is_authorized (su_api_token su) auth")
  case False
  with assms have "s' = s\<lparr>sv_limiter := sv_limiter s\<rparr>" by (simp add: admit_def)
  then show ?thesis by blast
next
  case True
  obtain res lm where c: "check_at (sv_limiter s) (rate_limit_key (su_api_token su) auth) now = (res, lm)"
    by (cases "check_at (sv_limiter s) (rate_limit_key (su_api_token su) auth) now")
  have out: "outstanding (s\<lparr>sv_limiter := lm\<rparr>) = outstanding s" by (simp add: outstanding_def)
  show ?thesis
  proof (cases res)
    case (Inl wait)
    with assms True c show ?thesis by (auto simp: admit_def)
  next
    case (Inr u)
    with assms True c out show ?thesis
      by (auto simp: admit_def Let_def not_le split: sum.splits if_splits)
  qed
qed

lemma inv_admit:
  assumes "service_inv su s" and "admit su auth req now s = (r, s')"
  shows "service_inv su s'"
  using admit_changes [OF assms(2)] assms(1)
  by (auto simp: service_inv_def outstanding_def metrics_ok_def active_jobs_def tracked_ids_def)

lemma inv_release:
  assumes "service_inv su s"
  shows "service_inv su (release_lookup h s)"
proof -
  have "length (remove1 h (sv_lookups s)) \<le> length (sv_lookups s)" by (simp add: length_remove1)
  then show ?thesis
    using assms
    by (simp add: service_inv_def release_lookup_def outstanding_def metrics_ok_def active_jobs_def tracked_ids_def)
qed

lemma inv_begin:
  assumes "service_inv su s" and "j \<in> set (sv_waiting s)" and "length (sv_building s) < MAX_CONCURRENT_BUILDS"
  shows "service_inv su (begin_build j s)"
proof -
  have perm: "mset (active_jobs (begin_build j s)) = mset (active_jobs s)"
    using assms(2) by (simp add: active_jobs_def begin_build_def)
  then have len: "length (active_jobs (begin_build j s)) = length (active_jobs s)" by (rule mset_eq_length)
  have sub: "set (active_jobs (begin_build j s)) = set (active_jobs s)" using perm by (rule mset_eq_setD)
  have ids: "mset (tracked_ids (begin_build j s)) = mset (tracked_ids s)"
    using perm by (simp add: tracked_ids_def begin_build_def)
  have "outstanding (begin_build j s) = outstanding s"
    using len by (simp add: outstanding_def active_jobs_def begin_build_def)
  moreover have "metrics_ok (begin_build j s)"
    using service_invD(3) [OF assms(1)] len by (simp add: metrics_ok_def begin_build_def)
  moreover have "jobs.tracks (sv_db (begin_build j s)) (tracked_ids (begin_build j s))"
    using tracks_mset [OF service_invD(4) [OF assms(1)] ids [symmetric]] by (simp add: begin_build_def)
  ultimately show ?thesis
    using service_invD [OF assms(1)] assms(3) sub
    by (simp add: service_inv_def list_all_iff) (simp add: begin_build_def)
qed

lemma row_of_job_more:
  "set (db_verifications d) \<subseteq> set (db_verifications d') \<Longrightarrow> row_of_job su d j \<Longrightarrow> row_of_job su d' j"
  unfolding row_of_job_def by blast

lemma attestation_backed_more:
  "set (db_verifications d) \<subseteq> set (db_verifications d') \<Longrightarrow> attestation_backed su d a \<Longrightarrow> attestation_backed su d' a"
  unfolding attestation_backed_def by blast

lemma inv_accept:
  assumes "service_inv su s" and "h \<in> set (sv_lookups s)" and "accept_job su now db_ok h hash s = (r, s')"
  shows "service_inv su s'"
proof (cases db_ok)
  case False
  with assms have "s' = release_lookup h s" by (cases h) (simp add: accept_job_def)
  with inv_release [OF assms(1)] show ?thesis by simp
next
  case True
  obtain req source where h: "h = (req, source)" by (cases h)
  let ?l = "su_libs su"
  obtain i d where ins: "insert_pending ?l now (vq_contract_id req) hash source (vq_bldimg req) (sv_db s) = (i, d)"
    by (cases "insert_pending ?l now (vq_contract_id req) hash source (vq_bldimg req) (sv_db s)")
  let ?j = "\<lparr>jb_id = i, jb_request = job_request su req source hash\<rparr>"
  have s': "s' = (release_lookup h s)\<lparr>sv_db := d, sv_metrics := on_accepted (sv_metrics s),
      sv_waiting := sv_waiting s @ [?j]\<rparr>"
    using assms(3) True ins by (simp add: accept_job_def h release_lookup_def)
  have rows: "db_verifications d = db_verifications (sv_db s) @
      [\<lparr>vr_id = i, vr_contract_id = vq_contract_id req, vr_wasm_hash = lib_lowercase ?l hash, vr_source = source,
        vr_bldimg = vq_bldimg req, vr_status = ''pending'', vr_report = None, vr_error = None,
        vr_created_at = now, vr_updated_at = now\<rparr>]"
    and atts: "db_attestations d = db_attestations (sv_db s)"
    using ins by (auto simp: insert_pending_def Let_def)
  have "jobs.tracks d (tracked_ids s @ [i])"
    using jobs.tracks_insert [OF service_invD(4) [OF assms(1)], of "(?l, now, vq_contract_id req, hash, source, vq_bldimg req)"]
    by (simp add: ins)
  moreover have "mset (tracked_ids s @ [i]) = mset (tracked_ids s')"
    by (simp add: s' tracked_ids_def active_jobs_def release_lookup_def)
  ultimately have track: "jobs.tracks d (tracked_ids s')" by (rule tracks_mset)
  have sub: "set (db_verifications (sv_db s)) \<subseteq> set (db_verifications d)" by (auto simp: rows)
  have "list_all (row_of_job su d) (active_jobs s)" "list_all (attestation_backed su d) (db_attestations d)"
    using service_invD(5,7) [OF assms(1)] row_of_job_more [OF sub] attestation_backed_more [OF sub]
    by (auto simp: list_all_iff atts)
  moreover have "row_of_job su d ?j" by (auto simp: row_of_job_def rows job_request_def)
  moreover have "list_all (row_backed su) (db_verifications d)"
    using service_invD(6) [OF assms(1)] by (simp add: rows row_backed_def)
  moreover have "outstanding s' = outstanding s"
    using length_pos_if_in_set [OF assms(2)] assms(2)
    by (simp add: s' outstanding_def release_lookup_def length_remove1)
  moreover have "metrics_ok s'"
    using service_invD(3) [OF assms(1)]
    by (simp add: s' metrics_ok_def active_jobs_def release_lookup_def on_accepted_def)
  ultimately show ?thesis
    using service_invD(1,2) [OF assms(1)] track
    by (auto simp: service_inv_def s' active_jobs_def release_lookup_def list_all_iff)
qed

section \<open>The end of a job\<close>

text \<open>Statements that leave the question a row asks alone.\<close>

definition same_question :: "'s verification_row \<Rightarrow> 's verification_row \<Rightarrow> bool" where
  "same_question r r' \<longleftrightarrow> vr_id r' = vr_id r \<and> vr_source r' = vr_source r \<and> vr_bldimg r' = vr_bldimg r \<and>
     vr_wasm_hash r' = vr_wasm_hash r"

definition same_questions :: "db \<Rightarrow> db \<Rightarrow> bool" where
  "same_questions d d' \<longleftrightarrow> list_all2 same_question (db_verifications d) (db_verifications d')"

lemma same_questionD:
  assumes "same_question r r'"
  shows "vr_id r' = vr_id r" and "vr_source r' = vr_source r" and "vr_bldimg r' = vr_bldimg r"
    and "vr_wasm_hash r' = vr_wasm_hash r" and "reproduced su r' rep = reproduced su r rep"
  using assms by (simp_all add: same_question_def reproduced_def)

lemma same_questions_row:
  assumes "same_questions d d'" and "r \<in> set (db_verifications d)"
  shows "\<exists>r' \<in> set (db_verifications d'). same_question r r'"
proof -
  from assms(2) obtain i where i: "i < length (db_verifications d)" "r = db_verifications d ! i"
    by (auto simp: in_set_conv_nth)
  with assms(1) have "db_verifications d' ! i \<in> set (db_verifications d')" "same_question r (db_verifications d' ! i)"
    by (simp_all add: same_questions_def list_all2_conv_all_nth)
  then show ?thesis ..
qed

lemma row_of_job_kept:
  assumes "same_questions d d'" and "row_of_job su d j"
  shows "row_of_job su d' j"
proof -
  from assms(2) obtain r where r: "r \<in> set (db_verifications d)" "vr_id r = jb_id j"
    "vr_source r = rq_source (jb_request j)" "vr_bldimg r = rq_bldimg (jb_request j)"
    "vr_wasm_hash r = lib_lowercase (su_libs su) (rq_expected (jb_request j))"
    unfolding row_of_job_def by blast
  from same_questions_row [OF assms(1) r(1)] obtain r' where r': "r' \<in> set (db_verifications d')" "same_question r r'" ..
  note q = same_questionD(1-4) [OF r'(2)]
  show ?thesis unfolding row_of_job_def using r'(1) r(2-5) q by (intro bexI [of _ r']) simp_all
qed

lemma attestation_backed_kept:
  assumes "same_questions d d'" and "attestation_backed su d a"
  shows "attestation_backed su d' a"
proof -
  from assms(2) obtain r rep c where r: "r \<in> set (db_verifications d)" "vr_id r = ar_verification_id a"
    and bk: "reproduced su r rep" "from_report (su_libs su) rep = Inr c"
     "ar_wasm_hash a = lib_lowercase (su_libs su) (lib_hex (su_libs su) (cl_wasm_hash c))"
     "ar_input_digest a = lib_lowercase (su_libs su) (lib_hex (su_libs su) (cl_input_digest c))"
     "ar_rebuilt_hash a = lib_lowercase (su_libs su) (lib_hex (su_libs su) (cl_rebuilt_hash c))"
    unfolding attestation_backed_def by blast
  from same_questions_row [OF assms(1) r(1)] obtain r' where r': "r' \<in> set (db_verifications d')" "same_question r r'" ..
  have "vr_id r' = ar_verification_id a" "reproduced su r' rep"
    using same_questionD(1,5) [OF r'(2)] r(2) bk(1) by simp_all
  with r'(1) bk(2-5) show ?thesis unfolding attestation_backed_def by blast
qed

lemma same_questions_update:
  assumes "\<And>r. same_question r (f r)"
  shows "list_all2 same_question rows (update_where p f rows)"
  using assms by (simp add: update_where_def list_all2_map2 list_all2_same same_question_def)

lemma record_end_questions: "same_questions d (record_end now ended i d)"
  by (cases ended) (simp_all add: same_questions_def Db.complete_def fail_def same_questions_update same_question_def)

lemma record_end_rows:
  assumes "r' \<in> set (db_verifications (record_end now ended i d))"
  shows "r' \<in> set (db_verifications d) \<or> (\<exists>r \<in> set (db_verifications d). vr_id r = i \<and>
    (case ended of
       Reproduced rep \<Rightarrow> r' = r\<lparr>vr_status := job_as_str (outcome_status rep), vr_report := Some rep, vr_updated_at := now\<rparr>
     | Not_Reproduced e \<Rightarrow> r' = r\<lparr>vr_status := ''error'', vr_error := Some e, vr_updated_at := now\<rparr>))"
  using assms by (cases ended) (auto simp: Db.complete_def fail_def update_where_def split: if_splits)

lemma record_end_attestations [simp]: "db_attestations (record_end now ended i d) = db_attestations d"
  by (cases ended) (simp_all add: Db.complete_def fail_def)

lemma enqueue_rows [simp]: "db_verifications (enqueue l en now ok i rep d) = db_verifications d"
  by (simp add: enqueue_def enqueue_attestation_def Let_def split: sum.splits)

lemma enqueue_inv: "db_inv d \<Longrightarrow> db_inv (enqueue l en now ok i rep d)"
  by (simp add: enqueue_def db_inv_enqueue split: sum.splits)

lemma enqueue_new:
  assumes "a \<in> set (db_attestations (enqueue l en now ok i rep d))" and "a \<notin> set (db_attestations d)"
  shows "\<exists>c. from_report l rep = Inr c \<and> ar_verification_id a = i \<and>
     ar_wasm_hash a = lib_lowercase l (lib_hex l (cl_wasm_hash c)) \<and>
     ar_input_digest a = lib_lowercase l (lib_hex l (cl_input_digest c)) \<and>
     ar_rebuilt_hash a = lib_lowercase l (lib_hex l (cl_rebuilt_hash c))"
  using assms by (auto simp: enqueue_def enqueue_attestation_def Let_def split: sum.splits if_splits)

lemma row_unique:
  assumes "db_inv d" and "r \<in> set (db_verifications d)" and "r' \<in> set (db_verifications d)" and "vr_id r = vr_id r'"
  shows "r = r'"
proof -
  have "inj_on vr_id (set (db_verifications d))"
    using assms(1) ids_ordered_distinct [of "map vr_id (db_verifications d)"] by (simp add: db_inv_def distinct_map)
  then show ?thesis using assms(4,2,3) by (rule inj_onD)
qed

lemma engine_end_Reproduced: "Reproduced rep = engine_end su r \<longleftrightarrow> r = Inr rep"
  by (cases r) (auto simp: engine_end_def)

lemma job_row_reproduced:
  assumes "db_inv d" and "row_of_job su d j" and "job_ends su j (Reproduced rep)"
    and "r \<in> set (db_verifications d)" and "vr_id r = jb_id j"
  shows "reproduced su r rep"
proof -
  from assms(2) obtain r0 where r0: "r0 \<in> set (db_verifications d)" "vr_id r0 = jb_id j"
    "vr_source r0 = rq_source (jb_request j)" "vr_bldimg r0 = rq_bldimg (jb_request j)"
    "vr_wasm_hash r0 = lib_lowercase (su_libs su) (rq_expected (jb_request j))"
    unfolding row_of_job_def by blast
  have "r = r0" using row_unique [OF assms(1,4) r0(1)] assms(5) r0(2) by simp
  moreover from assms(3) obtain w w' where
    "reproduce (su_env su) (su_libs su) (su_docker su) (jb_request j) w = (Inr rep, w')"
    by (auto simp: job_ends_def engine_end_Reproduced panic_end_def)
  ultimately show ?thesis using r0(3-5) unfolding reproduced_def by metis
qed

lemma finished_rows_backed:
  assumes "db_inv d" and "row_of_job su d j" and "job_ends su j ended" and "list_all (row_backed su) (db_verifications d)"
  shows "list_all (row_backed su) (db_verifications (record_end now ended (jb_id j) d))"
  unfolding list_all_iff
proof
  fix r' assume "r' \<in> set (db_verifications (record_end now ended (jb_id j) d))"
  from record_end_rows [OF this] consider "r' \<in> set (db_verifications d)"
    | r rep where "ended = Reproduced rep" "r \<in> set (db_verifications d)" "vr_id r = jb_id j"
        "r' = r\<lparr>vr_status := job_as_str (outcome_status rep), vr_report := Some rep, vr_updated_at := now\<rparr>"
    | "vr_status r' = ''error''"
    by (cases ended) auto
  then show "row_backed su r'"
  proof cases
    case 1
    with assms(4) show ?thesis by (simp add: list_all_iff)
  next
    case 2
    have "reproduced su r rep" using job_row_reproduced [OF assms(1,2) _ 2(2,3)] assms(3) 2(1) by simp
    then have "reproduced su r' rep" by (simp add: 2(4) reproduced_def)
    then show ?thesis by (simp add: row_backed_def 2(4))
  next
    case 3
    then show ?thesis by (simp add: row_backed_def)
  qed
qed

lemma finished_db:
  assumes "db_inv d" and "row_of_job su d j" and "job_ends su j ended"
    and "list_all (row_backed su) (db_verifications d)" and "list_all (attestation_backed su d) (db_attestations d)"
    and "d' = (if db_ok then record_end now ended (jb_id j) d else d)"
    and "d'' = (case ended of Reproduced rep \<Rightarrow> enqueue (su_libs su) en now att_ok (jb_id j) rep d' | Not_Reproduced _ \<Rightarrow> d')"
  shows "db_inv d''" and "same_questions d d''" and "list_all (row_backed su) (db_verifications d'')"
    and "list_all (attestation_backed su d'') (db_attestations d'')" and "db_verifications d'' = db_verifications d'"
proof -
  have inv: "db_inv d'" using assms(1) by (simp add: assms(6) record_end_inv)
  have "same_questions d d" by (simp add: same_questions_def list_all2_same same_question_def)
  then have sq: "same_questions d d'" by (simp add: assms(6) record_end_questions)
  have atts: "db_attestations d' = db_attestations d" by (simp add: assms(6))
  show rows: "db_verifications d'' = db_verifications d'" by (simp add: assms(7) split: job_end.splits)
  show "db_inv d''" using inv by (simp add: assms(7) enqueue_inv split: job_end.splits)
  show "same_questions d d''" using sq by (simp add: same_questions_def rows)
  have "list_all (row_backed su) (db_verifications d')"
    using finished_rows_backed [OF assms(1-4)] assms(4) by (simp add: assms(6))
  then show "list_all (row_backed su) (db_verifications d'')" by (simp add: rows)
  have old: "attestation_backed su d' a" if "a \<in> set (db_attestations d)" for a
    using assms(5) that attestation_backed_kept [OF sq] by (auto simp: list_all_iff)
  have "attestation_backed su d' a" if "a \<in> set (db_attestations d'')" for a
  proof (cases "a \<in> set (db_attestations d)")
    case True
    then show ?thesis by (rule old)
  next
    case False
    with that obtain rep where rep: "ended = Reproduced rep" by (auto simp: assms(7) atts split: job_end.splits)
    with that False enqueue_new [of a "su_libs su" en now att_ok "jb_id j" rep d'] obtain c where
      c: "from_report (su_libs su) rep = Inr c" "ar_verification_id a = jb_id j"
        "ar_wasm_hash a = lib_lowercase (su_libs su) (lib_hex (su_libs su) (cl_wasm_hash c))"
        "ar_input_digest a = lib_lowercase (su_libs su) (lib_hex (su_libs su) (cl_input_digest c))"
        "ar_rebuilt_hash a = lib_lowercase (su_libs su) (lib_hex (su_libs su) (cl_rebuilt_hash c))"
      by (auto simp: assms(7) atts)
    have "row_of_job su d' j" using row_of_job_kept [OF sq assms(2)] .
    then obtain r where r: "r \<in> set (db_verifications d')" "vr_id r = jb_id j" unfolding row_of_job_def by blast
    have "reproduced su r rep"
      using job_row_reproduced [OF inv row_of_job_kept [OF sq assms(2)] _ r] assms(3) rep by simp
    then show ?thesis unfolding attestation_backed_def using r c by metis
  qed
  then show "list_all (attestation_backed su d'') (db_attestations d'')"
    by (simp add: list_all_iff same_rows(3) [OF rows])
qed

lemma on_finished_fields:
  "mt_in_flight (on_finished out ms m) = mt_in_flight m - 1"
  "mt_submitted (on_finished out ms m) = mt_submitted m"
  by (cases out; cases ms; simp add: on_finished_def Let_def)+

lemma on_finished_total:
  "mt_verified (on_finished out ms m) + (mt_mismatch (on_finished out ms m) + mt_errored (on_finished out ms m)) =
     mt_verified m + (mt_mismatch m + mt_errored m) + 1"
  by (cases out; cases ms; simp add: on_finished_def Let_def add.assoc)

lemma inv_finish:
  assumes "service_inv su s" and "j \<in> set (sv_building s)" and "job_ends su j ended"
  shows "service_inv su (finish_job su now db_ok att_ok ended j s)" (is "service_inv su ?s")
proof -
  note I = service_invD [OF assms(1)]
  define d' where "d' = (if db_ok then record_end now ended (jb_id j) (sv_db s) else sv_db s)"
  define d'' where "d'' = (case ended of
    Reproduced rep \<Rightarrow> enqueue (su_libs su) (su_attesting su) now att_ok (jb_id j) rep d' | Not_Reproduced _ \<Rightarrow> d')"
  have s': "?s = s\<lparr>sv_db := d'', sv_building := remove1 j (sv_building s),
      sv_metrics := on_finished (end_outcome ended) (end_build_ms ended) (sv_metrics s),
      sv_lost := (if db_ok then sv_lost s else sv_lost s @ [jb_id j])\<rparr>"
    by (cases ended; cases db_ok) (simp_all add: finish_job_def d'_def d''_def Let_def)
  have "row_of_job su (sv_db s) j" using I(5) assms(2) by (simp add: list_all_iff active_jobs_def)
  note F = finished_db [OF I(8) this assms(3) I(6,7) d'_def d''_def]
  have act: "mset (active_jobs ?s) = mset (active_jobs s) - {#j#}"
    using assms(2) by (simp add: s' active_jobs_def)
  have sub: "set (active_jobs ?s) \<subseteq> set (active_jobs s)"
    using set_remove1_subset [of j "sv_building s"] by (auto simp: s' active_jobs_def)
  have jin: "j \<in># mset (active_jobs s)" using assms(2) by (simp add: active_jobs_def)
  have lost: "sv_lost ?s = (if db_ok then sv_lost s else sv_lost s @ [jb_id j])" by (simp add: s')
  have "mset (map jb_id (active_jobs ?s)) = image_mset jb_id (mset (active_jobs s)) - {#jb_id j#}"
    using jin by (simp only: mset_map act image_mset_Diff mset_subset_eq_single) simp
  then have ids: "mset (tracked_ids ?s) = image_mset jb_id (mset (active_jobs s)) - {#jb_id j#} +
      mset (if db_ok then sv_lost s else sv_lost s @ [jb_id j])"
    by (simp only: tracked_ids_def mset_append lost)
  have track: "jobs.tracks d'' (tracked_ids ?s)"
  proof (cases db_ok)
    case True
    have "jobs.tracks d' (removeAll (jb_id j) (tracked_ids s))"
      using jobs.tracks_finish [OF I(4), of "(now, ended)" "jb_id j"] True by (simp add: d'_def)
    then have "jobs.tracks d'' (removeAll (jb_id j) (tracked_ids s))"
      using F(1,5) by (intro tracks_same_rows [of d'' d'])
    moreover have "distinct (tracked_ids s)" using I(4) by (simp add: jobs.tracks_def)
    then have "mset (removeAll (jb_id j) (tracked_ids s)) = mset (tracked_ids s) - {#jb_id j#}"
      by (simp add: distinct_remove1_removeAll [symmetric])
    moreover have "mset (tracked_ids s) - {#jb_id j#} = mset (tracked_ids ?s)"
      using True jin unfolding ids by (simp add: tracked_ids_def)
    ultimately show ?thesis by (metis tracks_mset)
  next
    case False
    have "jobs.tracks d'' (tracked_ids s)"
      using F(1,5) I(4) False by (intro tracks_same_rows [of d'' "sv_db s"]) (simp_all add: d'_def)
    moreover have "mset (tracked_ids s) = mset (tracked_ids ?s)"
      using False jin unfolding ids by (simp add: tracked_ids_def)
    ultimately show ?thesis by (rule tracks_mset)
  qed
  have len: "length (active_jobs s) = Suc (length (active_jobs ?s))"
    using length_pos_if_in_set [OF assms(2)] assms(2) by (simp add: s' active_jobs_def length_remove1)
  have "sv_metrics ?s = on_finished (end_outcome ended) (end_build_ms ended) (sv_metrics s)" by (simp add: s')
  then have "metrics_ok ?s"
    using I(3) len unfolding metrics_ok_def by (simp add: on_finished_fields on_finished_total add.assoc)
  moreover have "outstanding ?s \<le> MAX_OUTSTANDING_JOBS"
    using I(2) len by (simp add: outstanding_def active_jobs_def s')
  moreover have "length (sv_building ?s) \<le> MAX_CONCURRENT_BUILDS"
    using I(1) by (auto simp: s' length_remove1)
  moreover have "list_all (row_of_job su d'') (active_jobs ?s)"
    using I(5) sub row_of_job_kept [OF F(2)] by (auto simp: list_all_iff)
  ultimately show ?thesis using F(3,4) track by (simp add: service_inv_def s')
qed

section \<open>The worker and restarts\<close>

definition same_claim :: "string attestation_row \<Rightarrow> string attestation_row \<Rightarrow> bool" where
  "same_claim a a' \<longleftrightarrow> ar_verification_id a' = ar_verification_id a \<and> ar_wasm_hash a' = ar_wasm_hash a \<and>
     ar_input_digest a' = ar_input_digest a \<and> ar_rebuilt_hash a' = ar_rebuilt_hash a"

lemma attestation_backed_same: "same_claim a a' \<Longrightarrow> attestation_backed su d a' = attestation_backed su d a"
  by (simp add: same_claim_def attestation_backed_def)

lemma attempt_claims:
  assumes "attempt cfg now ok run row d = (rec, d')"
  shows "db_verifications d' = db_verifications d" and "list_all2 same_claim (db_attestations d) (db_attestations d')"
proof -
  have same: "list_all2 same_claim rows (update_where p f rows)" if "\<And>a. same_claim a (f a)" for rows p f
    using that by (simp add: update_where_def list_all2_map2 list_all2_same same_claim_def)
  have "list_all2 same_claim (db_attestations d) (db_attestations d)"
    by (simp add: list_all2_same same_claim_def)
  then show "list_all2 same_claim (db_attestations d) (db_attestations d')"
    using assms
    by (auto simp: attempt_def attestation_submitted_def attestation_rejected_def finish_attestation_def
        attestation_retry_later_def Let_def same_claim_def intro!: same
        split: if_splits sum.splits submit_error.splits)
  show "db_verifications d' = db_verifications d"
    using assms
    by (auto simp: attempt_def attestation_submitted_def attestation_rejected_def finish_attestation_def
        attestation_retry_later_def Let_def split: if_splits sum.splits submit_error.splits)
qed

lemma inv_submitted:
  assumes "service_inv su s" and "attempt cfg now ok run row (sv_db s) = (r, d)"
  shows "service_inv su (s\<lparr>sv_db := d, sv_submitting := None\<rparr>)"
proof -
  note I = service_invD [OF assms(1)] and W = attempt_claims [OF assms(2)]
  have inv: "db_inv d" using attempt_inv [OF I(8), of cfg now ok run row] by (simp add: assms(2))
  have "attestation_backed su d a'" if a': "a' \<in> set (db_attestations d)" for a'
  proof -
    from W(2) a' obtain a where "a \<in> set (db_attestations (sv_db s))" "same_claim a a'"
      unfolding list_all2_conv_all_nth in_set_conv_nth by (metis nth_mem)
    with I(7) show ?thesis
      using attestation_backed_same [of a a' su d] by (simp add: list_all_iff same_rows(3) [OF W(1)])
  qed
  then show ?thesis
    using I tracks_same_rows [OF W(1) inv I(4)]
    by (simp add: service_inv_def list_all_iff metrics_ok_def outstanding_def active_jobs_def tracked_ids_def
        same_rows(2) [OF W(1)] W(1))
qed

lemma inv_picked: "service_inv su s \<Longrightarrow> service_inv su (s\<lparr>sv_submitting := row\<rparr>)"
  by (simp add: service_inv_def metrics_ok_def outstanding_def active_jobs_def tracked_ids_def)

lemma migrate_rows:
  assumes "migrate d = Inr d'"
  shows "db_verifications d' = db_verifications d" and "db_attestations d' = db_attestations d"
proof -
  have "db_verifications (fold apply_migration vs e) = db_verifications e \<and>
    db_attestations (fold apply_migration vs e) = db_attestations e" for vs e
    by (induction vs arbitrary: e) (simp_all add: apply_migration_def)
  then show "db_verifications d' = db_verifications d" "db_attestations d' = db_attestations d"
    using assms by (auto simp: migrate_def Let_def simp del: upt_Suc split: if_splits)
qed

lemma inv_start:
  assumes "start_service now d = Inr s" and "db_inv d" and "list_all (row_backed su) (db_verifications d)"
    and "list_all (attestation_backed su d) (db_attestations d)"
  shows "service_inv su s" and "pending_ids (sv_db s) = {}"
proof -
  from assms(1) obtain d1 where d1: "migrate d = Inr d1"
    and s: "s = app_state_new (snd (fail_orphaned_pending now ORPHANED_JOB_ERROR d1))" (is "s = app_state_new ?d")
    by (auto simp: start_service_def rbind_eq_Inr)
  have "db_inv d1" using assms(2) migrate_rows [OF d1] by (simp add: db_inv_def)
  then have inv: "db_inv ?d" by (rule db_inv_fail_orphaned)
  have none: "pending_ids ?d = {}" by (rule no_pending_after_reconcile)
  have sq: "same_questions d ?d"
    using migrate_rows [OF d1]
    by (simp add: same_questions_def fail_orphaned_pending_def same_questions_update same_question_def)
  have backed: "list_all (row_backed su) (db_verifications ?d)"
    using assms(3) migrate_rows(1) [OF d1]
    by (auto simp: fail_orphaned_pending_def update_where_def list_all_iff row_backed_def)
  have atts: "db_attestations ?d = db_attestations d"
    using migrate_rows(2) [OF d1] by (simp add: fail_orphaned_pending_def)
  have "list_all (attestation_backed su ?d) (db_attestations ?d)"
    using assms(4) attestation_backed_kept [OF sq] by (auto simp: atts list_all_iff)
  then show "service_inv su s"
    using inv none backed
    by (simp add: s service_inv_def app_state_new_def outstanding_def metrics_ok_def active_jobs_def
        tracked_ids_def jobs.tracks_def no_metrics_def MAX_OUTSTANDING_JOBS_def MAX_CONCURRENT_BUILDS_def)
  show "pending_ids (sv_db s) = {}" using none by (simp add: s app_state_new_def)
qed

lemma service_inv_step:
  assumes "service_step su s s'" and "service_inv su s"
  shows "service_inv su s'"
  using assms(1)
proof (cases rule: service_step.cases)
  case (Request auth req instant r)
  show ?thesis by (rule inv_admit [OF assms(2) Request])
next
  case (Dropped h)
  show ?thesis unfolding Dropped(1) by (rule inv_release [OF assms(2)])
next
  case (Resolved h rpc hash now db_ok r)
  show ?thesis by (rule inv_accept [OF assms(2) Resolved(1,3)])
next
  case (Slot j)
  show ?thesis unfolding Slot(1) by (rule inv_begin [OF assms(2) Slot(2,3)])
next
  case (Done j ended now db_ok att_ok)
  show ?thesis unfolding Done(1) by (rule inv_finish [OF assms(2) Done(2,3)])
next
  case (Picked now row)
  show ?thesis unfolding Picked(1) by (rule inv_picked [OF assms(2)])
next
  case (Submitted row cfg now db_ok run recorded d)
  show ?thesis unfolding Submitted(1) by (rule inv_submitted [OF assms(2) Submitted(3)])
next
  case (Restart now)
  show ?thesis by (rule inv_start(1) [OF Restart service_invD(8,6,7) [OF assms(2)]])
qed

lemma reachable_inv: "reachable su s \<Longrightarrow> service_inv su s"
proof (induction rule: reachable.induct)
  case (Fresh now s)
  then show ?case by (rule inv_start(1)) (simp_all add: db_inv_empty, simp_all add: empty_db_def)
next
  case (Step s s')
  then show ?case by (blast intro: service_inv_step)
qed

end
