(* ===== verification/ClaimProps.thy ===== *)
theory ClaimProps
  imports ClaimDigest ReproduceProps
begin

text \<open>
  From a report to its claim: which reports can be attested, and that the verdict the registry derives
  from a claim (rebuilt hash equal to the on-chain hash) is the verdict of the report. The laws of the
  hex crate the argument needs are \<open>hex_laws\<close>, and a hex codec is given that has them.
\<close>

section \<open>Same digest, same question\<close>

lemma claim_digest_binds:
  assumes "input_digest l src img opts = input_digest l src' img' opts'"
    and "length src = 32" and "length img = 32" and "length opts < 2 ^ 32"
    and "length src' = 32" and "length img' = 32" and "length opts' < 2 ^ 32"
    and "list_all (\<lambda>x. length x < 2 ^ 32) opts" and "list_all (\<lambda>x. length x < 2 ^ 32) opts'"
    and "\<And>a b. lib_sha256 l a = lib_sha256 l b \<Longrightarrow> a \<in> {claim_buffer src img opts} \<Longrightarrow>
      b \<in> {claim_buffer src' img' opts'} \<Longrightarrow> a = b"
  shows "src = src' \<and> img = img' \<and> opts = opts'"
proof -
  have "input_digest l s i os = lib_sha256 l (claim_buffer s i os)" for s i os
    by (simp add: digest_layouts claim_input_digest_def)
  with assms(1,10) have "claim_buffer src img opts = claim_buffer src' img' opts'" by simp
  then have "Some (src, img, opts) = Some (src', img', opts')"
    using decode_claim_buffer [OF assms(2,3,4,8)] decode_claim_buffer [OF assms(5,6,7,9)]
    by (simp only:)
  then show ?thesis by simp
qed

section \<open>Hex\<close>

text \<open>
  What the code relies on: decoding accepts either case and inverts encoding, which is lower case, and
  lower-casing twice is lower-casing once.
\<close>

definition hex_laws :: "libs \<Rightarrow> bool" where
  "hex_laws l \<longleftrightarrow> (\<forall>s b. lib_unhex l s = Inr b \<longrightarrow> lib_hex l b = lib_lowercase l s) \<and>
     (\<forall>b. lib_lowercase l (lib_hex l b) = lib_hex l b) \<and>
     (\<forall>s. lib_lowercase l (lib_lowercase l s) = lib_lowercase l s)"

lemma hex_lawsD:
  assumes "hex_laws l"
  shows "lib_unhex l s = Inr b \<Longrightarrow> lib_hex l b = lib_lowercase l s"
    and "lib_lowercase l (lib_hex l b) = lib_hex l b"
    and "lib_lowercase l (lib_lowercase l s) = lib_lowercase l s"
  using assms by (simp_all add: hex_laws_def)

lemma hex32_Inr: "hex32 l s = Inr b \<longleftrightarrow> lib_unhex l s = Inr b \<and> length b = 32"
  by (auto simp: hex32_def split: sum.splits)

lemma image_digest_hex_Inr:
  "image_digest_hex s = Inr h \<longleftrightarrow> (\<exists>u. split_once s ''@sha256:'' = Some (u, h))"
  by (auto simp: image_digest_hex_def split: option.splits)

lemma field32_Inr: "field32 l name s = Inr b \<longleftrightarrow> hex32 l s = Inr b"
  by (simp add: field32_def rbind_simps)

lemma from_report_Inr:
  "from_report l rep = Inr c \<longleftrightarrow> (\<exists>bldimg u hex img wasm src rebuilt.
     rp_bldimg_digest rep = Some bldimg \<and> split_once bldimg ''@sha256:'' = Some (u, hex) \<and>
     hex32 l hex = Inr img \<and> hex32 l (rp_expected rep) = Inr wasm \<and>
     hex32 l (rp_source_sha256 rep) = Inr src \<and> hex32 l (rp_rebuilt rep) = Inr rebuilt \<and>
     c = \<lparr>cl_wasm_hash = wasm, cl_input_digest = input_digest l src img (rp_bldopt rep),
          cl_rebuilt_hash = rebuilt\<rparr>)"
  unfolding from_report_def rbind_eq_Inr ok_or_eq_Inr image_digest_hex_Inr field32_Inr by blast

lemma claim_of_report:
  assumes "report_ok l rq rep tar" and "hex_laws l" and "from_report l rep = Inr c"
  shows "(cl_rebuilt_hash c = cl_wasm_hash c \<longleftrightarrow> rp_result rep = Result_Verified) \<and>
    length (cl_wasm_hash c) = 32 \<and> length (cl_rebuilt_hash c) = 32 \<and>
    lib_hex l (cl_wasm_hash c) = lib_lowercase l (rq_expected rq) \<and>
    lib_hex l (cl_rebuilt_hash c) = rp_rebuilt rep \<and>
    (\<exists>repo hex src img. rp_bldimg_digest rep = Some (repo @ ''@sha256:'' @ hex) \<and>
       lib_hex l img = lib_lowercase l hex \<and> lib_hex l src = lib_lowercase l (rp_source_sha256 rep) \<and>
       cl_input_digest c = input_digest l src img (rq_bldopt rq))"
proof -
  from assms(1) obtain wasm where rebuilt: "rp_rebuilt rep = sha256_hex l wasm"
    and expected: "rp_expected rep = lib_lowercase l (rq_expected rq)"
    and result: "rp_result rep = (if rp_rebuilt rep = rp_expected rep then Result_Verified else Result_Mismatch)"
    and opts: "rp_bldopt rep = rq_bldopt rq"
    unfolding report_ok_def by blast
  from assms(3) obtain bldimg u hex img w src r where
    digest: "rp_bldimg_digest rep = Some bldimg" "split_once bldimg ''@sha256:'' = Some (u, hex)"
    and un: "hex32 l hex = Inr img" "hex32 l (rp_expected rep) = Inr w"
      "hex32 l (rp_source_sha256 rep) = Inr src" "hex32 l (rp_rebuilt rep) = Inr r"
    and c: "c = \<lparr>cl_wasm_hash = w, cl_input_digest = input_digest l src img (rp_bldopt rep), cl_rebuilt_hash = r\<rparr>"
    unfolding from_report_Inr by blast
  note laws = hex_lawsD [OF assms(2)]
  have hw: "lib_hex l w = rp_expected rep"
    using un(2) laws(1) [of "rp_expected rep" w] laws(3) [of "rq_expected rq"] by (simp add: hex32_Inr expected)
  have hr: "lib_hex l r = rp_rebuilt rep"
    using un(4) laws(1) [of "rp_rebuilt rep" r] laws(2) [of "lib_sha256 l wasm"]
    by (simp add: hex32_Inr rebuilt sha256_hex_def)
  have verdict: "r = w \<longleftrightarrow> rp_rebuilt rep = rp_expected rep"
    using hw hr un(2,4) unfolding hex32_Inr by (metis Inr_inject)
  have "bldimg = u @ ''@sha256:'' @ hex" using digest(2) by (rule split_once_Some)
  moreover have "lib_hex l img = lib_lowercase l hex" "lib_hex l src = lib_lowercase l (rp_source_sha256 rep)"
    using un(1,3) laws(1) [of hex img] laws(1) [of "rp_source_sha256 rep" src] by (simp_all add: hex32_Inr)
  ultimately have binds: "\<exists>repo hex src img. rp_bldimg_digest rep = Some (repo @ ''@sha256:'' @ hex) \<and>
       lib_hex l img = lib_lowercase l hex \<and> lib_hex l src = lib_lowercase l (rp_source_sha256 rep) \<and>
       cl_input_digest c = input_digest l src img (rq_bldopt rq)"
    unfolding c claim.simps opts digest(1) by blast
  have "rp_result rep = Result_Verified \<longleftrightarrow> r = w" by (simp add: result verdict)
  then show ?thesis
    using hw hr un(2,4) binds by (simp add: c expected hex32_Inr)
qed

text \<open>
  A claim says what the report says. From a report of the reproduction pipeline, a claim
  carries 32-byte hashes, its digest binds the source and image the report names with its flags, and
  the registry's verdict on it, rebuilt hash equal to the on-chain hash, is Verified exactly when the
  report's is. No claim is made when the image has no registry digest.
\<close>

theorem claim_verdict_faithful:
  assumes "report_ok l rq rep tar" and "hex_laws l" and "from_report l rep = Inr c"
  shows "(cl_rebuilt_hash c = cl_wasm_hash c \<longleftrightarrow> rp_result rep = Result_Verified) \<and>
    length (cl_wasm_hash c) = 32 \<and> length (cl_rebuilt_hash c) = 32 \<and>
    lib_hex l (cl_wasm_hash c) = lib_lowercase l (rq_expected rq) \<and>
    lib_hex l (cl_rebuilt_hash c) = rp_rebuilt rep \<and>
    (\<exists>repo hex src img. rp_bldimg_digest rep = Some (repo @ ''@sha256:'' @ hex) \<and>
       lib_hex l img = lib_lowercase l hex \<and> lib_hex l src = lib_lowercase l (rp_source_sha256 rep) \<and>
       cl_input_digest c = input_digest l src img (rq_bldopt rq))"
  by (rule claim_of_report [OF assms])

section \<open>A hex codec\<close>

definition hex_digit :: "nat \<Rightarrow> char" where
  "hex_digit n = (if n < 10 then chr (48 + n) else chr (87 + n))"

definition digit_value :: "char \<Rightarrow> nat option" where
  "digit_value c = (let n = byte c in
     if 48 \<le> n \<and> n \<le> 57 then Some (n - 48) else if 65 \<le> n \<and> n \<le> 70 then Some (n - 55)
     else if 97 \<le> n \<and> n \<le> 102 then Some (n - 87) else None)"

definition hex_encode :: "bytes \<Rightarrow> string" where
  "hex_encode bs = concat (map (\<lambda>c. [hex_digit (byte c div 16), hex_digit (byte c mod 16)]) bs)"

fun hex_decode :: "string \<Rightarrow> string + bytes" where
  "hex_decode [] = Inr []"
| "hex_decode [_] = Inl ''Odd number of digits''"
| "hex_decode (a # b # s) = (case (digit_value a, digit_value b) of
     (Some m, Some n) \<Rightarrow> rbind (hex_decode s) (\<lambda>bs. Inr (chr (16 * m + n) # bs))
   | _ \<Rightarrow> Inl ''Invalid character'')"

lemma digit_value_lower:
  assumes "digit_value c = Some n"
  shows "n < 16" and "hex_digit n = lower_char c"
proof -
  have c: "chr (byte c) = c" by simp
  consider "48 \<le> byte c" "byte c \<le> 57" "n = byte c - 48" | "65 \<le> byte c" "byte c \<le> 70" "n = byte c - 55"
    | "97 \<le> byte c" "byte c \<le> 102" "n = byte c - 87"
    using assms by (auto simp: digit_value_def Let_def split: if_splits)
  then have "n < 16 \<and> hex_digit n = lower_char c"
  proof cases
    case 1
    then have "48 + n = byte c" "n < 10" by simp_all
    with 1 c show ?thesis by (simp add: hex_digit_def lower_char_def in_range_def)
  next
    case 2
    then have "87 + n = byte c + 32" "n < 16" "\<not> n < 10" "byte c \<le> 90" by simp_all
    with 2(1) show ?thesis by (simp add: hex_digit_def lower_char_def in_range_def)
  next
    case 3
    then have "87 + n = byte c" "n < 16" "\<not> n < 10" by simp_all
    with 3(1) c show ?thesis by (simp add: hex_digit_def lower_char_def in_range_def)
  qed
  then show "n < 16" "hex_digit n = lower_char c" by blast+
qed

lemma hex_decode_encode: "hex_decode s = Inr b \<Longrightarrow> hex_encode b = ascii_lower s"
proof (induction s arbitrary: b rule: hex_decode.induct)
  case (3 a b' s)
  then obtain m n bs where d: "digit_value a = Some m" "digit_value b' = Some n" and
    s: "hex_decode s = Inr bs" and b: "b = chr (16 * m + n) # bs"
    by (auto simp: rbind_eq_Inr split: option.splits)
  have "hex_encode bs = ascii_lower s" using 3 d s by simp
  moreover have "(16 * m + n) div 16 = m" "(16 * m + n) mod 16 = n" "16 * m + n < 256"
    using digit_value_lower(1) [OF d(1)] digit_value_lower(1) [OF d(2)] by simp_all
  ultimately show ?case
    using digit_value_lower(2) [OF d(1)] digit_value_lower(2) [OF d(2)]
    by (simp add: b hex_encode_def ascii_lower_def)
qed (simp_all add: hex_encode_def ascii_lower_def)

lemma hex_digit_lower: "n < 16 \<Longrightarrow> lower_char (hex_digit n) = hex_digit n"
  by (simp add: hex_digit_def lower_char_def in_range_def)

lemma hex_encode_lower: "ascii_lower (hex_encode b) = hex_encode b"
proof (induction b)
  case Nil
  then show ?case by (simp add: hex_encode_def ascii_lower_def)
next
  case (Cons c b)
  have "byte c < 256" by (rule nat_of_char_less_256)
  then have "byte c div 16 < 16" by (simp add: less_mult_imp_div_less)
  with Cons show ?case by (simp add: hex_encode_def ascii_lower_def hex_digit_lower)
qed

lemma hex_digit_value:
  assumes "n < 16"
  shows "digit_value (hex_digit n) = Some n"
proof (cases "n < 10")
  case True
  then have "byte (hex_digit n) = 48 + n" by (simp add: hex_digit_def)
  with True show ?thesis by (simp add: digit_value_def Let_def)
next
  case False
  then have "byte (hex_digit n) = 87 + n" using assms by (simp add: hex_digit_def)
  with False assms show ?thesis by (simp add: digit_value_def Let_def)
qed

lemma hex_decode_of_encode: "hex_decode (hex_encode b) = Inr b"
proof (induction b)
  case Nil
  then show ?case by (simp add: hex_encode_def)
next
  case (Cons c b)
  have "byte c < 256" by (rule nat_of_char_less_256)
  then have "byte c div 16 < 16" "byte c mod 16 < 16" by (simp_all add: less_mult_imp_div_less)
  moreover have "16 * (byte c div 16) + byte c mod 16 = byte c" by simp
  moreover have "hex_encode (c # b) = hex_digit (byte c div 16) # hex_digit (byte c mod 16) # hex_encode b"
    by (simp add: hex_encode_def)
  ultimately show ?case using Cons by (simp add: hex_digit_value)
qed

definition hex_libs :: libs where
  "hex_libs = demo_libs\<lparr>lib_sha256 := (\<lambda>b. take 32 (b @ replicate 32 CHR ''0'')), lib_hex := hex_encode,
     lib_unhex := hex_decode\<rparr>"

lemma hex_libs_laws: "hex_laws hex_libs"
  by (simp add: hex_laws_def hex_libs_def demo_libs_def hex_decode_encode hex_encode_lower)

lemma hex32_encode: "length b = 32 \<Longrightarrow> hex32 hex_libs (hex_encode b) = Inr b"
  by (simp add: hex32_Inr) (simp add: hex_libs_def hex_decode_of_encode)

lemma hex32_sha256: "hex32 hex_libs (sha256_hex hex_libs b) = Inr (lib_sha256 hex_libs b)"
proof -
  have "length (lib_sha256 hex_libs b) = 32" by (simp add: hex_libs_def)
  moreover have "sha256_hex hex_libs b = hex_encode (lib_sha256 hex_libs b)" by (simp add: sha256_hex_def hex_libs_def)
  ultimately show ?thesis by (simp add: hex32_encode)
qed

definition claim_request :: request where
  "claim_request = demo_request\<lparr>rq_expected := sha256_hex hex_libs ''release/x.wasm''\<rparr>"

definition claim_report :: report where
  "claim_report = \<lparr>rp_result = Result_Verified,
     rp_expected = sha256_hex hex_libs ''release/x.wasm'',
     rp_rebuilt = sha256_hex hex_libs ''release/x.wasm'', rp_wasm_size = 14,
     rp_artifact = ''release/x.wasm'', rp_bldimg = ''img@sha256:12'',
     rp_bldimg_digest = Some (''img'' @ ''@sha256:'' @ hex_encode (replicate 32 CHR ''i'')), rp_bldopt = [],
     rp_source_sha256 = sha256_hex hex_libs ''s'', rp_trust_level = Arbitrary,
     rp_build_time = 7, rp_build_log = None\<rparr>"

theorem claim_verdict_faithful_witness:
  "\<exists>c. from_report hex_libs claim_report = Inr c \<and> cl_rebuilt_hash c = cl_wasm_hash c"
proof -
  have "split_once (''img'' @ ''@sha256:'' @ h) ''@sha256:'' = Some (''img'', h)" for h
    by simp
  then obtain c where c: "from_report hex_libs claim_report = Inr c"
    using hex32_encode [of "replicate 32 CHR ''i''"] hex32_sha256
    unfolding from_report_Inr claim_report_def report.simps by (metis length_replicate)
  have "select_wasm_from_tar hex_libs ''release/x.wasm'' = Inr (''release/x.wasm'', ''release/x.wasm'')"
    by code_simp
  moreover have "sha256_hex hex_libs ''release/x.wasm'' = lib_lowercase hex_libs (sha256_hex hex_libs ''release/x.wasm'')"
    by (simp add: sha256_hex_def hex_libs_def demo_libs_def hex_encode_lower del: take_replicate)
  ultimately have "report_ok hex_libs claim_request claim_report ''release/x.wasm''"
    unfolding report_ok_def claim_report_def claim_request_def demo_request_def by simp
  from claim_verdict_faithful [OF this hex_libs_laws c]
  have "cl_rebuilt_hash c = cl_wasm_hash c \<longleftrightarrow> rp_result claim_report = Result_Verified" by (rule conjunct1)
  moreover have "rp_result claim_report = Result_Verified" unfolding claim_report_def report.simps by (rule refl)
  ultimately show ?thesis using c by blast
qed

end
