(* ===== verification/ServiceRuns.thy ===== *)
theory ServiceRuns
  imports ServiceProps ClaimProps
begin

text \<open>
  What the running service promises to a reader of its cache and to the chain, read off the invariant
  of \<open>ServiceProps\<close>, and a concrete run from an empty database to a verified, attested row.
\<close>

section \<open>A concrete run\<close>

definition demo_su :: deployment where
  "demo_su = \<lparr>su_libs = hex_libs, su_env = demo_machine, su_docker = docker_local, su_rpc_url = ''rpc'',
     su_allow_unpinned = False, su_api_token = Some ''t0'', su_attesting = True,
     su_debug_duration = (\<lambda>_. ''900s''), su_debug_names = (\<lambda>_. ''[]'')\<rparr>"

definition demo_post :: verify_request where
  "demo_post = \<lparr>vq_contract_id = None, vq_wasm_hash = Some (sha256_hex hex_libs ''release/x.wasm''),
     vq_repo = Some ''/repo'', vq_rev = Some ''abc'', vq_source_uri = None, vq_source_sha256 = None,
     vq_bldimg = ''img@sha256:12'', vq_bldopt = []\<rparr>"

definition demo_rpc :: rpc where
  "demo_rpc = \<lparr>rpc_strkey = (\<lambda>_. Inl ''''), rpc_key_xdr = (\<lambda>_. Inl ''''), rpc_post = (\<lambda>_ _. Inl ''''),
     rpc_entry = (\<lambda>_. Inl ''''), rpc_hex = (\<lambda>b. b), rpc_thread = None\<rparr>"

definition demo_job :: job where
  "demo_job = \<lparr>jb_id = 1, jb_request = job_request demo_su demo_post (Git ''/repo'' ''abc'')
     (sha256_hex hex_libs ''release/x.wasm'')\<rparr>"

definition started :: service where
  "started = app_state_new (empty_db\<lparr>db_version := 2, db_schema := [Attestations_Table, Verifications_Table]\<rparr>)"

lemma demo_started: "start_service 0 empty_db = Inr started"
  by (simp add: start_service_def started_def migrate_def empty_db_def MIGRATIONS_def upt_rec apply_migration_def
      fail_orphaned_pending_def update_where_def Let_def numeral_2_eq_2)

definition admitted :: service where
  "admitted = snd (admit demo_su (Some ''Bearer t0'') demo_post 0 started)"

definition accepted :: service where
  "accepted = snd (accept_job demo_su 5 True (demo_post, Git ''/repo'' ''abc'') (sha256_hex hex_libs ''release/x.wasm'') admitted)"

definition building :: service where "building = begin_build demo_job accepted"

definition ended :: "report \<Rightarrow> service" where
  "ended rep = finish_job demo_su 9 True True (Reproduced rep) demo_job building"

lemma demo_admitted:
  "admit demo_su (Some ''Bearer t0'') demo_post 0 started = (Inr (Git ''/repo'' ''abc''), admitted)"
  "sv_lookups admitted = [(demo_post, Git ''/repo'' ''abc'')]" "sv_db admitted = sv_db started"
  "sv_waiting admitted = []" "sv_building admitted = []"
proof -
  have a: "is_authorized (Some ''t0'') (Some ''Bearer t0'')" by code_simp
  have p: "parse_source demo_post = Inr (Git ''/repo'' ''abc'')" by code_simp
  have "is_ok (fst (check_at (sv_limiter started) (rate_limit_key (Some ''t0'') (Some ''Bearer t0'')) 0))"
    by code_simp
  then obtain u lm where c: "check_at (sv_limiter started) (rate_limit_key (Some ''t0'') (Some ''Bearer t0'')) 0 = (Inr u, lm)"
    by (metis is_ok_iff prod.collapse)
  show "admit demo_su (Some ''Bearer t0'') demo_post 0 started = (Inr (Git ''/repo'' ''abc''), admitted)"
    "sv_lookups admitted = [(demo_post, Git ''/repo'' ''abc'')]" "sv_db admitted = sv_db started"
    "sv_waiting admitted = []" "sv_building admitted = []"
    using a p c
    by (simp_all add: admitted_def admit_def demo_su_def started_def app_state_new_def outstanding_def
        MAX_OUTSTANDING_JOBS_def Let_def)
qed

lemma demo_hash: "lib_lowercase hex_libs (sha256_hex hex_libs ''release/x.wasm'') = sha256_hex hex_libs ''release/x.wasm''"
  by code_simp

definition demo_row :: "string verification_row" where
  "demo_row = \<lparr>vr_id = 1, vr_contract_id = None, vr_wasm_hash = sha256_hex hex_libs ''release/x.wasm'',
     vr_source = Git ''/repo'' ''abc'', vr_bldimg = ''img@sha256:12'', vr_status = ''pending'', vr_report = None,
     vr_error = None, vr_created_at = 5, vr_updated_at = 5\<rparr>"

lemma demo_accepted:
  "accept_job demo_su 5 True (demo_post, Git ''/repo'' ''abc'') (sha256_hex hex_libs ''release/x.wasm'') admitted =
     (Inr (1, sha256_hex hex_libs ''release/x.wasm''), accepted)"
  "db_verifications (sv_db accepted) = [demo_row]" "db_attestations (sv_db accepted) = []"
  "sv_waiting accepted = [demo_job]" "sv_building accepted = []"
  by (simp_all add: accepted_def accept_job_def release_lookup_def insert_pending_def demo_admitted
      started_def app_state_new_def empty_db_def next_id_def demo_post_def demo_job_def demo_row_def Let_def
      demo_su_def demo_hash)

lemma demo_reachable:
  "reachable demo_su started" "reachable demo_su admitted" "reachable demo_su accepted" "reachable demo_su building"
proof -
  show 1: "reachable demo_su started" by (rule Fresh [OF demo_started])
  show 2: "reachable demo_su admitted" by (rule Step [OF 1 Request [OF demo_admitted(1)]])
  have "expected_hash (su_libs demo_su) demo_rpc (su_rpc_url demo_su) (fst (demo_post, Git ''/repo'' ''abc'')) =
      Inr (sha256_hex hex_libs ''release/x.wasm'')"
    by (simp add: expected_hash_def demo_post_def demo_su_def demo_hash)
  then have "service_step demo_su admitted accepted"
    using demo_admitted(2) demo_accepted(1) by (intro Resolved) simp_all
  with 2 show 3: "reachable demo_su accepted" by (rule Step)
  have "service_step demo_su accepted building"
    unfolding building_def by (rule Slot) (simp_all add: demo_accepted MAX_CONCURRENT_BUILDS_def)
  with 3 show "reachable demo_su building" by (rule Step)
qed

lemma demo_ended:
  "\<exists>rep. reachable demo_su (ended rep) \<and> demo_report hex_libs rep \<and>
     db_verifications (sv_db (ended rep)) =
       [demo_row\<lparr>vr_status := ''verified'', vr_report := Some rep, vr_updated_at := 9\<rparr>] \<and>
     (\<exists>a. db_attestations (sv_db (ended rep)) = [a] \<and> ar_rebuilt_hash a = ar_wasm_hash a)"
proof -
  have codecs: "demo_codecs hex_libs" unfolding hex_libs_def by (rule demo_codecs_update)
  have "contains ''img@sha256:12'' ''@sha256:''" by code_simp
  then have "demo_question hex_libs (jb_request demo_job)"
    by (simp add: demo_question_def demo_job_def job_request_def demo_post_def demo_hash)
  from demo_reproduces [OF codecs this] obtain rep w' where
    run: "reproduce demo_machine hex_libs docker_local (jb_request demo_job) demo_start = (Inr rep, w')"
    and rep: "demo_report hex_libs rep" by blast
  from run have "job_ends demo_su demo_job (Reproduced rep)"
    unfolding job_ends_def engine_end_Reproduced by (simp add: demo_su_def) blast
  moreover have "demo_job \<in> set (sv_building building)" by (simp add: building_def begin_build_def)
  ultimately have "reachable demo_su (ended rep)"
    unfolding ended_def by (intro Step [OF demo_reachable(4)] Done)
  moreover have rows: "db_verifications (sv_db building) = [demo_row]" "db_attestations (sv_db building) = []"
    by (simp_all add: building_def begin_build_def demo_accepted)
  have st: "outcome_status rep = Job_Verified" using rep by (simp add: outcome_status_def demo_report_def)
  have claim: "is_ok (from_report hex_libs rep)"
  proof -
    have "hex32 hex_libs (replicate 64 CHR ''0'') = Inr (replicate 32 (CHR 0x00))"
      "split_once DEMO_DIGEST ''@sha256:'' = Some (''r'', replicate 64 CHR ''0'')" by code_simp+
    moreover note hex32_sha256 [of "''release/x.wasm''"] hex32_sha256 [of "''ok''"]
    ultimately show ?thesis using rep unfolding is_ok_iff from_report_Inr demo_report_def by metis
  qed
  have "db_verifications (sv_db (ended rep)) =
      [demo_row\<lparr>vr_status := ''verified'', vr_report := Some rep, vr_updated_at := 9\<rparr>]"
    by (simp add: ended_def finish_job_def Db.complete_def update_where_def rows st demo_job_def demo_row_def Let_def)
  moreover have "\<exists>a. db_attestations (sv_db (ended rep)) = [a] \<and> ar_rebuilt_hash a = ar_wasm_hash a"
  proof -
    from claim obtain c where c: "from_report hex_libs rep = Inr c" by (auto simp: is_ok_iff)
    then have "cl_rebuilt_hash c = cl_wasm_hash c" using rep unfolding from_report_Inr demo_report_def by auto
    then show ?thesis
      by (simp add: ended_def finish_job_def enqueue_def demo_su_def enqueue_attestation_def Db.complete_def rows c Let_def)
  qed
  ultimately show ?thesis using rep by blast
qed

section \<open>Bounds and bookkeeping\<close>

lemma get_row_Some:
  assumes "db_inv d"
  shows "get_row i d = Inr (Some row) \<longleftrightarrow> (\<exists>r \<in> set (db_verifications d). vr_id r = i \<and> row = parsed r)"
    (is "?l \<longleftrightarrow> ?r")
proof -
  have known: "status_known r" if "r \<in> set (db_verifications d)" for r
    using assms that by (simp add: db_inv_def list_all_iff)
  show ?thesis
  proof
    assume ?l
    then obtain r where f: "find (\<lambda>r. vr_id r = i) (db_verifications d) = Some r" and "row_from_sql r = Inr row"
      by (auto simp: get_row_def optional_row_def rbind_eq_Inr split: option.splits)
    moreover from f have "r \<in> set (db_verifications d)" "vr_id r = i" unfolding find_Some_iff by (metis nth_mem)+
    ultimately show ?r using parsed_known [OF known] by auto
  next
    assume ?r
    then obtain r where r: "r \<in> set (db_verifications d)" "vr_id r = i" "row = parsed r" by blast
    then have "find (\<lambda>r. vr_id r = i) (db_verifications d) \<noteq> None" unfolding find_None_iff by blast
    then obtain r' where f: "find (\<lambda>r. vr_id r = i) (db_verifications d) = Some r'" by blast
    then have "r' \<in> set (db_verifications d)" "vr_id r' = i" unfolding find_Some_iff by (metis nth_mem)+
    then have "r' = r" using row_unique [OF assms _ r(1)] r(2) by simp
    with f r known show ?l by (simp add: get_row_def optional_row_def parsed_known)
  qed
qed

lemma pending_rows_ids:
  assumes "db_inv d"
  shows "{i. \<exists>row. get_row i d = Inr (Some row) \<and> vr_status row = Job_Pending} = pending_ids d"
proof -
  have "get_row i d = Inr (Some row) \<longleftrightarrow> (\<exists>r \<in> set (db_verifications d). vr_id r = i \<and> row = parsed r)" for i row
    by (rule get_row_Some [OF assms])
  moreover have "vr_status (parsed r) = Job_Pending \<longleftrightarrow> vr_status r = ''pending''" if "r \<in> set (db_verifications d)" for r
    using assms that by (auto simp: db_inv_def list_all_iff parsed_pending)
  ultimately show ?thesis unfolding pending_ids_def by auto
qed

text \<open>
  Property C29. Bounded work, honest gauge, no forgotten job. Under every interleaving of requests,
  lookups, builds, worker turns, database failures and restarts, between any two steps at most two builds run and at most
  sixteen admission permits are out, the in-flight gauge is the number of accepted jobs not yet
  ended, the counters balance, and the rows shown as pending are exactly those of the waiting and
  building jobs and of jobs whose end could not be written.
\<close>

theorem service_bounded:
  assumes "reachable su s"
  shows "length (sv_building s) \<le> 2 \<and> outstanding s \<le> 16 \<and>
    unat (mt_in_flight (sv_metrics s)) = length (sv_waiting s) + length (sv_building s) \<and>
    mt_submitted (sv_metrics s) = mt_in_flight (sv_metrics s) + mt_verified (sv_metrics s) +
      mt_mismatch (sv_metrics s) + mt_errored (sv_metrics s) \<and>
    distinct (map jb_id (sv_waiting s @ sv_building s) @ sv_lost s) \<and>
    {i. \<exists>row. get_row i (sv_db s) = Inr (Some row) \<and> vr_status row = Job_Pending} =
      set (map jb_id (sv_waiting s @ sv_building s)) \<union> set (sv_lost s)"
proof -
  note I = service_invD [OF reachable_inv [OF assms]]
  have n: "length (active_jobs s) \<le> 16"
    using I(2) by (simp add: outstanding_def active_jobs_def MAX_OUTSTANDING_JOBS_def)
  then have gauge: "unat (of_nat (length (active_jobs s)) :: 64 word) = length (active_jobs s)"
    by (simp add: unat_of_nat)
  have T: "distinct (tracked_ids s)" "pending_ids (sv_db s) = set (tracked_ids s)"
    using I(4) by (simp_all add: jobs.tracks_def)
  have "{i. \<exists>row. get_row i (sv_db s) = Inr (Some row) \<and> vr_status row = Job_Pending} = pending_ids (sv_db s)"
    by (rule pending_rows_ids [OF I(8)])
  with T I(1-3) gauge show ?thesis
    by (simp add: metrics_ok_def active_jobs_def tracked_ids_def outstanding_def MAX_OUTSTANDING_JOBS_def
        MAX_CONCURRENT_BUILDS_def Un_assoc)
qed

theorem service_bounded_witness:
  "unat (mt_in_flight (sv_metrics building)) = 1 \<and> outstanding building = 1"
proof -
  have l: "length (sv_waiting building) = 0" "length (sv_building building) = 1" "sv_lookups building = []"
    by (simp_all add: building_def begin_build_def demo_accepted)
      (simp add: accepted_def accept_job_def release_lookup_def demo_admitted insert_pending_def Let_def)
  from service_bounded [OF demo_reachable(4)] l show ?thesis by (simp add: outstanding_def)
qed

text \<open>
  Property C30. Restarts tell the truth. Whatever state a process dies in, the next one either refuses
  a database newer than itself, or starts serving with no pending row left: every row that was pending is an
  error naming the restart, every other row and the whole attestation outbox is as it was.
\<close>

theorem restart_fails_orphans:
  assumes "reachable su s" and "start_service now (sv_db s) = Inr s'"
  shows "view (sv_db s') = update_where (\<lambda>r. vr_status r = Job_Pending)
      (\<lambda>r. r\<lparr>vr_status := Job_Error, vr_error := Some ORPHANED_JOB_ERROR, vr_updated_at := now\<rparr>) (view (sv_db s)) \<and>
    list_all (\<lambda>r. vr_status r \<noteq> Job_Pending) (view (sv_db s')) \<and>
    db_attestations (sv_db s') = db_attestations (sv_db s) \<and>
    outstanding s' = 0 \<and> mt_in_flight (sv_metrics s') = 0"
proof -
  note I = service_invD [OF reachable_inv [OF assms(1)]]
  from assms(2) obtain d where d: "migrate (sv_db s) = Inr d"
    and s': "s' = app_state_new (snd (fail_orphaned_pending now ORPHANED_JOB_ERROR d))"
    by (auto simp: start_service_def rbind_eq_Inr)
  have inv: "db_inv d" using I(8) migrate_rows [OF d] by (simp add: db_inv_def)
  have "view d = view (sv_db s)" by (simp add: view_def migrate_rows(1) [OF d])
  then have v: "view (sv_db s') = update_where (\<lambda>r. vr_status r = Job_Pending)
      (\<lambda>r. r\<lparr>vr_status := Job_Error, vr_error := Some ORPHANED_JOB_ERROR, vr_updated_at := now\<rparr>) (view (sv_db s))"
    using view_fail_orphaned [OF inv] by (simp add: s' app_state_new_def)
  then have "list_all (\<lambda>r. vr_status r \<noteq> Job_Pending) (view (sv_db s'))"
    by (auto simp: update_where_def list_all_iff)
  then show ?thesis
    using v by (simp add: s' app_state_new_def outstanding_def no_metrics_def fail_orphaned_pending_def
        migrate_rows(2) [OF d])
qed

theorem restart_fails_orphans_witness:
  "\<exists>s'. start_service 7 (sv_db building) = Inr s' \<and> map vr_status (view (sv_db s')) = [Job_Error]"
proof -
  have ver: "db_version (sv_db building) = 2"
    by (simp add: building_def begin_build_def accepted_def accept_job_def release_lookup_def insert_pending_def
        demo_admitted started_def app_state_new_def Let_def)
  then have "migrate (sv_db building) = Inr (sv_db building)"
    by (simp add: migrate_def MIGRATIONS_def Let_def del: upt_Suc)
  then have "\<exists>s'. start_service 7 (sv_db building) = Inr s'" by (simp add: start_service_def)
  then obtain s' where s': "start_service 7 (sv_db building) = Inr s'" ..
  have rows: "db_verifications (sv_db building) = [demo_row]"
    by (simp add: building_def begin_build_def demo_accepted)
  have p: "vr_status (parsed demo_row) = Job_Pending" by code_simp
  have v: "view (sv_db building) = [parsed demo_row]" by (simp add: view_def rows)
  note restart_fails_orphans [OF demo_reachable(4) s', THEN conjunct1, unfolded v]
  then have "map vr_status (view (sv_db s')) = [Job_Error]" by (simp add: update_where_def p)
  with s' show ?thesis by (intro exI conjI)
qed

section \<open>Where verdicts come from\<close>

lemma parsed_bldimg: "vr_bldimg (parsed r) = vr_bldimg r"
  by (auto simp: parsed_def row_from_sql_def rbind_def split: sum.splits)

lemma served_row:
  assumes "db_inv d" and "get_verification l key d = Inr row"
  shows "\<exists>r \<in> set (db_verifications d). row = parsed r"
proof -
  have "row \<in> set (view d)"
    using assms(2) by (auto simp: get_verification_def view_get [OF assms(1)] view_lookup [OF assms(1)]
        rbind_eq_Inr map_err_eq_Inr ok_or_eq_Inr find_Some_iff split: option.splits)
  then show ?thesis by (auto simp: view_def)
qed

lemma reproduced_checked:
  assumes "reproduced su r rep"
  shows "\<exists>rq v tar evs1 evs2 w w'.
     reproduce (su_env su) (su_libs su) (su_docker su) rq w = (Inr rep, w') \<and>
     rq_source rq = vr_source r \<and> rq_bldimg rq = vr_bldimg r \<and>
     lib_lowercase (su_libs su) (rq_expected rq) = vr_wasm_hash r \<and>
     fetch_seen (su_env su) (su_docker su) rq v evs1 \<and> build_seen (su_docker su) rq v tar evs2 \<and>
     passes (evs1 @ evs2) w w' \<and> report_ok (su_libs su) rq rep tar"
proof -
  from assms obtain rq w w' where run: "reproduce (su_env su) (su_libs su) (su_docker su) rq w = (Inr rep, w')"
    and q: "rq_source rq = vr_source r" "rq_bldimg rq = vr_bldimg r"
      "lib_lowercase (su_libs su) (rq_expected rq) = vr_wasm_hash r"
    unfolding reproduced_def by blast
  from reproduce_seen [OF run] run q show ?thesis by blast
qed

text \<open>
  Property C27. Every served verdict was reproduced. Whatever interleaving led here, a verification the
  API serves as verified or mismatch carries the report of an actual engine run on that row's source,
  image and hash, whose fetch and network-less build were carried out and exited with 0; the SHA-256 in
  it is that of the artifact copied out of the build, and the verdict is verified exactly when it
  equals the row's hash.
\<close>

theorem served_verdict_reproduced:
  assumes "reachable su s" and "get_verification (su_libs su) key (sv_db s) = Inr row"
    and "vr_status row = Job_Verified \<or> vr_status row = Job_Mismatch"
  shows "\<exists>rep rq v tar evs1 evs2 w w' wasm.
     vr_report row = Some rep \<and>
     reproduce (su_env su) (su_libs su) (su_docker su) rq w = (Inr rep, w') \<and>
     rq_source rq = vr_source row \<and> rq_bldimg rq = vr_bldimg row \<and>
     lib_lowercase (su_libs su) (rq_expected rq) = vr_wasm_hash row \<and>
     fetch_seen (su_env su) (su_docker su) rq v evs1 \<and> build_seen (su_docker su) rq v tar evs2 \<and>
     passes (evs1 @ evs2) w w' \<and>
     select_wasm_from_tar (su_libs su) tar = Inr (rp_artifact rep, wasm) \<and>
     rp_rebuilt rep = sha256_hex (su_libs su) wasm \<and>
     (vr_status row = Job_Verified \<longleftrightarrow> sha256_hex (su_libs su) wasm = vr_wasm_hash row)"
proof -
  note I = service_invD [OF reachable_inv [OF assms(1)]]
  obtain r where r: "r \<in> set (db_verifications (sv_db s))" "row = parsed r"
    using served_row [OF I(8) assms(2)] by blast
  have known: "status_known r" using I(8) r(1) by (simp add: db_inv_def list_all_iff)
  have "row_backed su r" using I(6) r(1) by (simp add: list_all_iff)
  moreover have "vr_status r \<noteq> ''pending''" "vr_status r \<noteq> ''error''"
    using assms(3) parsed_status [of r Job_Pending] parsed_status [of r Job_Error] by (auto simp: r(2))
  ultimately obtain rep where rep: "reproduced su r rep" "vr_report r = Some rep"
    and st: "vr_status r = job_as_str (outcome_status rep)" unfolding row_backed_def by blast
  have same: "vr_source row = vr_source r" "vr_bldimg row = vr_bldimg r" "vr_wasm_hash row = vr_wasm_hash r"
    "vr_report row = vr_report r" "vr_status row = outcome_status rep"
    using parsed_status [OF st] by (simp_all add: r(2) parsed_bldimg)
  from reproduced_checked [OF rep(1)] obtain rq v tar evs1 evs2 w w' where
    run: "reproduce (su_env su) (su_libs su) (su_docker su) rq w = (Inr rep, w')"
    and q: "rq_source rq = vr_source r" "rq_bldimg rq = vr_bldimg r"
      "lib_lowercase (su_libs su) (rq_expected rq) = vr_wasm_hash r"
    and seen: "fetch_seen (su_env su) (su_docker su) rq v evs1" "build_seen (su_docker su) rq v tar evs2"
      "passes (evs1 @ evs2) w w'" and ok: "report_ok (su_libs su) rq rep tar" by blast
  from ok obtain wasm where sel: "select_wasm_from_tar (su_libs su) tar = Inr (rp_artifact rep, wasm)"
    "rp_rebuilt rep = sha256_hex (su_libs su) wasm"
    and res: "rp_expected rep = lib_lowercase (su_libs su) (rq_expected rq)"
      "rp_result rep = (if rp_rebuilt rep = rp_expected rep then Result_Verified else Result_Mismatch)"
    unfolding report_ok_def by blast
  have "vr_status row = Job_Verified \<longleftrightarrow> sha256_hex (su_libs su) wasm = vr_wasm_hash row"
    using res sel(2) q(3) by (simp add: same outcome_status_def)
  with run q seen sel rep(2) show ?thesis unfolding same(1-4) by blast
qed

theorem served_verdict_reproduced_witness:
  "\<exists>s rep. reachable demo_su s \<and> (\<exists>row w w' rq. get_verification hex_libs ''1'' (sv_db s) = Inr row \<and>
     vr_status row = Job_Verified \<and> vr_report row = Some rep \<and>
     reproduce demo_machine hex_libs docker_local rq w = (Inr rep, w') \<and> rq_source rq = Git ''/repo'' ''abc'')"
proof -
  from demo_ended obtain rep where r: "reachable demo_su (ended rep)" and rows: "db_verifications (sv_db (ended rep)) =
       [demo_row\<lparr>vr_status := ''verified'', vr_report := Some rep, vr_updated_at := 9\<rparr>]" by blast
  let ?row = "parsed (demo_row\<lparr>vr_status := ''verified'', vr_report := Some rep, vr_updated_at := 9\<rparr>)"
  have st: "vr_status ?row = Job_Verified" by (rule parsed_status) simp
  have src: "vr_source ?row = Git ''/repo'' ''abc''" by (simp add: demo_row_def)
  have "get_row 1 (sv_db (ended rep)) = Inr (Some ?row)"
    using service_invD(8) [OF reachable_inv [OF r]] by (simp add: get_row_Some rows) (simp add: demo_row_def)
  moreover have "parse_i64 ''1'' = Some 1" by code_simp
  ultimately have g: "get_verification hex_libs ''1'' (sv_db (ended rep)) = Inr ?row"
    by (simp add: get_verification_def)
  have su: "su_libs demo_su = hex_libs" "su_env demo_su = demo_machine" "su_docker demo_su = docker_local"
    by (simp_all add: demo_su_def)
  from served_verdict_reproduced [OF r g [folded su(1)]] st r g show ?thesis unfolding su src by blast
qed

section \<open>Where attestations come from\<close>

lemma attestation_source:
  assumes "reachable su s" and "hex_laws (su_libs su)" and "a \<in> set (db_attestations (sv_db s))"
  shows "distinct (map ar_verification_id (db_attestations (sv_db s))) \<and>
    (\<exists>r rep rq w w' src img. r \<in> set (db_verifications (sv_db s)) \<and> vr_id r = ar_verification_id a \<and>
       reproduce (su_env su) (su_libs su) (su_docker su) rq w = (Inr rep, w') \<and>
       rq_source rq = vr_source r \<and> rq_bldimg rq = vr_bldimg r \<and>
       ar_wasm_hash a = vr_wasm_hash r \<and> ar_rebuilt_hash a = rp_rebuilt rep \<and>
       (ar_rebuilt_hash a = ar_wasm_hash a \<longleftrightarrow> rp_result rep = Result_Verified) \<and>
       lib_hex (su_libs su) src = lib_lowercase (su_libs su) (rp_source_sha256 rep) \<and>
       (\<exists>repo hex. rp_bldimg_digest rep = Some (repo @ ''@sha256:'' @ hex) \<and>
          lib_hex (su_libs su) img = lib_lowercase (su_libs su) hex) \<and>
       ar_input_digest a = lib_hex (su_libs su) (input_digest (su_libs su) src img (rq_bldopt rq)))"
proof -
  note I = service_invD [OF reachable_inv [OF assms(1)]]
  let ?l = "su_libs su"
  have "attestation_backed su (sv_db s) a" using I(7) assms(3) by (simp add: list_all_iff)
  then obtain r rep c where r: "r \<in> set (db_verifications (sv_db s))" "vr_id r = ar_verification_id a"
    and rep: "reproduced su r rep" and c: "from_report ?l rep = Inr c"
    and a: "ar_wasm_hash a = lib_lowercase ?l (lib_hex ?l (cl_wasm_hash c))"
      "ar_input_digest a = lib_lowercase ?l (lib_hex ?l (cl_input_digest c))"
      "ar_rebuilt_hash a = lib_lowercase ?l (lib_hex ?l (cl_rebuilt_hash c))"
    unfolding attestation_backed_def by blast
  from reproduced_checked [OF rep] obtain rq tar w w' where
    run: "reproduce (su_env su) ?l (su_docker su) rq w = (Inr rep, w')"
    and q: "rq_source rq = vr_source r" "rq_bldimg rq = vr_bldimg r" "lib_lowercase ?l (rq_expected rq) = vr_wasm_hash r"
    and ok: "report_ok ?l rq rep tar" by blast
  from claim_of_report [OF ok assms(2) c] obtain repo hex src img where
    h: "lib_hex ?l (cl_wasm_hash c) = lib_lowercase ?l (rq_expected rq)" "lib_hex ?l (cl_rebuilt_hash c) = rp_rebuilt rep"
    and d: "rp_bldimg_digest rep = Some (repo @ ''@sha256:'' @ hex)" "lib_hex ?l img = lib_lowercase ?l hex"
      "lib_hex ?l src = lib_lowercase ?l (rp_source_sha256 rep)"
      "cl_input_digest c = input_digest ?l src img (rq_bldopt rq)" by blast
  note up = hex_lawsD(2) [OF assms(2)]
  have w: "ar_wasm_hash a = vr_wasm_hash r" using a(1) up [of "cl_wasm_hash c"] h(1) q(3) by simp
  have b: "ar_rebuilt_hash a = rp_rebuilt rep" using a(3) up [of "cl_rebuilt_hash c"] h(2) by simp
  have i: "ar_input_digest a = lib_hex ?l (input_digest ?l src img (rq_bldopt rq))" using a(2) up [of "cl_input_digest c"] d(4) by simp
  from ok have "rp_expected rep = vr_wasm_hash r"
    "rp_result rep = (if rp_rebuilt rep = rp_expected rep then Result_Verified else Result_Mismatch)"
    using q(3) unfolding report_ok_def by simp_all
  then have v: "ar_rebuilt_hash a = ar_wasm_hash a \<longleftrightarrow> rp_result rep = Result_Verified" by (simp add: w b)
  have "distinct (map ar_verification_id (db_attestations (sv_db s)))" using I(8) by (simp add: db_inv_def)
  with r run q w b v d i show ?thesis by blast
qed

text \<open>
  Property C28. Nothing is attested that was not reproduced. In every reachable state there is at most
  one attestation per verification, and each was made from the report of an engine run on the source,
  image and hash of a stored verification: it names that row's hash and the hash that was rebuilt,
  the two agree exactly when the run's result was Verified, and its input digest is that of the source
  and image digests in the report with the flags that were built.
\<close>

theorem attestations_backed:
  assumes "reachable su s" and "hex_laws (su_libs su)" and "a \<in> set (db_attestations (sv_db s))"
  shows "distinct (map ar_verification_id (db_attestations (sv_db s))) \<and>
    (\<exists>r rep rq w w' src img. r \<in> set (db_verifications (sv_db s)) \<and> vr_id r = ar_verification_id a \<and>
       reproduce (su_env su) (su_libs su) (su_docker su) rq w = (Inr rep, w') \<and>
       rq_source rq = vr_source r \<and> rq_bldimg rq = vr_bldimg r \<and>
       ar_wasm_hash a = vr_wasm_hash r \<and> ar_rebuilt_hash a = rp_rebuilt rep \<and>
       (ar_rebuilt_hash a = ar_wasm_hash a \<longleftrightarrow> rp_result rep = Result_Verified) \<and>
       lib_hex (su_libs su) src = lib_lowercase (su_libs su) (rp_source_sha256 rep) \<and>
       (\<exists>repo hex. rp_bldimg_digest rep = Some (repo @ ''@sha256:'' @ hex) \<and>
          lib_hex (su_libs su) img = lib_lowercase (su_libs su) hex) \<and>
       ar_input_digest a = lib_hex (su_libs su) (input_digest (su_libs su) src img (rq_bldopt rq)))"
  by (rule attestation_source [OF assms])

theorem attestations_backed_witness:
  "\<exists>s a r. reachable demo_su s \<and> a \<in> set (db_attestations (sv_db s)) \<and> r \<in> set (db_verifications (sv_db s)) \<and>
     vr_id r = ar_verification_id a \<and> ar_wasm_hash a = vr_wasm_hash r"
proof -
  from demo_ended obtain rep a where r: "reachable demo_su (ended rep)"
    and att: "db_attestations (sv_db (ended rep)) = [a]" by blast
  have "hex_laws (su_libs demo_su)" using hex_libs_laws by (simp add: demo_su_def)
  moreover have "a \<in> set (db_attestations (sv_db (ended rep)))" by (simp add: att)
  ultimately show ?thesis using attestations_backed [OF r, of a] r by blast
qed

end
