(* ===== verification/OnChain.thy ===== *)
theory OnChain
  imports RegistryProps ServiceRuns
begin

text \<open>
  From the outbox to the registry: what the contract is called with when the attestation worker runs
  its command, and how a verdict of the contract relates to the attestations it rests on. The CLI
  decodes the hex of a 32-byte argument; the contract sees it as one 256-bit value.
\<close>

section \<open>The call the CLI makes\<close>

text \<open>
  The contract call a command line names: after \<open>--\<close> the function and its parameters by name, the last
  arguments of the command. \<open>account\<close> and \<open>word\<close> are how the CLI reads a strkey and a \<open>BytesN<32>\<close>.
\<close>

definition chain_call ::
  "(string \<Rightarrow> address option) \<Rightarrow> (string \<Rightarrow> hash32 option) \<Rightarrow> cli_command \<Rightarrow> reg_call option" where
  "chain_call account word cmd =
     (case rev (cc_args cmd) of
        rebuilt # f4 # digest # f3 # wasm # f2 # verifier # f1 # fn # _ \<Rightarrow>
          if [fn, f1, f2, f3, f4] \<noteq> [''attest'', ''--verifier'', ''--wasm_hash'', ''--input_digest'', ''--rebuilt_hash'']
          then None
          else Option.bind (account verifier) (\<lambda>v.
            Option.bind (word wasm) (\<lambda>w.
            Option.bind (word digest) (\<lambda>d.
            map_option (\<lambda>h. Attest_Call v w d h) (word rebuilt))))
      | _ \<Rightarrow> None)"

lemma chain_call_invoke:
  "chain_call account word (invoke_command cfg a) = Some c \<longleftrightarrow>
     (\<exists>v w d h. account (ac_address cfg) = Some v \<and> word (ar_wasm_hash a) = Some w \<and>
        word (ar_input_digest a) = Some d \<and> word (ar_rebuilt_hash a) = Some h \<and> c = Attest_Call v w d h)"
  by (auto simp: chain_call_def invoke_command_def apply_env_def bind_eq_Some_conv)

text \<open>
  What is relied on: the CLI, when it sends anything, sends the call its arguments name, and it reads
  no two hashes as one, upper and lower case aside.
\<close>

definition cli_documented :: "(cli_command \<Rightarrow> reg_call option) \<Rightarrow> (string \<Rightarrow> address option) \<Rightarrow> (string \<Rightarrow> hash32 option) \<Rightarrow> bool" where
  "cli_documented cli account word \<longleftrightarrow> (\<forall>cmd c. cli cmd = Some c \<longrightarrow> chain_call account word cmd = Some c)"

definition reads_hex :: "libs \<Rightarrow> (string \<Rightarrow> hash32 option) \<Rightarrow> bool" where
  "reads_hex l word \<longleftrightarrow> (\<forall>s t w. word s = Some w \<longrightarrow> word t = Some w \<longrightarrow> lib_lowercase l s = lib_lowercase l t)"

text \<open>A reader that does: hex, 32 bytes, most significant first.\<close>

definition chain_hash :: "libs \<Rightarrow> string \<Rightarrow> hash32 option" where
  "chain_hash l s =
     (case lib_unhex l s of
        Inl _ \<Rightarrow> None
      | Inr b \<Rightarrow> if length b = 32 then Some (of_nat (from_be_bytes b)) else None)"

section \<open>Bytes and words\<close>

lemma from_be_bytes_snoc: "from_be_bytes (bs @ [b]) = 256 * from_be_bytes bs + byte b"
  by (simp add: from_be_bytes_def)

lemma digit_below: "y < 256 \<Longrightarrow> 256 * (x + 1) \<le> n \<Longrightarrow> 256 * x + y < n" for x y n :: nat
  by arith

lemma from_be_bytes_less: "from_be_bytes bs < 256 ^ length bs"
proof (induction bs rule: rev_induct)
  case Nil
  then show ?case by (simp add: from_be_bytes_def)
next
  case (snoc b bs)
  have "byte b < 256" by (rule nat_of_char_less_256)
  moreover have "256 * (from_be_bytes bs + 1) \<le> 256 * 256 ^ length bs"
    using snoc by (intro mult_le_mono2) simp
  ultimately show ?case unfolding from_be_bytes_snoc length_append_singleton power_Suc by (rule digit_below)
qed

lemma last_digit:
  fixes x y a b :: nat
  assumes "256 * x + a = 256 * y + b" and "a < 256" and "b < 256"
  shows "x = y \<and> a = b"
proof -
  have "(256 * x + a) div 256 = x" "(256 * y + b) div 256 = y" using assms(2,3) by simp_all
  then show ?thesis using assms(1) by simp
qed

lemma from_be_bytes_inj:
  assumes "from_be_bytes as = from_be_bytes bs" and "length as = length bs"
  shows "as = bs"
  using assms
proof (induction as arbitrary: bs rule: rev_induct)
  case Nil
  then show ?case by simp
next
  case (snoc a as)
  then obtain bs' b where bs: "bs = bs' @ [b]" by (cases bs rule: rev_cases) auto
  have small: "byte a < 256" "byte b < 256" by (rule nat_of_char_less_256)+
  have eq: "256 * from_be_bytes as + byte a = 256 * from_be_bytes bs' + byte b"
    using snoc.prems(1) by (simp add: bs from_be_bytes_snoc)
  from last_digit [OF this small] have "from_be_bytes as = from_be_bytes bs'" "byte a = byte b" by simp_all
  then show ?case using snoc.IH [of bs'] snoc.prems(2) by (simp add: bs)
qed

lemma chain_hash_inj:
  assumes "hex_laws l" and "chain_hash l s = Some w" and "chain_hash l t = Some w"
  shows "lib_lowercase l s = lib_lowercase l t"
proof -
  obtain a b where a: "lib_unhex l s = Inr a" "length a = 32" "w = of_nat (from_be_bytes a)"
    and b: "lib_unhex l t = Inr b" "length b = 32" "w = of_nat (from_be_bytes b)"
    using assms(2,3) by (auto simp: chain_hash_def split: sum.splits if_splits)
  have unat_word: "unat (of_nat (from_be_bytes c) :: hash32) = from_be_bytes c" if "length c = 32" for c
    using from_be_bytes_less [of c] that by (simp add: unsigned_of_nat take_bit_nat_eq_self)
  have "from_be_bytes a = from_be_bytes b" using unat_word [OF a(2)] unat_word [OF b(2)] a(3) b(3) by simp
  then have "a = b" using a(2) b(2) by (intro from_be_bytes_inj) simp_all
  then show ?thesis using hex_lawsD(1) [OF assms(1)] a(1) b(1) by metis
qed

lemma chain_hash_reads: "hex_laws l \<Longrightarrow> reads_hex l (chain_hash l)"
  using chain_hash_inj unfolding reads_hex_def by blast

section \<open>Verdicts are unanimous\<close>

lemma verdict_unanimous:
  assumes "consensus_of env r w d = Inr v" and "att \<in> set (attestations r (w, d))" and "v = Verified \<or> v = Mismatch"
  shows "at_rebuilt att = w \<longleftrightarrow> v = Verified"
proof -
  obtain mx ty where t: "tally_of (read_attestations r (w, d)) = (mx, ty)" by fastforce
  have "tl_distinct ty = 1 \<and> (v = Verified \<longleftrightarrow> mx = w)"
    using assms(1,3) by (auto simp: consensus_of_def t Let_def rbind_eq_Inr split: option.splits if_splits)
  moreover have "read_attestations r (w, d) \<noteq> []" using assms(2) by (auto simp: attestations_def)
  ultimately show ?thesis using distinct_one_iff [OF t] assms(2) by (simp add: attestations_def)
qed

section \<open>A network of verifiers\<close>

text \<open>
  The registry with a set \<open>H\<close> of accounts whose keys are held by running services: \<open>dep\<close> and \<open>acfg\<close> are
  their settings, \<open>svc\<close> their states, \<open>cli\<close> what the CLI makes of a command. A queued attestation may reach the chain at any time, late, never
  or repeatedly, whatever the service believes of it; everybody else calls what they like, but
  attests only for accounts outside \<open>H\<close>, whose keys they do not have.
\<close>

inductive network ::
  "address set \<Rightarrow> (address \<Rightarrow> deployment) \<Rightarrow> (address \<Rightarrow> attest_config) \<Rightarrow> (cli_command \<Rightarrow> reg_call option) \<Rightarrow>
     config \<Rightarrow> address \<Rightarrow> address \<Rightarrow> token system \<Rightarrow> (address \<Rightarrow> service) \<Rightarrow> bool"
  for H dep acfg cli cfg T R where
  Begin: "vrfy_reachable cfg T R (now, r, k) \<Longrightarrow> (\<And>c v. v \<in> H \<Longrightarrow> rg_att r (c, v) = None) \<Longrightarrow>
    (\<And>v. v \<in> H \<Longrightarrow> reachable (dep v) (svc v)) \<Longrightarrow> network H dep acfg cli cfg T R (now, r, k) svc"
| Serve: "network H dep acfg cli cfg T R w svc \<Longrightarrow> v \<in> H \<Longrightarrow> service_step (dep v) (svc v) s \<Longrightarrow>
    network H dep acfg cli cfg T R w (svc(v := s))"
| File: "network H dep acfg cli cfg T R (now, r, k) svc \<Longrightarrow> v \<in> H \<Longrightarrow>
    a \<in> set (db_attestations (sv_db (svc v))) \<Longrightarrow>
    cli (invoke_command (acfg v) a) = Some c \<Longrightarrow>
    self env = R \<Longrightarrow> ledger_seq env = now \<Longrightarrow> \<not> authorized env R \<Longrightarrow>
    reg_exec (vrfy_client T) env c (r, k) = Inr (r', k') \<Longrightarrow>
    network H dep acfg cli cfg T R (now, r', k') svc"
| Others: "network H dep acfg cli cfg T R (now, r, k) svc \<Longrightarrow> (\<And>v w d h. c = Attest_Call v w d h \<Longrightarrow> v \<notin> H) \<Longrightarrow>
    self env = R \<Longrightarrow> ledger_seq env = now \<Longrightarrow> \<not> authorized env R \<Longrightarrow>
    reg_exec (vrfy_client T) env c (r, k) = Inr (r', k') \<Longrightarrow>
    network H dep acfg cli cfg T R (now, r', k') svc"
| Token: "network H dep acfg cli cfg T R (now, r, k) svc \<Longrightarrow> vrfy_foreign R k k' \<Longrightarrow>
    network H dep acfg cli cfg T R (now, r, k') svc"
| Tick: "network H dep acfg cli cfg T R (now, r, k) svc \<Longrightarrow> now < now' \<Longrightarrow>
    network H dep acfg cli cfg T R (now', r, k) svc"

text \<open>Both sides only do what they do alone.\<close>

lemma network_registry: "network H dep acfg cli cfg T R w svc \<Longrightarrow> vrfy_reachable cfg T R w"
proof (induction rule: network.induct)
  case (File now r k svc v a c env r' k')
  then show ?case by (blast intro: vrfy_reachable.step sys_step.call)
next
  case (Others now r k svc c env r' k')
  then show ?case by (blast intro: vrfy_reachable.step sys_step.call)
next
  case (Token now r k svc k')
  then show ?case by (blast intro: vrfy_reachable.step sys_step.other)
next
  case (Tick now r k svc now')
  then show ?case by (blast intro: vrfy_reachable.step sys_step.tick)
qed

lemma network_services: "network H dep acfg cli cfg T R w svc \<Longrightarrow> v \<in> H \<Longrightarrow> reachable (dep v) (svc v)"
  by (induction rule: network.induct) (auto intro: reachable.Step)

section \<open>The outbox only grows\<close>

lemma same_claim_refl: "ServiceProps.same_claim a a"
  by (simp add: ServiceProps.same_claim_def)

definition outbox_within :: "db \<Rightarrow> db \<Rightarrow> bool" where
  "outbox_within d d' \<longleftrightarrow> (\<forall>a \<in> set (db_attestations d). \<exists>a' \<in> set (db_attestations d'). ServiceProps.same_claim a a')"

lemma outbox_within_subset:
  "set (db_attestations d) \<subseteq> set (db_attestations d') \<Longrightarrow> outbox_within d d'"
  unfolding outbox_within_def using same_claim_refl by blast

lemma enqueue_keeps:
  "a \<in> set (db_attestations d) \<Longrightarrow> a \<in> set (db_attestations (enqueue l en now ok i rep d))"
  by (auto simp: enqueue_def enqueue_attestation_def Let_def split: sum.splits)

lemma outbox_step:
  assumes "service_step su s s'"
  shows "outbox_within (sv_db s) (sv_db s')"
  using assms
proof (cases rule: service_step.cases)
  case (Request auth req instant r)
  from admit_changes [OF Request] show ?thesis by (auto intro: outbox_within_subset)
next
  case (Resolved h rpc hash now db_ok r)
  then show ?thesis
    by (intro outbox_within_subset) (auto simp: accept_job_def release_lookup_def insert_pending_def Let_def
        split: if_splits prod.splits)
next
  case (Done j ended now db_ok att_ok)
  have kept: "db_attestations (Db.complete n i st rep d) = db_attestations d" "db_attestations (fail n i e d) = db_attestations d"
    for n i st rep d e by (simp_all add: Db.complete_def fail_def)
  show ?thesis unfolding Done(1)
    by (intro outbox_within_subset) (auto simp: finish_job_def Let_def kept intro: enqueue_keeps split: job_end.split)
next
  case (Submitted row cfg now db_ok run recorded d)
  from attempt_claims(2) [OF Submitted(3)] show ?thesis
    unfolding Submitted(1) outbox_within_def list_all2_conv_all_nth by simp (metis in_set_conv_nth)
next
  case (Restart now)
  then obtain d where "migrate (sv_db s) = Inr d"
    "s' = app_state_new (snd (fail_orphaned_pending now ORPHANED_JOB_ERROR d))"
    by (auto simp: start_service_def rbind_eq_Inr)
  then show ?thesis using migrate_rows(2)
    by (intro outbox_within_subset) (simp add: app_state_new_def fail_orphaned_pending_def)
qed (auto intro: outbox_within_subset simp: release_lookup_def begin_build_def)

lemma chain_call_same:
  "ServiceProps.same_claim a a' \<Longrightarrow>
     chain_call account word (invoke_command cfg a') = chain_call account word (invoke_command cfg a)"
  by (simp add: chain_call_def invoke_command_def apply_env_def ServiceProps.same_claim_def)

section \<open>What is on record was queued\<close>

definition queued ::
  "(string \<Rightarrow> address option) \<Rightarrow> (string \<Rightarrow> hash32 option) \<Rightarrow> attest_config \<Rightarrow> service \<Rightarrow> reg_call \<Rightarrow> bool" where
  "queued account word cfg s c \<longleftrightarrow> (\<exists>a \<in> set (db_attestations (sv_db s)).
     chain_call account word (invoke_command cfg a) = Some c)"

lemma queued_step: "service_step su s s' \<Longrightarrow> queued account word cfg s c \<Longrightarrow> queued account word cfg s' c"
  using outbox_step [of su s s'] chain_call_same unfolding queued_def outbox_within_def by metis

lemma reg_exec_att:
  assumes "reg_exec tc env c (r, k) = Inr (r', k')"
  shows "rg_att r' (e, v) = Some att \<Longrightarrow> rg_att r (e, v) = Some att \<or> c = Attest_Call v (fst e) (snd e) (at_rebuilt att)"
proof (cases c)
  case (Stake_Call u n)
  moreover assume "rg_att r' (e, v) = Some att"
  ultimately show ?thesis using assms by (auto elim!: stake_Inr)
next
  case (Request_Unstake u n)
  moreover assume "rg_att r' (e, v) = Some att"
  ultimately show ?thesis using assms by (auto elim!: request_unstake_Inr)
next
  case (Withdraw_Call u)
  moreover assume "rg_att r' (e, v) = Some att"
  ultimately show ?thesis using assms by (auto simp: rbind_eq_Inr elim!: withdraw_Inr)
next
  case (Attest_Call u w d h)
  moreover assume "rg_att r' (e, v) = Some att"
  ultimately show ?thesis using assms by (auto elim!: attest_Inr split: if_splits)
next
  case (Slash_Call w d u)
  moreover assume "rg_att r' (e, v) = Some att"
  ultimately show ?thesis using assms by (auto simp: rbind_eq_Inr elim!: slash_Inr)
qed

lemma network_record:
  assumes "network H dep acfg cli cfg T R w svc" and cli: "cli_documented cli account word"
    and addr: "\<And>v. v \<in> H \<Longrightarrow> account (ac_address (acfg v)) = Some v"
    and "v \<in> H" and "rg_att (fst (snd w)) (e, v) = Some att"
  shows "queued account word (acfg v) (svc v) (Attest_Call v (fst e) (snd e) (at_rebuilt att))"
  using assms(1,4,5)
proof (induction rule: network.induct)
  case (Begin now r k svc)
  then show ?case by simp
next
  case (Serve w svc u s)
  then show ?case using queued_step by auto
next
  case (File now r k svc u a c env r' k')
  from File.prems(2) have att: "rg_att r' (e, v) = Some att" by simp
  from reg_exec_att [OF File.hyps(8) this] show ?case
  proof
    assume "rg_att r (e, v) = Some att"
    with File.IH File.prems(1) show ?thesis by simp
  next
    assume c: "c = Attest_Call v (fst e) (snd e) (at_rebuilt att)"
    have call: "chain_call account word (invoke_command (acfg u) a) = Some c"
      using cli File.hyps(4) by (simp add: cli_documented_def)
    with c addr [OF File.hyps(2)] have "u = v" by (auto simp: chain_call_invoke)
    with c call File.hyps(3) show ?thesis unfolding queued_def by blast
  qed
next
  case (Others now r k svc c env r' k')
  from Others.prems(2) have att: "rg_att r' (e, v) = Some att" by simp
  from reg_exec_att [OF Others.hyps(6) this] Others.hyps(2) Others.prems(1) Others.IH show ?case by auto
qed simp_all

section \<open>One verifier's attestation and the verdict\<close>

lemma queued_lower_case:
  assumes "reachable su s" and "hex_laws (su_libs su)" and "a \<in> set (db_attestations (sv_db s))"
  shows "lib_lowercase (su_libs su) (ar_wasm_hash a) = ar_wasm_hash a"
    and "lib_lowercase (su_libs su) (ar_rebuilt_hash a) = ar_rebuilt_hash a"
proof -
  have "attestation_backed su (sv_db s) a"
    using service_invD(7) [OF reachable_inv [OF assms(1)]] assms(3) by (simp add: list_all_iff)
  then show "lib_lowercase (su_libs su) (ar_wasm_hash a) = ar_wasm_hash a"
    "lib_lowercase (su_libs su) (ar_rebuilt_hash a) = ar_rebuilt_hash a"
    using hex_lawsD(3) [OF assms(2)] unfolding attestation_backed_def by metis+
qed

lemma queued_agrees:
  assumes "reachable su s" and "hex_laws (su_libs su)" and "a \<in> set (db_attestations (sv_db s))"
    and "reads_hex (su_libs su) word" and "word (ar_wasm_hash a) = Some w" and "word (ar_rebuilt_hash a) = Some h"
  shows "h = w \<longleftrightarrow> ar_rebuilt_hash a = ar_wasm_hash a"
proof
  assume "h = w"
  with assms(4-6) have "lib_lowercase (su_libs su) (ar_rebuilt_hash a) = lib_lowercase (su_libs su) (ar_wasm_hash a)"
    unfolding reads_hex_def by blast
  then show "ar_rebuilt_hash a = ar_wasm_hash a" using queued_lower_case [OF assms(1-3)] by simp
qed (use assms(5,6) in simp)

section \<open>An honest majority\<close>

text \<open>The builds of one claim that the services of \<open>H\<close> queued gave one hash.\<close>

definition builds_agree :: "(string \<Rightarrow> hash32 option) \<Rightarrow> address set \<Rightarrow> (address \<Rightarrow> service) \<Rightarrow> hash32 \<Rightarrow> bool" where
  "builds_agree word H svc d \<longleftrightarrow> (\<forall>u \<in> H. \<forall>u' \<in> H.
     \<forall>a \<in> set (db_attestations (sv_db (svc u))). \<forall>a' \<in> set (db_attestations (sv_db (svc u'))).
       word (ar_input_digest a) = Some d \<longrightarrow> word (ar_input_digest a') = Some d \<longrightarrow>
       word (ar_rebuilt_hash a) = word (ar_rebuilt_hash a'))"

lemma queued_hash:
  assumes "queued account word cfg s (Attest_Call v w d h)"
  shows "\<exists>a \<in> set (db_attestations (sv_db s)). word (ar_input_digest a) = Some d \<and> word (ar_rebuilt_hash a) = Some h"
  using assms by (auto simp: queued_def chain_call_invoke)

lemma honest_votes_agree:
  assumes net: "network H dep acfg cli cfg T R (now, r, k) svc" and "cli_documented cli account word"
    and "\<And>u. u \<in> H \<Longrightarrow> account (ac_address (acfg u)) = Some u" and agree: "builds_agree word H svc d"
    and x: "x \<in> set (attestations r (w, d))" "at_verifier x \<in> H"
    and y: "y \<in> set (attestations r (w, d))" "at_verifier y \<in> H"
  shows "at_rebuilt x = at_rebuilt y"
proof -
  have vote: "\<exists>a \<in> set (db_attestations (sv_db (svc (at_verifier z)))).
      word (ar_input_digest a) = Some d \<and> word (ar_rebuilt_hash a) = Some (at_rebuilt z)"
    if "z \<in> set (attestations r (w, d))" "at_verifier z \<in> H" for z
  proof -
    have "rg_att r ((w, d), at_verifier z) = Some z"
      using attestation_record_sound [OF network_registry [OF net], of "(w, d)"] that(1) by blast
    then have "queued account word (acfg (at_verifier z)) (svc (at_verifier z)) (Attest_Call (at_verifier z) w d (at_rebuilt z))"
      using network_record [OF assms(1-3) that(2), of "(w, d)" z] by simp
    then show ?thesis by (rule queued_hash)
  qed
  from vote [OF x] vote [OF y] x(2) y(2) agree have "Some (at_rebuilt x) = Some (at_rebuilt y)"
    unfolding builds_agree_def by metis
  then show ?thesis by simp
qed

lemma count_same:
  assumes "\<And>x. x \<in> set xs \<Longrightarrow> P x \<Longrightarrow> f x = h"
  shows "length (filter P xs) \<le> count_list (map f xs) h"
  using assms by (induction xs) (auto simp: le_SucI)

lemma majority_not_slashed:
  assumes "slash tc env (r, k) w d v = Inr (n, r', k')" and "rg_att r ((w, d), v) = Some att"
    and "\<And>x. x \<in> set (attestations r (w, d)) \<Longrightarrow> P x \<Longrightarrow> at_rebuilt x = at_rebuilt att"
  shows "2 * length (filter P (attestations r (w, d))) \<le> length (attestations r (w, d))"
proof (rule ccontr)
  assume "\<not> ?thesis"
  moreover have "length (filter P (attestations r (w, d))) \<le> count_list (hashes (attestations r (w, d))) (at_rebuilt att)"
    unfolding hashes_def by (rule count_same) (rule assms(3))
  ultimately have major: "length (read_attestations r (w, d)) <
      2 * count_list (hashes (read_attestations r (w, d))) (at_rebuilt att)"
    by (simp add: attestations_def)
  obtain mx ty where t: "tally_of (read_attestations r (w, d)) = (mx, ty)" by fastforce
  from assms(1) obtain att' where "rg_att r ((w, d), v) = Some att'" "at_rebuilt att' \<noteq> mx"
    by (rule slash_Inr) (auto simp: t)
  with assms(2) strict_majority_top [OF t major] show False by simp
qed

section \<open>A concrete network\<close>

text \<open>Two services, whose keys are those of accounts 1 and 2, and a verifier whose key is elsewhere.\<close>

definition demo_account :: "string \<Rightarrow> address option" where
  "demo_account s = (if s = ''G1'' then Some 1 else if s = ''G2'' then Some 2 else None)"

definition demo_acfg :: "address \<Rightarrow> attest_config" where
  "demo_acfg u = demo_attest\<lparr>ac_address := (if u = 1 then ''G1'' else ''G2'')\<rparr>"

definition demo_cli :: "cli_command \<Rightarrow> reg_call option" where
  "demo_cli = chain_call demo_account (chain_hash hex_libs)"

definition demo_stakes :: "(ctx \<times> reg_call) list" where
  "demo_stakes = [(demo_ctx 10 {1}, Stake_Call 1 400), (demo_ctx 10 {2}, Stake_Call 2 400),
     (demo_ctx 11 {3}, Stake_Call 3 401)]"

definition demo_staked :: "registry \<times> token" where
  "demo_staked = projr (sys_run (vrfy_client 60) demo_stakes (demo_registry, demo_funded))"

lemma demo_staked_registry:
  "rg_config (fst demo_staked) = Some demo_cfg" "rg_opened (fst demo_staked) = Map.empty"
  "rg_attesters (fst demo_staked) = Map.empty" "rg_att (fst demo_staked) = Map.empty"
  "v \<in> {1, 2, 3} \<Longrightarrow> 400 \<le> si_staked (read_stake (fst demo_staked) v)"
  by (auto simp: demo_staked_def demo_stakes_def demo_eval)

lemma demo_staked_reachable: "vrfy_reachable demo_cfg 60 99 (12, demo_staked)"
proof -
  obtain r k where w: "demo_staked = (r, k)" by fastforce
  have "\<exists>w. sys_run (vrfy_client 60) demo_stakes (demo_registry, demo_funded) = Inr w"
    by (simp add: demo_stakes_def demo_eval)
  then have "sys_run (vrfy_client 60) demo_stakes (demo_registry, demo_funded) = Inr (r, k)"
    using w by (auto simp: demo_staked_def)
  then have "sys_steps (vrfy_client 60) 99 (vrfy_foreign 99) (10, demo_registry, demo_funded)
      (end_ledger 10 demo_stakes, r, k)"
    by (rule sys_run_steps) (simp add: demo_stakes_def demo_ctx_def)
  from vrfy_reachable_steps [OF this demo_start_reachable] have "vrfy_reachable demo_cfg 60 99 (11, r, k)"
    by (simp add: demo_stakes_def demo_ctx_def)
  then show ?thesis unfolding w by (rule vrfy_reachable.step) (rule sys_step.tick, simp)
qed

lemma demo_attests:
  assumes "rg_config r = Some demo_cfg" and "400 \<le> si_staked (read_stake r v)" and "rg_att r ((w, d), v) = None"
    and "rg_opened r (w, d) = None \<or> rg_opened r (w, d) = Some 12"
  shows "\<exists>r'. reg_exec (vrfy_client 60) (demo_ctx 12 {v}) (Attest_Call v w d h) (r, k) = Inr (r', k) \<and>
    rg_config r' = Some demo_cfg \<and> rg_stake r' = rg_stake r \<and> rg_opened r' (w, d) = Some 12 \<and>
    rg_att r' = (rg_att r)(((w, d), v) \<mapsto> demo_att v h 12) \<and>
    rg_attesters r' (w, d) = Some ((case rg_attesters r (w, d) of Some as \<Rightarrow> as | None \<Rightarrow> []) @ [v])"
  using assms
  by (auto simp: attest_def trapping_def require_auth_def read_config_def demo_cfg_def chk_u32_def
      u32_max_def publish_reg_def demo_att_def Let_def)

text \<open>What the service sends once its job has ended.\<close>

lemma demo_sends:
  assumes "reachable demo_su s" and "a \<in> set (db_attestations (sv_db s))" and "ar_rebuilt_hash a = ar_wasm_hash a"
  shows "\<exists>w d. \<forall>u \<in> {1, 2}. demo_cli (invoke_command (demo_acfg u) a) = Some (Attest_Call u w d w)"
proof -
  have hex: "\<exists>w. chain_hash hex_libs (hex_encode b) = Some w" if "length b = 32" for b
    using that by (simp add: chain_hash_def hex_libs_def hex_decode_of_encode)
  have "attestation_backed demo_su (sv_db s) a"
    using service_invD(7) [OF reachable_inv [OF assms(1)]] assms(2) by (simp add: list_all_iff)
  then obtain rep c where c: "from_report hex_libs rep = Inr c"
    and row: "ar_wasm_hash a = lib_lowercase hex_libs (lib_hex hex_libs (cl_wasm_hash c))"
      "ar_input_digest a = lib_lowercase hex_libs (lib_hex hex_libs (cl_input_digest c))"
    by (auto simp: attestation_backed_def demo_su_def)
  have len: "length (cl_wasm_hash c) = 32" "length (cl_input_digest c) = 32"
    using c unfolding from_report_Inr hex32_Inr by (auto simp: input_digest_def finalize_hash_def hex_libs_def Let_def)
  have lower: "lib_lowercase hex_libs (lib_hex hex_libs b) = hex_encode b" for b
    using hex_lawsD(2) [OF hex_libs_laws, of b] by (simp add: hex_libs_def)
  from hex [OF len(1)] hex [OF len(2)] show ?thesis
    by (auto simp: demo_cli_def chain_call_invoke row lower assms(3) demo_account_def demo_acfg_def)
qed

abbreviation demo_network :: "token system \<Rightarrow> (address \<Rightarrow> service) \<Rightarrow> bool" where
  "demo_network \<equiv> network {1, 2} (\<lambda>_. demo_su) demo_acfg demo_cli demo_cfg 60 99"

text \<open>The two file, the third attests whatever it likes.\<close>

lemma demo_filed:
  assumes s: "reachable demo_su s" and a: "a \<in> set (db_attestations (sv_db s))"
    and call: "\<forall>u \<in> {1, 2}. demo_cli (invoke_command (demo_acfg u) a) = Some (Attest_Call u w d w)"
  shows "\<exists>r k. demo_network (22, r, k) (\<lambda>_. s) \<and> rg_config r = Some demo_cfg \<and> rg_opened r (w, d) = Some 12 \<and>
    read_attestations r (w, d) = [demo_att 1 w 12, demo_att 3 h 12, demo_att 2 w 12] \<and>
    (\<forall>v. rg_att r ((w, d), v) = (if v = 1 \<or> v = 2 then Some (demo_att v w 12) else if v = 3 then Some (demo_att 3 h 12) else None))"
proof -
  obtain r0 k where w0: "demo_staked = (r0, k)" by fastforce
  note reg = demo_staked_registry [unfolded w0 fst_conv]
  have net0: "demo_network (12, r0, k) (\<lambda>_. s)"
    using demo_staked_reachable s by (intro network.Begin) (simp_all add: w0 reg)
  have filed: "demo_network (12, r', k) (\<lambda>_. s)"
    if "demo_network (12, r, k) (\<lambda>_. s)" "u \<in> {1, 2}"
      "reg_exec (vrfy_client 60) (demo_ctx 12 {u}) (Attest_Call u w d w) (r, k) = Inr (r', k)" for r r' u
    by (rule network.File [OF that(1,2) a call [rule_format, OF that(2)] _ _ _ that(3)]) (use that(2) in auto)
  obtain r1 where r1: "reg_exec (vrfy_client 60) (demo_ctx 12 {1}) (Attest_Call 1 w d w) (r0, k) = Inr (r1, k)"
    and e1: "rg_config r1 = Some demo_cfg" "rg_stake r1 = rg_stake r0" "rg_opened r1 (w, d) = Some 12"
      "rg_att r1 = [((w, d), 1) \<mapsto> demo_att 1 w 12]" "rg_attesters r1 (w, d) = Some [1]"
    using demo_attests [of r0 1 w d w k] reg(5) [of 1] by (auto simp: reg(1-4))
  have net1: "demo_network (12, r1, k) (\<lambda>_. s)" by (rule filed [OF net0 _ r1]) simp
  obtain r2 where r2: "reg_exec (vrfy_client 60) (demo_ctx 12 {3}) (Attest_Call 3 w d h) (r1, k) = Inr (r2, k)"
    and e2: "rg_config r2 = Some demo_cfg" "rg_stake r2 = rg_stake r0" "rg_opened r2 (w, d) = Some 12"
      "rg_att r2 = [((w, d), 1) \<mapsto> demo_att 1 w 12, ((w, d), 3) \<mapsto> demo_att 3 h 12]" "rg_attesters r2 (w, d) = Some [1, 3]"
    using demo_attests [of r1 3 w d h k] reg(5) [of 3] by (auto simp: e1 read_stake_def)
  have net2: "demo_network (12, r2, k) (\<lambda>_. s)"
    by (rule network.Others [OF net1 _ _ _ _ r2]) simp_all
  obtain r3 where r3: "reg_exec (vrfy_client 60) (demo_ctx 12 {2}) (Attest_Call 2 w d w) (r2, k) = Inr (r3, k)"
    and e3: "rg_config r3 = Some demo_cfg" "rg_opened r3 (w, d) = Some 12"
      "rg_att r3 = [((w, d), 1) \<mapsto> demo_att 1 w 12, ((w, d), 3) \<mapsto> demo_att 3 h 12, ((w, d), 2) \<mapsto> demo_att 2 w 12]"
      "rg_attesters r3 (w, d) = Some [1, 3, 2]"
    using demo_attests [of r2 2 w d w k] reg(5) [of 2] by (auto simp: e2 read_stake_def)
  have "demo_network (12, r3, k) (\<lambda>_. s)" by (rule filed [OF net2 _ r3]) simp
  then have "demo_network (22, r3, k) (\<lambda>_. s)" by (rule network.Tick) simp
  moreover have "read_attestations r3 (w, d) = [demo_att 1 w 12, demo_att 3 h 12, demo_att 2 w 12]"
    unfolding read_attestations_def e3 by simp
  moreover have "rg_att r3 ((w, d), v) =
      (if v = 1 \<or> v = 2 then Some (demo_att v w 12) else if v = 3 then Some (demo_att 3 h 12) else None)" for v
    unfolding e3 by simp
  ultimately show ?thesis using e3(1,2) by blast
qed

text \<open>One built database, and what its two services send.\<close>

lemma demo_queue:
  "\<exists>s a w d. reachable demo_su s \<and> db_attestations (sv_db s) = [a] \<and>
     (\<forall>u \<in> {1, 2}. demo_cli (invoke_command (demo_acfg u) a) = Some (Attest_Call u w d w))"
proof -
  from demo_ended obtain rep a where s: "reachable demo_su (ended rep)"
    and a: "db_attestations (sv_db (ended rep)) = [a]" "ar_rebuilt_hash a = ar_wasm_hash a" by blast
  have "a \<in> set (db_attestations (sv_db (ended rep)))" by (simp add: a)
  from demo_sends [OF s this a(2)] s a(1) show ?thesis by blast
qed

lemma demo_addresses: "u \<in> {1, 2} \<Longrightarrow> demo_account (ac_address (demo_acfg u)) = Some u"
  by (auto simp: demo_account_def demo_acfg_def)

lemma demo_cli_documented: "cli_documented demo_cli demo_account (chain_hash hex_libs)"
  by (simp add: cli_documented_def demo_cli_def)

lemma unanimous_verdict:
  assumes "rg_config r = Some demo_cfg" and "rg_opened r (w, d) = Some 12"
    and "read_attestations r (w, d) = [demo_att 1 w 12, demo_att 3 w 12, demo_att 2 w 12]"
  shows "consensus_of (demo_ctx 22 {}) r w d = Inr Verified"
proof -
  let ?atts = "[demo_att 1 w 12, demo_att 3 w 12, demo_att 2 w 12]"
  obtain mx ty where t: "tally_of ?atts = (mx, ty)" by fastforce
  have "mx = w" using tally_of_spec(5) [OF t] by (simp add: hashes_def demo_att_def)
  moreover have "tl_distinct ty = 1"
    using distinct_one_iff [OF t] \<open>mx = w\<close> by (simp add: demo_att_def)
  moreover have "tl_total ty = 3" using tally_of_spec(1) [OF t] by simp
  ultimately show ?thesis unfolding consensus_of_def read_config_def assms t Let_def
    by (simp add: demo_cfg_def chk_u32_def trapping_def u32_max_def)
qed

end
