(* ===== verification/Requests.thy ===== *)
theory Requests
  imports ServiceRuns
begin

text \<open>
  The bearer gate and the outcomes of \<open>POST /verify\<close>: who is let in and under which rate-limit key,
  when a request becomes a job, what it changes, and how a key of \<open>GET /verifications/{key}\<close> is read.
\<close>

section \<open>The gate\<close>

lemma or_zero: "or a b = 0 \<longleftrightarrow> a = 0 \<and> b = 0" for a b :: "8 word"
  by (rule or_eq_0_iff)

lemma of_char_word_inj: "(of_char x :: 8 word) = of_char y \<longleftrightarrow> x = y"
proof
  assume "(of_char x :: 8 word) = of_char y"
  then have "unat (of_char x :: 8 word) = unat (of_char y :: 8 word)" by simp
  moreover have "unat (of_char c :: 8 word) = byte c" for c
  proof -
    have "(of_char c :: 8 word) = of_nat (byte c)" by (rule of_nat_of_char [symmetric])
    moreover have "byte c < 256" by (rule nat_of_char_less_256)
    ultimately show ?thesis by (simp add: unat_of_nat)
  qed
  ultimately have "byte x = byte y" by simp
  then show "x = y" by (metis char_of_char)
qed simp

lemma diff_zero:
  "fold (\<lambda>(x, y) diff. or diff (xor (of_char x) (of_char y))) zs (d :: 8 word) = 0 \<longleftrightarrow>
     d = 0 \<and> list_all (\<lambda>(x, y). x = y) zs"
proof (induction zs arbitrary: d)
  case Nil
  then show ?case by simp
next
  case (Cons z zs)
  have "xor a b = 0 \<longleftrightarrow> a = b" for a b :: "8 word" by (metis xor.right_neutral xor_self_eq xor.assoc xor.left_neutral)
  with Cons show ?case by (cases z) (auto simp: or_zero of_char_word_inj)
qed

lemma constant_time_eq_iff: "constant_time_eq a b \<longleftrightarrow> a = b"
  by (auto simp: constant_time_eq_def diff_zero list_all_length list_eq_iff_nth_eq)

lemma split_once_char: "split_once s [c] = Some (u, v) \<longleftrightarrow> s = u @ c # v \<and> c \<notin> set u"
proof (induction s arbitrary: u v)
  case Nil
  then show ?case by simp
next
  case (Cons a s)
  then show ?case by (cases u) auto
qed

lemma bearer_token_Some:
  "bearer_token auth = Some t \<longleftrightarrow> (\<exists>scheme rest. auth = Some (scheme @ '' '' @ rest) \<and> CHR '' '' \<notin> set scheme \<and>
     eq_ignore_ascii_case scheme ''bearer'' \<and> t = trim rest)"
proof (cases auth)
  case None
  then show ?thesis by (simp add: bearer_token_def)
next
  case (Some s)
  have "bearer_token (Some s) = Some t \<longleftrightarrow> (\<exists>scheme rest. split_once s '' '' = Some (scheme, rest) \<and>
      eq_ignore_ascii_case scheme ''bearer'' \<and> t = trim rest)"
    by (auto simp: bearer_token_def split: option.splits)
  then show ?thesis by (simp add: Some split_once_char)
qed

text \<open>
  Property C32. Who may post. With a token configured (main.rs drops an empty one) a request passes
  exactly when its Authorization header is a scheme, compared without case to bearer, one space, and
  text that trims to the very token; and everyone who passes is counted against one bucket, that of
  the token, wherever the requests come from.
\<close>

theorem bearer_gate:
  assumes "api_token_from v = Some e"
  shows "(is_authorized (Some e) auth \<longleftrightarrow> (\<exists>scheme rest. auth = Some (scheme @ '' '' @ rest) \<and>
       CHR '' '' \<notin> set scheme \<and> eq_ignore_ascii_case scheme ''bearer'' \<and> trim rest = e)) \<and>
    (is_authorized (Some e) auth \<longrightarrow> rate_limit_key (Some e) auth = ''tok:'' @ e)"
proof -
  have ne: "e \<noteq> []" using assms by (auto simp: api_token_from_def split: option.splits if_splits)
  then have "is_authorized (Some e) auth \<longleftrightarrow> bearer_token auth = Some e"
    by (auto simp: is_authorized_def constant_time_eq_iff split: option.splits)
  then show ?thesis using bearer_token_Some [of auth e] by (auto simp: rate_limit_key_def)
qed

theorem bearer_gate_witness:
  "is_authorized (Some ''t0'') (Some ''bEARER t0'') \<and> rate_limit_key (Some ''t0'') (Some ''bEARER t0'') = ''tok:t0''"
proof -
  have "api_token_from (Some ''t0'') = Some ''t0''" by (simp add: api_token_from_def)
  note gate = bearer_gate [OF this, of "Some ''bEARER t0''"]
  have "eq_ignore_ascii_case ''bEARER'' ''bearer''" "trim ''t0'' = ''t0''" by code_simp+
  then have "is_authorized (Some ''t0'') (Some ''bEARER t0'')"
    unfolding gate [THEN conjunct1] by (intro exI [of _ "''bEARER''"] exI [of _ "''t0''"] conjI) simp_all
  with gate [THEN conjunct2] show ?thesis by simp
qed

section \<open>From a request to a job\<close>

text \<open>What a refused request leaves alone: everything but the limiter.\<close>

definition quiet :: "service \<Rightarrow> service \<Rightarrow> bool" where
  "quiet s s' \<longleftrightarrow> sv_db s' = sv_db s \<and> sv_waiting s' = sv_waiting s \<and> sv_building s' = sv_building s \<and>
     sv_metrics s' = sv_metrics s \<and> mset (sv_lookups s') = mset (sv_lookups s)"

lemma admit_Inr:
  assumes "admit su auth req instant s = (Inr source, s1)"
  shows "is_authorized (su_api_token su) auth" and "parse_source req = Inr source"
    and "outstanding s < MAX_OUTSTANDING_JOBS"
    and "fst (check_at (sv_limiter s) (rate_limit_key (su_api_token su) auth) instant) = Inr ()"
    and "\<exists>lm. s1 = s\<lparr>sv_limiter := lm, sv_lookups := sv_lookups s @ [(req, source)]\<rparr>"
  using assms
  by (auto simp: admit_def outstanding_def Let_def not_le split: if_splits prod.splits sum.splits)

lemma admit_Inl:
  assumes "admit su auth req instant s = (Inl e, s1)"
  shows "quiet s s1"
    and "\<not> (is_authorized (su_api_token su) auth \<and> is_ok (parse_source req) \<and> outstanding s < MAX_OUTSTANDING_JOBS \<and>
      is_ok (fst (check_at (sv_limiter s) (rate_limit_key (su_api_token su) auth) instant)))"
    and "fst (into_response e) = 401 \<longleftrightarrow> \<not> is_authorized (su_api_token su) auth"
    and "fst (into_response e) \<in> {400, 401, 429}"
  using assms
  by (auto simp: admit_def outstanding_def quiet_def Let_def not_le into_response_def parse_source_def
      rbind_def ok_or_def is_ok_iff
      split: if_splits prod.splits sum.splits option.splits)

lemma expected_hash_status:
  "expected_hash l rpc url req = Inl e \<Longrightarrow>
     fst (into_response e) \<in> {400, 404} \<or> (fst (into_response e) = 500 \<and> rpc_thread rpc \<noteq> None)"
  by (auto simp: expected_hash_def into_response_def split: option.splits sum.splits executable.splits)

lemma accept_job_accepts:
  assumes "accept_job su now True (req, source) hash s1 = (r, s')"
    and "s1 = s\<lparr>sv_limiter := lm, sv_lookups := sv_lookups s @ [(req, source)]\<rparr>"
  shows "\<exists>i. r = Inr (i, hash) \<and>
    view (sv_db s') = pending_row (su_libs su) now i (vq_contract_id req) hash source (vq_bldimg req) # view (sv_db s) \<and>
    list_all (\<lambda>row. vr_id row < i) (view (sv_db s)) \<and>
    sv_waiting s' = sv_waiting s @ [\<lparr>jb_id = i, jb_request = job_request su req source hash\<rparr>] \<and>
    sv_building s' = sv_building s \<and> outstanding s' = Suc (outstanding s) \<and>
    sv_metrics s' = on_accepted (sv_metrics s)"
proof -
  let ?ins = "insert_pending (su_libs su) now (vq_contract_id req) hash source (vq_bldimg req) (sv_db s)"
  obtain i d where ins: "?ins = (i, d)" by (cases ?ins)
  from assms ins have r: "r = Inr (i, hash)" and s': "s' = (release_lookup (req, source) s1)
      \<lparr>sv_db := d, sv_metrics := on_accepted (sv_metrics s),
       sv_waiting := sv_waiting s @ [\<lparr>jb_id = i, jb_request = job_request su req source hash\<rparr>]\<rparr>"
    by (simp_all add: accept_job_def release_lookup_def)
  have "view d = pending_row (su_libs su) now i (vq_contract_id req) hash source (vq_bldimg req) # view (sv_db s)"
    using view_insert [of "su_libs su" now "vq_contract_id req" hash source "vq_bldimg req" "sv_db s"] ins by simp
  moreover have "i = next_id (map vr_id (db_verifications (sv_db s)))" using ins by (simp add: insert_pending_def Let_def)
  then have "list_all (\<lambda>row. vr_id row < i) (view (sv_db s))"
    by (auto simp: list_all_iff view_def intro!: next_id_greater)
  moreover have "length (remove1 (req, source) (sv_lookups s @ [(req, source)])) = length (sv_lookups s)"
    by (simp add: length_remove1)
  ultimately show ?thesis by (simp add: r s' assms(2) release_lookup_def outstanding_def)
qed

text \<open>
  Property C31. From a request to a job. A POST is accepted exactly when it is authorised, has a token in
  its bucket, names one complete source, finds an admission permit free, its target hash resolves and
  the row can be written. Then there is one new pending row, newest and under a fresh id, one new
  waiting job asking exactly the row's question, and one permit more in use. Any other request
  leaves database, jobs, permits and metrics as they were and gets a 4xx, 401 exactly when it is not
  authorised, or 500 when the row cannot be written or the thread of the lookup panicked.
\<close>

theorem post_outcome:
  assumes "start_verification su rpc db_ok auth req instant now s = (r, s')"
  shows "(is_ok r \<longleftrightarrow> is_authorized (su_api_token su) auth \<and>
      is_ok (fst (check_at (sv_limiter s) (rate_limit_key (su_api_token su) auth) instant)) \<and>
      is_ok (parse_source req) \<and> outstanding s < 16 \<and>
      is_ok (expected_hash (su_libs su) rpc (su_rpc_url su) req) \<and> db_ok) \<and>
    (case r of
       Inl e \<Rightarrow> quiet s s' \<and> fst (into_response e) \<in> {400, 401, 404, 429, 500} \<and>
         (fst (into_response e) = 401 \<longleftrightarrow> \<not> is_authorized (su_api_token su) auth) \<and>
         (fst (into_response e) = 500 \<longrightarrow> \<not> db_ok \<or> rpc_thread rpc \<noteq> None)
     | Inr (i, hash) \<Rightarrow> \<exists>source. parse_source req = Inr source \<and>
         expected_hash (su_libs su) rpc (su_rpc_url su) req = Inr hash \<and>
         view (sv_db s') = pending_row (su_libs su) now i (vq_contract_id req) hash source (vq_bldimg req) # view (sv_db s) \<and>
         list_all (\<lambda>row. vr_id row < i) (view (sv_db s)) \<and>
         sv_waiting s' = sv_waiting s @ [\<lparr>jb_id = i, jb_request = job_request su req source hash\<rparr>] \<and>
         sv_building s' = sv_building s \<and> outstanding s' = Suc (outstanding s) \<and>
         sv_metrics s' = on_accepted (sv_metrics s))"
proof -
  obtain a s1 where adm: "admit su auth req instant s = (a, s1)" by (cases "admit su auth req instant s")
  show ?thesis
  proof (cases a)
    case (Inl e)
    with adm assms(1) have "r = Inl e" "s' = s1" by (simp_all add: start_verification_def)
    with admit_Inl [OF adm [unfolded Inl]] show ?thesis
      by (auto simp: MAX_OUTSTANDING_JOBS_def is_ok_iff)
  next
    case (Inr source)
    note A = admit_Inr [OF adm [unfolded Inr]]
    from A(5) obtain lm where s1: "s1 = s\<lparr>sv_limiter := lm, sv_lookups := sv_lookups s @ [(req, source)]\<rparr>" ..
    have q: "quiet s (release_lookup (req, source) s1)" by (simp add: quiet_def release_lookup_def s1)
    have out: "outstanding s < 16" using A(3) by (simp add: MAX_OUTSTANDING_JOBS_def)
    show ?thesis
    proof (cases "expected_hash (su_libs su) rpc (su_rpc_url su) req")
      case (Inl e)
      with adm Inr assms(1) have "r = Inl e" "s' = release_lookup (req, source) s1"
        by (simp_all add: start_verification_def)
      with q expected_hash_status [OF Inl] A Inl show ?thesis by auto
    next
      case (Inr hash)
      with adm \<open>a = Inr source\<close> assms(1) have acc: "accept_job su now db_ok (req, source) hash s1 = (r, s')"
        by (simp add: start_verification_def)
      show ?thesis
      proof (cases db_ok)
        case False
        with acc have "r = Inl (Internal ''inserting pending verification'')" "s' = release_lookup (req, source) s1"
          by (simp_all add: accept_job_def Let_def)
        with q A False show ?thesis by (simp add: into_response_def)
      next
        case True
        from acc True have "accept_job su now True (req, source) hash s1 = (r, s')" by simp
        from accept_job_accepts [OF this s1] A Inr True out show ?thesis by auto
      qed
    qed
  qed
qed

theorem post_outcome_witness:
  "\<exists>r s'. start_verification demo_su demo_rpc True (Some ''Bearer t0'') demo_post 0 5 started = (Inr r, s') \<and>
     length (view (sv_db s')) = 1 \<and> outstanding s' = 1"
proof -
  obtain r s' where run: "start_verification demo_su demo_rpc True (Some ''Bearer t0'') demo_post 0 5 started = (r, s')"
    by (cases "start_verification demo_su demo_rpc True (Some ''Bearer t0'') demo_post 0 5 started")
  note out = post_outcome [OF run]
  note A = admit_Inr [OF demo_admitted(1)]
  have "expected_hash (su_libs demo_su) demo_rpc (su_rpc_url demo_su) demo_post = Inr (sha256_hex hex_libs ''release/x.wasm'')"
    by (simp add: expected_hash_def demo_post_def demo_su_def demo_hash)
  with A have "is_ok r" unfolding out [THEN conjunct1] by (simp add: MAX_OUTSTANDING_JOBS_def)
  then obtain i hash where r: "r = Inr (i, hash)" by (auto simp: is_ok_iff)
  have "view (sv_db started) = []" "outstanding started = 0"
    by (simp_all add: started_def app_state_new_def empty_db_def view_def outstanding_def)
  with out [THEN conjunct2] show ?thesis by (auto simp: run r)
qed

section \<open>Corners\<close>

text \<open>
  A revision is passed on as it came. One that begins with dashes is the last argument of \<open>git archive\<close>,
  which reads it as an option: this one names a file for git to write.
\<close>

lemma option_revision_accepted:
  "parse_source (demo_post\<lparr>vq_rev := Some ''--output=/data/sorofy.db''\<rparr>) =
     Inr (Git ''/repo'' ''--output=/data/sorofy.db'')"
  "last (sp_args (git_archive_spawn tmp ''--output=/data/sorofy.db'')) = ''--output=/data/sorofy.db''"
  by (simp_all add: parse_source_def demo_post_def ok_or_def git_archive_spawn_def)

text \<open>A hash that is a number below \<open>2 ^ 63\<close> is read as a job id, its own row is never looked up.\<close>

lemma hash_reads_as_id: "parse_i64 (replicate 62 CHR ''0'' @ ''12'') = Some 12"
  by code_simp

text \<open>
  The token a request presents is trimmed and the configured one is not: with a blank at its end, as a
  line of a file has, it fits no request.
\<close>

lemma trim_end_ws: "trim_end s = [] \<or> ws_suffix (trim_end s) = 0"
proof (induction s rule: trim_end.induct)
  case (1 s)
  then show ?case using trim_end.simps [of s] by (cases "s = [] \<or> ws_suffix s = 0") auto
qed

lemma untrimmed_token_locks_out:
  assumes "e \<noteq> []" and "ws_suffix e \<noteq> 0"
  shows "\<not> is_authorized (Some e) auth"
proof -
  have "trim s \<noteq> e" for s using assms trim_end_ws [of "trim_start s"] by (auto simp: trim_def)
  then show ?thesis using assms(1)
    by (auto simp: is_authorized_def constant_time_eq_iff bearer_token_Some split: option.splits)
qed

end
