(* ===== verification/Http.thy ===== *)
theory Http
  imports Requests
begin

text \<open>
  The HTTP face of the service, \<open>crates/api/src/server.rs\<close>: the router, the bearer layer in front of
  body extraction, the security headers on every response, the embedded explorer and its
  revalidation. axum is a parameter: what its extractors make of body, query and path are fields of
  a request. Header names are lower case, as in a \<open>HeaderMap\<close>; \<open>hr_header\<close> is the first value of a
  header when it is readable as text.
\<close>

section \<open>Requests and responses\<close>

datatype http_method = GET | HEAD | POST | Other_Method

text \<open>
  A rejection of an extractor is a status and a message. \<open>hr_key\<close> decodes the last segment of
  \<open>/verify/{key}\<close>; \<open>hr_db\<close> is the error of SQLite, if it fails on this request.
\<close>

record http_request =
  hr_method :: http_method
  hr_path :: string
  hr_header :: "string \<Rightarrow> string option"
  hr_json :: "(nat \<times> string) + verify_request"
  hr_query :: "(nat \<times> string) + (nat option \<times> nat option)"
  hr_key :: "string \<Rightarrow> (nat \<times> string) + string"
  hr_db :: "string option"

datatype http_body =
    No_Body
  | Plain_Text string
  | Raw_Bytes bytes
  | Error_Json string
  | Accepted_Json int string
  | Page_Json nat nat nat "job_status verification_row list"
  | Row_Json "job_status verification_row"
  | Metrics_Json "64 word \<times> 64 word \<times> 64 word \<times> 64 word \<times> 64 word \<times> rat"
  | Health_Json string "string option"
  | Endpoints_Json

record http_response =
  hs_status :: nat
  hs_headers :: "(string \<times> string) list"
  hs_body :: http_body

text \<open>\<open>HeaderMap::insert\<close> replaces what was there.\<close>

definition insert_header :: "string \<Rightarrow> string \<Rightarrow> http_response \<Rightarrow> http_response" where
  "insert_header h v r = r\<lparr>hs_headers := filter (\<lambda>(k, _). k \<noteq> h) (hs_headers r) @ [(h, v)]\<rparr>"

definition json_response :: "nat \<Rightarrow> http_body \<Rightarrow> http_response" where
  "json_response code body = \<lparr>hs_status = code, hs_headers = [(''content-type'', ''application/json'')], hs_body = body\<rparr>"

definition error_response :: "api_error \<Rightarrow> http_response" where
  "error_response e =
     (case into_response e of (code, msg, retry) \<Rightarrow>
        let resp = json_response code (Error_Json msg) in
        case retry of None \<Rightarrow> resp | Some secs \<Rightarrow> insert_header ''retry-after'' (show_nat secs) resp)"

definition rejection :: "nat \<times> string \<Rightarrow> http_response" where
  "rejection r = \<lparr>hs_status = fst r, hs_headers = [(''content-type'', ''text/plain; charset=utf-8'')],
     hs_body = Plain_Text (snd r)\<rparr>"

section \<open>Embedded assets\<close>

text \<open>The files compiled into the binary.\<close>

record site =
  si_index :: bytes
  si_css :: bytes
  si_js :: bytes
  si_latin :: bytes
  si_latin_ext :: bytes

definition etag_of :: "libs \<Rightarrow> bytes \<Rightarrow> string" where
  "etag_of l body = [chr 34] @ take 16 (sha256_hex l body) @ [chr 34]"

definition known_to_client :: "string \<Rightarrow> http_request \<Rightarrow> bool" where
  "known_to_client etag rq =
     (case hr_header rq ''if-none-match'' of
        None \<Rightarrow> False
      | Some v \<Rightarrow> list_ex (\<lambda>candidate. trim candidate = etag) (split_on (CHR '','') v))"

definition asset :: "bytes \<Rightarrow> string \<Rightarrow> string \<Rightarrow> http_request \<Rightarrow> http_response" where
  "asset body content_type etag rq =
     (let base = [(''cache-control'', ''no-cache''), (''etag'', etag)] in
      if known_to_client etag rq then \<lparr>hs_status = 304, hs_headers = base, hs_body = No_Body\<rparr>
      else \<lparr>hs_status = 200, hs_headers = base @ [(''content-type'', content_type)], hs_body = Raw_Bytes body\<rparr>)"

definition wants_html :: "http_request \<Rightarrow> bool" where
  "wants_html rq = (case hr_header rq ''accept'' of None \<Rightarrow> False | Some accept \<Rightarrow> contains accept ''text/html'')"

definition index :: "libs \<Rightarrow> site \<Rightarrow> http_request \<Rightarrow> http_response" where
  "index l si rq =
     (if wants_html rq then asset (si_index si) ''text/html; charset=utf-8'' (etag_of l (si_index si)) rq
      else json_response 200 Endpoints_Json)"

definition health :: "http_request \<Rightarrow> http_response" where
  "health rq = (case hr_db rq of
     None \<Rightarrow> json_response 200 (Health_Json ''ok'' None)
   | Some e \<Rightarrow> json_response 503 (Health_Json ''degraded'' (Some e)))"

section \<open>Handlers behind the extractors\<close>

definition list_handler :: "http_request \<Rightarrow> service \<Rightarrow> http_response" where
  "list_handler rq s =
     (case hr_query rq of
        Inl r \<Rightarrow> rejection r
      | Inr (limit, offset) \<Rightarrow>
          (case (case hr_db rq of Some e \<Rightarrow> Inl (Internal e) | None \<Rightarrow> list_verifications limit offset (sv_db s)) of
             Inl e \<Rightarrow> error_response e
           | Inr (rows, limit, offset, items) \<Rightarrow> json_response 200 (Page_Json rows limit offset items)))"

definition get_handler :: "libs \<Rightarrow> string \<Rightarrow> http_request \<Rightarrow> service \<Rightarrow> http_response" where
  "get_handler l segment rq s =
     (case hr_key rq segment of
        Inl r \<Rightarrow> rejection r
      | Inr key \<Rightarrow>
          (case (case hr_db rq of Some e \<Rightarrow> Inl (Internal e) | None \<Rightarrow> get_verification l key (sv_db s)) of
             Inl e \<Rightarrow> error_response e
           | Inr row \<Rightarrow> json_response 200 (Row_Json row)))"

text \<open>The \<open>Json\<close> extractor, then \<open>start_verification\<close>.\<close>

definition post_handler ::
  "deployment \<Rightarrow> rpc \<Rightarrow> nat \<Rightarrow> nat \<Rightarrow> http_request \<Rightarrow> service \<Rightarrow> http_response \<times> service" where
  "post_handler su rpc instant now rq s =
     (case hr_json rq of
        Inl r \<Rightarrow> (rejection r, s)
      | Inr req \<Rightarrow>
          (case start_verification su rpc (hr_db rq = None) (hr_header rq ''authorization'') req instant now s of
             (Inl e, s) \<Rightarrow> (error_response e, s)
           | (Inr (i, hash), s) \<Rightarrow> (json_response 202 (Accepted_Json i hash), s)))"

definition require_bearer_token ::
  "deployment \<Rightarrow> (http_request \<Rightarrow> service \<Rightarrow> http_response \<times> service) \<Rightarrow>
     http_request \<Rightarrow> service \<Rightarrow> http_response \<times> service" where
  "require_bearer_token su next_layer rq s =
     (if \<not> is_authorized (su_api_token su) (hr_header rq ''authorization'')
      then (error_response Unauthorized, s) else next_layer rq s)"

section \<open>The router\<close>

definition quoted :: "string \<Rightarrow> string" where "quoted s = [chr 39] @ s @ [chr 39]"

definition POLICY :: string where
  "POLICY = ''default-src '' @ quoted ''none'' @ ''; script-src '' @ quoted ''self'' @
     ''; style-src '' @ quoted ''self'' @ ''; img-src '' @ quoted ''self'' @ '' data:; font-src '' @ quoted ''self'' @
     ''; connect-src '' @ quoted ''self'' @ ''; base-uri '' @ quoted ''none'' @ ''; form-action '' @ quoted ''self'' @
     ''; frame-ancestors '' @ quoted ''none''"

definition security_headers :: "http_response \<Rightarrow> http_response" where
  "security_headers r =
     insert_header ''referrer-policy'' ''no-referrer''
       (insert_header ''x-content-type-options'' ''nosniff''
         (insert_header ''content-security-policy'' POLICY r))"

definition bare :: "nat \<Rightarrow> http_response" where
  "bare code = \<lparr>hs_status = code, hs_headers = [], hs_body = No_Body\<rparr>"

text \<open>\<open>axum::routing::get\<close> answers HEAD as GET without the body, and other methods with 405.\<close>

definition on_get :: "http_response \<Rightarrow> http_request \<Rightarrow> http_response" where
  "on_get resp rq = (case hr_method rq of
     GET \<Rightarrow> resp | HEAD \<Rightarrow> resp\<lparr>hs_body := No_Body\<rparr> | _ \<Rightarrow> insert_header ''allow'' ''GET,HEAD'' (bare 405))"

definition key_segment :: "string \<Rightarrow> string option" where
  "key_segment path =
     (if starts_with path ''/verify/'' then
        let segment = drop (length ''/verify/'') path in
        if segment \<noteq> [] \<and> CHR ''/'' \<notin> set segment then Some segment else None
      else None)"

definition route ::
  "deployment \<Rightarrow> site \<Rightarrow> rpc \<Rightarrow> nat \<Rightarrow> nat \<Rightarrow> http_request \<Rightarrow> service \<Rightarrow> http_response \<times> service" where
  "route su si rpc instant now rq s =
     (let l = su_libs su; path = hr_path rq in
      if path = ''/'' then (on_get (index l si rq) rq, s)
      else if path = ''/app.css'' then
        (on_get (asset (si_css si) ''text/css; charset=utf-8'' (etag_of l (si_css si)) rq) rq, s)
      else if path = ''/app.js'' then
        (on_get (asset (si_js si) ''text/javascript; charset=utf-8'' (etag_of l (si_js si)) rq) rq, s)
      else if path = ''/fonts/figtree-latin.woff2'' then
        (on_get (asset (si_latin si) ''font/woff2'' (etag_of l (si_latin si)) rq) rq, s)
      else if path = ''/fonts/figtree-latin-ext.woff2'' then
        (on_get (asset (si_latin_ext si) ''font/woff2'' (etag_of l (si_latin_ext si)) rq) rq, s)
      else if path = ''/health'' then (on_get (health rq) rq, s)
      else if path = ''/metrics'' then (on_get (json_response 200 (Metrics_Json (snapshot (sv_metrics s)))) rq, s)
      else if path = ''/verify'' then
        (if hr_method rq = POST then require_bearer_token su (post_handler su rpc instant now) rq s
         else (insert_header ''allow'' ''POST'' (bare 405), s))
      else if path = ''/verifications'' then (on_get (list_handler rq s) rq, s)
      else case key_segment path of
        Some segment \<Rightarrow> (on_get (get_handler l segment rq s) rq, s)
      | None \<Rightarrow> (bare 404, s))"

definition router ::
  "deployment \<Rightarrow> site \<Rightarrow> rpc \<Rightarrow> nat \<Rightarrow> nat \<Rightarrow> http_request \<Rightarrow> service \<Rightarrow> http_response \<times> service" where
  "router su si rpc instant now rq s =
     (case route su si rpc instant now rq s of (resp, s) \<Rightarrow> (security_headers resp, s))"

section \<open>Who can change anything\<close>

lemma route_reads:
  assumes "hr_method rq \<noteq> POST \<or> hr_path rq \<noteq> ''/verify''"
  shows "snd (route su si rpc instant now rq s) = s"
  using assms by (auto simp: route_def Let_def split: option.splits)

lemma route_post:
  assumes "hr_method rq = POST" and "hr_path rq = ''/verify''"
  shows "route su si rpc instant now rq s = require_bearer_token su (post_handler su rpc instant now) rq s"
  using assms by (simp add: route_def)

lemma security_headers_status [simp]: "hs_status (security_headers r) = hs_status r" "hs_body (security_headers r) = hs_body r"
  by (simp_all add: security_headers_def insert_header_def)

lemma router_response: "fst (router su si rpc instant now rq s) = security_headers (fst (route su si rpc instant now rq s))"
  by (simp add: router_def split: prod.splits)

text \<open>
  Property C35. The gate stands before the body. A request changes the service only if it is a POST to
  /verify, its Authorization header carries the token and its body parses as a request; and an
  unauthorised POST to /verify is answered 401 with the one message whatever its body is, so nothing
  of the deserialiser's answer reaches a stranger.
\<close>

theorem gate_before_body:
  "if hr_method rq = POST \<and> hr_path rq = ''/verify''
   then if is_authorized (su_api_token su) (hr_header rq ''authorization'')
     then is_ok (hr_json rq) \<or> snd (router su si rpc instant now rq s) = s
     else snd (router su si rpc instant now rq s) = s \<and> hs_status (fst (router su si rpc instant now rq s)) = 401 \<and>
       router su si rpc instant now rq s = router su si rpc instant now (rq\<lparr>hr_json := j\<rparr>) s
   else snd (router su si rpc instant now rq s) = s"
proof (cases "hr_method rq = POST \<and> hr_path rq = ''/verify''")
  case False
  then have "snd (route su si rpc instant now rq s) = s" by (intro route_reads) simp
  with False show ?thesis by (auto simp: router_def split: prod.splits)
next
  case True
  then have r: "route su si rpc instant now rq s = require_bearer_token su (post_handler su rpc instant now) rq s"
    and rj: "route su si rpc instant now (rq\<lparr>hr_json := j\<rparr>) s =
      require_bearer_token su (post_handler su rpc instant now) (rq\<lparr>hr_json := j\<rparr>) s"
    by (simp_all add: route_post)
  show ?thesis
  proof (cases "is_authorized (su_api_token su) (hr_header rq ''authorization'')")
    case False
    with True show ?thesis
      by (simp add: router_def r rj require_bearer_token_def error_response_def into_response_def json_response_def)
  next
    case auth: True
    with True show ?thesis
      by (cases "hr_json rq") (simp_all add: router_def r require_bearer_token_def post_handler_def)
  qed
qed

section \<open>Headers\<close>

lemma insert_header_get: "map_of (hs_headers (insert_header h v r)) k = (if k = h then Some v else map_of (hs_headers r) k)"
proof -
  have "map_of (filter (\<lambda>(k, _). k \<noteq> h) xs) k = (if k = h then None else map_of xs k)" for xs :: "(string \<times> string) list"
    by (induction xs) auto
  then show ?thesis by (simp add: insert_header_def map_add_def split: option.splits)
qed

lemma insert_header_distinct:
  "distinct (map fst (hs_headers r)) \<Longrightarrow> distinct (map fst (hs_headers (insert_header h v r)))"
  by (auto simp: insert_header_def distinct_map_filter)

definition plain_headers :: "http_response \<Rightarrow> bool" where
  "plain_headers r \<longleftrightarrow> distinct (map fst (hs_headers r))"

lemma plain_intros:
  "plain_headers (json_response c b)" "plain_headers (rejection j)" "plain_headers (bare c)"
  "plain_headers (asset body ty etag rq)" "plain_headers (error_response e)"
  "plain_headers r \<Longrightarrow> plain_headers (insert_header h v r)" "plain_headers r \<Longrightarrow> plain_headers (r\<lparr>hs_body := b\<rparr>)"
proof -
  show ins: "plain_headers r \<Longrightarrow> plain_headers (insert_header h v r)" for r h v
    by (simp add: plain_headers_def insert_header_distinct)
  show j: "plain_headers (json_response c b)" for c b by (simp add: plain_headers_def json_response_def)
  show "plain_headers (error_response e)"
    by (auto simp: error_response_def Let_def intro!: ins j split: prod.splits option.splits)
qed (simp_all add: plain_headers_def rejection_def bare_def asset_def Let_def)

lemma plain_on_get: "plain_headers r \<Longrightarrow> plain_headers (on_get r rq)"
  by (auto simp: on_get_def intro!: plain_intros split: http_method.splits)

lemma plain_route: "plain_headers (fst (route su si rpc instant now rq s))"
proof -
  have "plain_headers (list_handler rq s)" "plain_headers (get_handler l segment rq s)" for l segment
    unfolding list_handler_def get_handler_def by (auto intro!: plain_intros split: sum.splits prod.splits)
  moreover have "plain_headers (index l si rq)" "plain_headers (health rq)" for l
    unfolding index_def health_def by (auto intro!: plain_intros split: option.splits)
  moreover have "plain_headers (fst (require_bearer_token su (post_handler su rpc instant now) rq s))"
    unfolding require_bearer_token_def post_handler_def by (auto intro!: plain_intros split: sum.splits prod.splits)
  ultimately show ?thesis
    unfolding route_def Let_def by (auto intro!: plain_on_get plain_intros split: option.splits)
qed

text \<open>
  Hardened responses. Every response, on any route, method and outcome, unknown paths and
  errors included, carries the content security policy (only own scripts and styles, no inline code, no
  framing), nosniff and no-referrer, and no header of it is repeated.
\<close>

theorem responses_hardened:
  "map_of (hs_headers (fst (router su si rpc instant now rq s))) ''content-security-policy'' = Some POLICY \<and>
   map_of (hs_headers (fst (router su si rpc instant now rq s))) ''x-content-type-options'' = Some ''nosniff'' \<and>
   map_of (hs_headers (fst (router su si rpc instant now rq s))) ''referrer-policy'' = Some ''no-referrer'' \<and>
   distinct (map fst (hs_headers (fst (router su si rpc instant now rq s)))) \<and>
   contains POLICY (''default-src '' @ quoted ''none'') \<and> \<not> contains POLICY ''unsafe''"
proof -
  have "plain_headers (security_headers (fst (route su si rpc instant now rq s)))"
    unfolding security_headers_def by (intro plain_intros plain_route)
  moreover have "contains POLICY (''default-src '' @ quoted ''none'')" "\<not> contains POLICY ''unsafe''" by code_simp+
  moreover have "map_of (hs_headers (security_headers r)) ''content-security-policy'' = Some POLICY"
    "map_of (hs_headers (security_headers r)) ''x-content-type-options'' = Some ''nosniff''"
    "map_of (hs_headers (security_headers r)) ''referrer-policy'' = Some ''no-referrer''" for r
    by (simp_all add: security_headers_def insert_header_get)
  ultimately show ?thesis unfolding router_response plain_headers_def by blast
qed

section \<open>The table of statuses\<close>

lemma status_simps [simp]:
  "hs_status (json_response c b) = c" "hs_status (rejection j) = fst j" "hs_status (bare c) = c"
  "hs_status (insert_header h v r) = hs_status r"
  "hs_status (error_response e) = fst (into_response e)"
  by (auto simp: json_response_def rejection_def bare_def insert_header_def error_response_def Let_def
      split: prod.splits option.splits)

text \<open>What is served for reading: other methods are not allowed there.\<close>

definition reading :: "http_request \<Rightarrow> nat \<Rightarrow> nat" where
  "reading rq code = (if hr_method rq = GET \<or> hr_method rq = HEAD then code else 405)"

definition site_files :: "site \<Rightarrow> (string \<times> bytes) list" where
  "site_files si = [(''/app.css'', si_css si), (''/app.js'', si_js si), (''/fonts/figtree-latin.woff2'', si_latin si),
     (''/fonts/figtree-latin-ext.woff2'', si_latin_ext si)]"

text \<open>
  The row a key names, among those stored: by id if the key is a number, else by contract or hash.
\<close>

definition names_row :: "libs \<Rightarrow> string \<Rightarrow> job_status verification_row \<Rightarrow> bool" where
  "names_row l key r = (case parse_i64 key of Some i \<Rightarrow> vr_id r = i
     | None \<Rightarrow> vr_contract_id r = Some key \<or> vr_wasm_hash r = lib_lowercase l key)"

definition key_status :: "libs \<Rightarrow> string \<Rightarrow> http_request \<Rightarrow> service \<Rightarrow> nat" where
  "key_status l segment rq s = (case hr_key rq segment of
     Inl (code, _) \<Rightarrow> code
   | Inr key \<Rightarrow> if hr_db rq \<noteq> None then 500 else if list_ex (names_row l key) (view (sv_db s)) then 200 else 404)"

text \<open>A submission: 400 for a bad question, 404 for a contract that is not there, 429 for too much.\<close>

definition question_status :: "rpc \<Rightarrow> string \<Rightarrow> verify_request \<Rightarrow> nat" where
  "question_status rpc url req = (case (vq_contract_id req, vq_wasm_hash req) of
     (None, None) \<Rightarrow> 400
   | (None, Some _) \<Rightarrow> 202
   | (Some contract, _) \<Rightarrow>
       if rpc_thread rpc \<noteq> None then 500
       else case fetch_executable rpc url contract of
         Inr (Some (Wasm _)) \<Rightarrow> 202 | Inr None \<Rightarrow> 404 | _ \<Rightarrow> 400)"

definition post_status :: "deployment \<Rightarrow> rpc \<Rightarrow> nat \<Rightarrow> http_request \<Rightarrow> service \<Rightarrow> nat" where
  "post_status su rpc instant rq s =
     (let auth = hr_header rq ''authorization'' in
      if \<not> is_authorized (su_api_token su) auth then 401
      else case hr_json rq of
        Inl (code, _) \<Rightarrow> code
      | Inr req \<Rightarrow>
          if \<not> is_ok (fst (check_at (sv_limiter s) (rate_limit_key (su_api_token su) auth) instant)) then 429
          else if \<not> is_ok (parse_source req) then 400
          else if 16 \<le> outstanding s then 429
          else if question_status rpc (su_rpc_url su) req = 202 \<and> hr_db rq \<noteq> None then 500
          else question_status rpc (su_rpc_url su) req)"

definition list_status :: "http_request \<Rightarrow> nat" where
  "list_status rq = (case hr_query rq of Inl (code, _) \<Rightarrow> code | Inr _ \<Rightarrow> if hr_db rq = None then 200 else 500)"

definition file_status :: "libs \<Rightarrow> bytes \<Rightarrow> http_request \<Rightarrow> nat" where
  "file_status l body rq = (if known_to_client (etag_of l body) rq then 304 else 200)"

definition status_of :: "deployment \<Rightarrow> site \<Rightarrow> rpc \<Rightarrow> nat \<Rightarrow> http_request \<Rightarrow> service \<Rightarrow> nat" where
  "status_of su si rpc instant rq s =
     (let l = su_libs su; path = hr_path rq in
      if path = ''/verify'' then (if hr_method rq = POST then post_status su rpc instant rq s else 405)
      else if path = ''/'' then reading rq (if wants_html rq then file_status l (si_index si) rq else 200)
      else if path = ''/health'' then reading rq (if hr_db rq = None then 200 else 503)
      else if path = ''/metrics'' then reading rq 200
      else if path = ''/verifications'' then reading rq (list_status rq)
      else case map_of (site_files si) path of
        Some body \<Rightarrow> reading rq (file_status l body rq)
      | None \<Rightarrow> (case key_segment path of Some segment \<Rightarrow> reading rq (key_status l segment rq s) | None \<Rightarrow> 404))"

lemma on_get_status: "hs_status (on_get r rq) = reading rq (hs_status r)"
  by (cases "hr_method rq") (simp_all add: on_get_def reading_def)

lemma asset_status: "hs_status (asset body ty (etag_of l body) rq) = file_status l body rq"
  by (simp add: asset_def file_status_def Let_def)

lemma index_status: "hs_status (index l si rq) = (if wants_html rq then file_status l (si_index si) rq else 200)"
  by (simp add: index_def asset_status)

lemma expected_hash_answer:
  "(case expected_hash l rpc url req of Inl e \<Rightarrow> fst (into_response e) | Inr _ \<Rightarrow> 202) = question_status rpc url req"
  by (auto simp: expected_hash_def question_status_def into_response_def split: option.split sum.split executable.split)

lemma question_refused: "expected_hash l rpc url req = Inl e \<Longrightarrow> question_status rpc url req = fst (into_response e)"
  and question_answered: "expected_hash l rpc url req = Inr hash \<Longrightarrow> question_status rpc url req = 202"
  using expected_hash_answer [of l rpc url req] by simp_all

lemma question_not_202: "expected_hash l rpc url req = Inl e \<Longrightarrow> fst (into_response e) \<noteq> 202"
  by (auto dest: expected_hash_status)

text \<open>The status of the whole handler, along its guards.\<close>

lemma start_verification_status:
  assumes "start_verification su rpc db_ok auth req instant now s = (r, s')"
  shows "(case r of Inl e \<Rightarrow> fst (into_response e) | Inr _ \<Rightarrow> 202) =
    (if \<not> is_authorized (su_api_token su) auth then 401
     else if \<not> is_ok (fst (check_at (sv_limiter s) (rate_limit_key (su_api_token su) auth) instant)) then 429
     else if \<not> is_ok (parse_source req) then 400
     else if 16 \<le> outstanding s then 429
     else if question_status rpc (su_rpc_url su) req = 202 \<and> \<not> db_ok then 500
     else question_status rpc (su_rpc_url su) req)"
proof (cases "admit su auth req instant s")
  case (Pair a s1)
  show ?thesis
  proof (cases a)
    case (Inl e)
    with Pair assms have "r = Inl e" by (simp add: start_verification_def)
    with Pair Inl show ?thesis
      by (auto simp: admit_def Let_def MAX_OUTSTANDING_JOBS_def outstanding_def into_response_def is_ok_iff
          parse_source_def rbind_def ok_or_def split: if_splits prod.splits sum.splits option.splits)
  next
    case (Inr source)
    note A = admit_Inr [OF Pair [unfolded Inr]]
    then have gates: "is_authorized (su_api_token su) auth" "is_ok (parse_source req)" "\<not> 16 \<le> outstanding s"
      "is_ok (fst (check_at (sv_limiter s) (rate_limit_key (su_api_token su) auth) instant))"
      by (simp_all add: MAX_OUTSTANDING_JOBS_def)
    show ?thesis
    proof (cases "expected_hash (su_libs su) rpc (su_rpc_url su) req")
      case (Inl e)
      with Pair \<open>a = Inr source\<close> assms have "r = Inl e" by (simp add: start_verification_def)
      with gates question_refused [OF Inl] question_not_202 [OF Inl] show ?thesis by simp
    next
      case (Inr hash)
      with Pair \<open>a = Inr source\<close> assms have "accept_job su now db_ok (req, source) hash s1 = (r, s')"
        by (simp add: start_verification_def)
      then have "r = (if db_ok then r else Inl (Internal ''inserting pending verification''))" "db_ok \<Longrightarrow> is_ok r"
        by (auto simp: accept_job_def Let_def split: if_splits prod.splits)
      with gates question_answered [OF Inr] show ?thesis
        by (cases db_ok) (auto simp: into_response_def is_ok_iff)
    qed
  qed
qed

lemma post_answer:
  "hs_status (fst (require_bearer_token su (post_handler su rpc instant now) rq s)) = post_status su rpc instant rq s"
proof (cases "hr_json rq")
  case (Inl j)
  then show ?thesis
    by (cases j) (simp add: require_bearer_token_def post_handler_def post_status_def into_response_def)
next
  case (Inr req)
  obtain r s' where run: "start_verification su rpc (hr_db rq = None) (hr_header rq ''authorization'') req instant now s = (r, s')"
    by (meson surj_pair)
  have "hs_status (fst (post_handler su rpc instant now rq s)) = (case r of Inl e \<Rightarrow> fst (into_response e) | Inr _ \<Rightarrow> 202)"
    by (simp add: post_handler_def Inr run split: sum.split prod.split)
  then show ?thesis unfolding start_verification_status [OF run]
    by (simp add: require_bearer_token_def post_status_def Inr into_response_def [of Unauthorized])
qed

lemma find_list_ex: "(find p xs = None) = (\<not> list_ex p xs)"
  by (auto simp: find_None_iff list_ex_iff)

lemma get_answer:
  assumes "db_inv (sv_db s)"
  shows "hs_status (get_handler l segment rq s) = key_status l segment rq s"
proof (cases "hr_key rq segment")
  case (Inl r)
  then show ?thesis by (cases r) (simp add: get_handler_def key_status_def)
next
  case (Inr key)
  have "(case parse_i64 key of Some i \<Rightarrow> get_row i (sv_db s) | None \<Rightarrow> lookup l key (sv_db s)) =
      Inr (find (names_row l key) (view (sv_db s)))"
    by (simp add: view_get [OF assms] view_lookup [OF assms] names_row_def [abs_def] split: option.split)
  then have "get_verification l key (sv_db s) = ok_or (Not_Found ''not_found'') (find (names_row l key) (view (sv_db s)))"
    by (simp add: get_verification_def)
  then show ?thesis using find_list_ex [of "names_row l key" "view (sv_db s)"]
    by (auto simp: get_handler_def key_status_def Inr ok_or_def into_response_def split: option.splits)
qed

lemma list_answer:
  assumes "db_inv (sv_db s)"
  shows "hs_status (list_handler rq s) = list_status rq"
proof -
  have "\<exists>items. list_verifications limit offset (sv_db s) = Inr items" for limit offset
    using assms by (auto simp: list_verifications_def view_recent Let_def)
  then show ?thesis
    by (auto simp: list_handler_def list_status_def into_response_def split: sum.splits option.splits prod.splits)
      (metis sum.distinct(1))
qed

text \<open>A status that is not the service's own: axum's, for a body, a query or a path it cannot read.\<close>

definition rejects :: "http_request \<Rightarrow> nat \<Rightarrow> bool" where
  "rejects rq code \<longleftrightarrow> (\<exists>m. hr_json rq = Inl (code, m)) \<or> (\<exists>m. hr_query rq = Inl (code, m)) \<or>
     (\<exists>key m. hr_key rq key = Inl (code, m))"

text \<open>What can be said of every status the table has.\<close>

definition accounted :: "rpc \<Rightarrow> http_request \<Rightarrow> nat \<Rightarrow> bool" where
  "accounted rpc rq code \<longleftrightarrow>
     (500 \<le> code \<longrightarrow> hr_db rq \<noteq> None \<or> rpc_thread rpc \<noteq> None \<or> rejects rq code) \<and>
     (code \<in> {200, 202, 304, 400, 401, 404, 405, 429, 500, 503} \<or> rejects rq code)"

lemma accounted_basic:
  "accounted rpc rq 200" "accounted rpc rq 202" "accounted rpc rq 304" "accounted rpc rq 400" "accounted rpc rq 401"
  "accounted rpc rq 404" "accounted rpc rq 405" "accounted rpc rq 429"
  "accounted rpc rq c \<Longrightarrow> accounted rpc rq (reading rq c)"
  "hr_db rq \<noteq> None \<or> rpc_thread rpc \<noteq> None \<Longrightarrow> accounted rpc rq 500"
  by (auto simp: accounted_def reading_def)

lemma accounted_question: "accounted rpc rq (question_status rpc url req)"
  by (auto simp: question_status_def accounted_basic split: option.split sum.split executable.split)

lemma accounted_post: "accounted rpc rq (post_status su rpc instant rq s)"
proof (cases "hr_json rq")
  case (Inl j)
  obtain code m where j: "j = (code, m)" by (cases j)
  then have "accounted rpc rq code" using Inl by (auto simp: accounted_def rejects_def)
  then show ?thesis by (simp add: post_status_def Inl j Let_def accounted_basic)
next
  case (Inr req)
  then show ?thesis by (simp add: post_status_def Let_def accounted_basic accounted_question)
qed

lemma accounted_key: "accounted rpc rq (key_status l segment rq s)"
  by (cases "hr_key rq segment") (auto simp: key_status_def accounted_def rejects_def)

lemma accounted_list: "accounted rpc rq (list_status rq)"
  by (cases "hr_query rq") (auto simp: list_status_def accounted_def rejects_def)

lemma accounted_file: "accounted rpc rq (file_status l body rq)"
  by (simp add: file_status_def accounted_basic)

lemma accounted_health: "accounted rpc rq (if hr_db rq = None then 200 else 503)"
  by (simp add: accounted_def)

lemma accounted_status: "accounted rpc rq (status_of su si rpc instant rq s)"
  by (simp add: status_of_def Let_def accounted_basic accounted_post accounted_key accounted_list accounted_file
      accounted_health del: if_split split: if_split_asm option.split)

text \<open>
  Property C36. The status of every response. In every reachable state the router answers every request,
  on any path and with any method, with exactly the status of the table: 404 for an unknown path and
  405 for another method than the path has; 200 for what can be read, or 304 if the client has it; 404 for
  a key that names no stored row; for a submission 401 before anything else, then axum's refusal of the
  body, then 429, 400 and 404 in the order of the handler, and 202; 500 and 503 only when SQLite fails or
  the thread of a lookup panics, since every row any interleaving ever stored is one the reads can parse.
  So the statuses are the ten of the documented set, or one axum rejects a request with.
\<close>

theorem every_status:
  assumes "reachable su s"
  shows "hs_status (fst (router su si rpc instant now rq s)) = status_of su si rpc instant rq s \<and>
    (500 \<le> status_of su si rpc instant rq s \<longrightarrow>
      hr_db rq \<noteq> None \<or> rpc_thread rpc \<noteq> None \<or> rejects rq (status_of su si rpc instant rq s)) \<and>
    (status_of su si rpc instant rq s \<in> {200, 202, 304, 400, 401, 404, 405, 429, 500, 503} \<or>
      rejects rq (status_of su si rpc instant rq s))"
proof -
  have inv: "db_inv (sv_db s)" by (rule service_invD(8) [OF reachable_inv [OF assms]])
  have "hs_status (fst (route su si rpc instant now rq s)) = status_of su si rpc instant rq s"
    unfolding route_def status_of_def Let_def site_files_def
    by (auto simp: on_get_status asset_status index_status health_def post_answer get_answer [OF inv] list_answer [OF inv]
        split: option.split)
  then show ?thesis using accounted_status [of rpc rq su si instant s] by (simp add: router_response accounted_def)
qed

definition demo_rq :: http_request where
  "demo_rq = \<lparr>hr_method = GET, hr_path = ''/verify/9'', hr_header = (\<lambda>_. None), hr_json = Inl (400, ''''),
     hr_query = Inr (None, None), hr_key = (\<lambda>k. Inr k), hr_db = None\<rparr>"

theorem every_status_witness:
  "hs_status (fst (router demo_su \<lparr>si_index = [], si_css = [], si_js = [], si_latin = [], si_latin_ext = []\<rparr>
     demo_rpc 0 0 demo_rq started)) = 404"
proof -
  have "key_segment ''/verify/9'' = Some ''9''" by code_simp
  moreover have "view (sv_db started) = []" by (simp add: started_def app_state_new_def empty_db_def view_def)
  ultimately show ?thesis
    using every_status [OF demo_reachable(1)] 
    by (simp add: status_of_def demo_rq_def site_files_def reading_def key_status_def)
qed

end
