(* ===== verification/Cli.thy ===== *)
theory Cli
  imports ServiceRuns
begin

text \<open>
  The command line \<open>crates/verifier-core/src/bin/verify-core.rs\<close>: the arguments, the request they make,
  what is printed and the exit code, and \<open>BuildMetadata\<close> of \<open>lib.rs\<close>. Parsing of the command line is
  clap's; its documented constraints are \<open>clap_accepts\<close>. The formats of Rust's floats, of a path and of
  serde's JSON are parameters.
\<close>

section \<open>Arguments\<close>

record cli_args =
  ca_repo :: "string option"
  ca_rev :: "string option"
  ca_source_uri :: "string option"
  ca_source_sha256 :: "string option"
  ca_bldimg :: string
  ca_bldopt :: "string list"
  ca_wasm_hash :: string
  ca_timeout :: nat
  ca_allow_unpinned :: bool
  ca_emit_wasm :: "string option"
  ca_json :: bool

text \<open>The required group of exactly one source, and the two \<open>requires\<close>.\<close>

definition clap_accepts :: "cli_args \<Rightarrow> bool" where
  "clap_accepts a \<longleftrightarrow> (ca_repo a = None \<longleftrightarrow> ca_source_uri a \<noteq> None) \<and>
     (ca_rev a \<noteq> None \<longrightarrow> ca_repo a \<noteq> None) \<and> (ca_source_uri a \<noteq> None \<longrightarrow> ca_source_sha256 a \<noteq> None)"

text \<open>How the source match of \<open>main\<close> ends: a source, exit code 2, or the panic of \<open>expect\<close>.\<close>

datatype cli_source = Source source_ref | Refused | Panicked

definition cli_source_of :: "cli_args \<Rightarrow> cli_source" where
  "cli_source_of a =
     (case (ca_repo a, ca_source_uri a) of
        (Some repo, None) \<Rightarrow> Source (Git repo (case ca_rev a of Some r \<Rightarrow> r | None \<Rightarrow> ''HEAD''))
      | (None, Some uri) \<Rightarrow>
          (case ca_source_sha256 a of Some sha \<Rightarrow> Source (Archive uri sha) | None \<Rightarrow> Panicked)
      | _ \<Rightarrow> Refused)"

text \<open>Seconds become the milliseconds of the engine's clock.\<close>

definition cli_request :: "cli_args \<Rightarrow> source_ref \<Rightarrow> request" where
  "cli_request a source =
     \<lparr>rq_source = source, rq_bldimg = ca_bldimg a, rq_bldopt = ca_bldopt a, rq_expected = ca_wasm_hash a,
      rq_timeout = ca_timeout a * 1000, rq_allow_unpinned = ca_allow_unpinned a, rq_emit_wasm = ca_emit_wasm a\<rparr>"

section \<open>Output\<close>

record printing =
  pr_seconds :: "nat \<Rightarrow> string"
  pr_json :: "report \<Rightarrow> string"
  pr_error :: "verify_error \<Rightarrow> string"

definition trust_name :: "trust_level \<Rightarrow> string" where
  "trust_name t = (case t of Arbitrary \<Rightarrow> ''Arbitrary'' | Publicly_Auditable \<Rightarrow> ''PubliclyAuditable''
     | Sdf_Maintained \<Rightarrow> ''SdfMaintained'')"

definition report_lines :: "printing \<Rightarrow> string \<Rightarrow> report \<Rightarrow> string list" where
  "report_lines pr verdict rep =
     [[], ''  result:    '' @ verdict, ''  expected:  '' @ rp_expected rep, ''  rebuilt:   '' @ rp_rebuilt rep,
      ''  artifact:  '' @ rp_artifact rep @ '' ('' @ show_nat (rp_wasm_size rep) @ '' bytes)'',
      ''  bldimg:    '' @ rp_bldimg rep] @
     (case rp_bldimg_digest rep of None \<Rightarrow> [] | Some digest \<Rightarrow> [''  digest:    '' @ digest]) @
     (if rp_bldopt rep \<noteq> [] then [''  bldopt:    '' @ join '' '' (rp_bldopt rep)] else []) @
     [''  source:    sha256:'' @ rp_source_sha256 rep, ''  trust:     '' @ trust_name (rp_trust_level rep),
      ''  build:     '' @ pr_seconds pr (rp_build_time rep) @ ''s'', []]"

definition print_report :: "printing \<Rightarrow> report \<Rightarrow> string list" where
  "print_report pr rep =
     (case rp_result rep of
        Result_Verified \<Rightarrow> report_lines pr ''VERIFIED'' rep
      | Result_Mismatch \<Rightarrow> report_lines pr ''MISMATCH'' rep
      | Result_Pending \<Rightarrow> [''Pending'']
      | Result_Error \<Rightarrow> [''Error''])"

text \<open>What the operator can do about a failure: nothing, the build log, or one of two hints.\<close>

datatype advice = No_Advice | Build_Log string | Daemon_Hint | Pin_Hint

definition report_error :: "verify_error \<Rightarrow> advice" where
  "report_error e =
     (case e of
        BuildFailed _ build_log \<Rightarrow> Build_Log (trim_end build_log)
      | Docker _ \<Rightarrow> Daemon_Hint
      | UnpinnedImage _ \<Rightarrow> Pin_Hint
      | _ \<Rightarrow> No_Advice)"

section \<open>Main\<close>

text \<open>Exit code, standard output and the error reported, if any. A panic exits with 101.\<close>

record cli_end =
  ce_code :: nat
  ce_stdout :: "string list"
  ce_error :: "(string \<times> advice) option"

definition cli_main :: "printing \<Rightarrow> env \<Rightarrow> libs \<Rightarrow> cli_args \<Rightarrow> world \<Rightarrow> cli_end \<times> world" where
  "cli_main pr env l a w =
     (case cli_source_of a of
        Panicked \<Rightarrow> (\<lparr>ce_code = 101, ce_stdout = [], ce_error = None\<rparr>, w)
      | Refused \<Rightarrow> (\<lparr>ce_code = 2, ce_stdout = [],
          ce_error = Some (''pass exactly one of --repo or --source-uri'', No_Advice)\<rparr>, w)
      | Source source \<Rightarrow>
          (case reproduce env l (autodetect env) (cli_request a source) w of
             (Inr rep, w) \<Rightarrow>
               (\<lparr>ce_code = (case rp_result rep of Result_Verified \<Rightarrow> 0 | _ \<Rightarrow> 1),
                 ce_stdout = (if ca_json a then [pr_json pr rep] else print_report pr rep), ce_error = None\<rparr>, w)
           | (Inl e, w) \<Rightarrow>
               (\<lparr>ce_code = 2, ce_stdout = [], ce_error = Some (pr_error pr e, report_error e)\<rparr>, w)))"

section \<open>Build metadata\<close>

record build_metadata =
  bm_bldimg :: string
  bm_bldopt :: "string list"
  bm_source_uri :: "string option"
  bm_source_sha256 :: string

definition metadata_source :: "build_metadata \<Rightarrow> source_ref option" where
  "metadata_source m = map_option (\<lambda>uri. Archive uri (bm_source_sha256 m)) (bm_source_uri m)"

section \<open>The exit code\<close>

lemma clap_source: "clap_accepts a \<Longrightarrow> \<exists>source. cli_source_of a = Source source"
  by (auto simp: clap_accepts_def cli_source_of_def split: option.splits)

lemma reproduce_result:
  assumes "reproduce env l d rq w = (Inr rep, w')"
  shows "rp_result rep = (if rp_rebuilt rep = rp_expected rep then Result_Verified else Result_Mismatch)"
    and "rp_expected rep = lib_lowercase l (rq_expected rq)"
  using reproduce_seen [OF assms] by (auto simp: report_ok_def)

text \<open>
  Property C40. The exit code can be branched on. On any command line clap accepts, the program does
  not panic and runs the engine on the request the arguments describe; it exits with 0 exactly when
  the rebuilt hash is the lower-cased hash it was given, 1 exactly when a report says otherwise, and
  2 with an error exactly when there is no report. The service would record that same run as
  verified, mismatch and error respectively.
\<close>

theorem exit_code_sound:
  assumes "clap_accepts a"
  shows "\<exists>source r w'. cli_source_of a = Source source \<and>
    reproduce env l (autodetect env) (cli_request a source) w = (r, w') \<and> snd (cli_main pr env l a w) = w' \<and>
    (ce_code (fst (cli_main pr env l a w)) = 0 \<longleftrightarrow>
       (\<exists>rep. r = Inr rep \<and> rp_rebuilt rep = lib_lowercase l (ca_wasm_hash a))) \<and>
    (ce_code (fst (cli_main pr env l a w)) = 1 \<longleftrightarrow>
       (\<exists>rep. r = Inr rep \<and> rp_rebuilt rep \<noteq> lib_lowercase l (ca_wasm_hash a))) \<and>
    (ce_code (fst (cli_main pr env l a w)) = 2 \<longleftrightarrow> \<not> is_ok r) \<and>
    (ce_error (fst (cli_main pr env l a w)) = None \<longleftrightarrow> is_ok r) \<and>
    ce_code (fst (cli_main pr env l a w)) =
      (case end_outcome (engine_end su r) of Verified_Outcome \<Rightarrow> 0 | Mismatch_Outcome \<Rightarrow> 1 | Errored_Outcome \<Rightarrow> 2)"
proof -
  obtain source where src: "cli_source_of a = Source source" using clap_source [OF assms] ..
  obtain r w' where run: "reproduce env l (autodetect env) (cli_request a source) w = (r, w')"
    by (cases "reproduce env l (autodetect env) (cli_request a source) w")
  have end_: "cli_main pr env l a w = (case r of
      Inr rep \<Rightarrow> (\<lparr>ce_code = (case rp_result rep of Result_Verified \<Rightarrow> 0 | _ \<Rightarrow> 1),
         ce_stdout = (if ca_json a then [pr_json pr rep] else print_report pr rep), ce_error = None\<rparr>, w')
    | Inl e \<Rightarrow> (\<lparr>ce_code = 2, ce_stdout = [], ce_error = Some (pr_error pr e, report_error e)\<rparr>, w'))"
    by (cases r) (simp_all add: cli_main_def src run)
  show ?thesis
  proof (cases r)
    case (Inl e)
    then show ?thesis using src run by (simp add: end_ engine_end_def)
  next
    case (Inr rep)
    have "rq_expected (cli_request a source) = ca_wasm_hash a" by (simp add: cli_request_def)
    with reproduce_result [OF run [unfolded Inr]]
    have "rp_result rep = (if rp_rebuilt rep = lib_lowercase l (ca_wasm_hash a) then Result_Verified else Result_Mismatch)"
      by simp
    then show ?thesis using Inr src run by (simp add: end_ engine_end_def outcome_status_def)
  qed
qed

definition demo_args :: cli_args where
  "demo_args = \<lparr>ca_repo = Some ''/repo'', ca_rev = Some ''abc'', ca_source_uri = None, ca_source_sha256 = None,
     ca_bldimg = ''img@sha256:12'', ca_bldopt = [], ca_wasm_hash = sha256_hex hex_libs ''release/x.wasm'',
     ca_timeout = 900, ca_allow_unpinned = False, ca_emit_wasm = None, ca_json = False\<rparr>"

definition demo_printing :: printing where
  "demo_printing = \<lparr>pr_seconds = (\<lambda>_. ''0.0''), pr_json = (\<lambda>_. ''{}''), pr_error = (\<lambda>_. ''e'')\<rparr>"

theorem exit_code_sound_witness:
  "ce_code (fst (cli_main demo_printing demo_machine hex_libs demo_args demo_start)) = 0"
proof -
  have acc: "clap_accepts demo_args" by (simp add: clap_accepts_def demo_args_def)
  have docker: "autodetect demo_machine = docker_local"
    by (simp add: autodetect_def demo_machine_def demo_env_def)
  have codecs: "demo_codecs hex_libs" unfolding hex_libs_def by (rule demo_codecs_update)
  have "contains ''img@sha256:12'' ''@sha256:''" by code_simp
  then have "demo_question hex_libs (cli_request demo_args (Git ''/repo'' ''abc''))"
    by (simp add: demo_question_def cli_request_def demo_args_def demo_hash)
  from demo_reproduces [OF codecs this] obtain rep w' where
    run: "reproduce demo_machine hex_libs docker_local (cli_request demo_args (Git ''/repo'' ''abc'')) demo_start = (Inr rep, w')"
    and rep: "demo_report hex_libs rep" by blast
  from exit_code_sound [OF acc, of demo_machine hex_libs demo_start demo_printing] obtain source r w'' where
    src: "cli_source_of demo_args = Source source"
    and r: "reproduce demo_machine hex_libs (autodetect demo_machine) (cli_request demo_args source) demo_start = (r, w'')"
    and code: "ce_code (fst (cli_main demo_printing demo_machine hex_libs demo_args demo_start)) = 0 \<longleftrightarrow>
      (\<exists>rep. r = Inr rep \<and> rp_rebuilt rep = lib_lowercase hex_libs (ca_wasm_hash demo_args))" by blast
  have "source = Git ''/repo'' ''abc''" using src by (simp add: cli_source_of_def demo_args_def)
  with r run have "r = Inr rep" by (simp add: docker)
  moreover have "lib_lowercase hex_libs (ca_wasm_hash demo_args) = rp_rebuilt rep"
    using rep by (simp add: demo_args_def demo_hash demo_report_def)
  ultimately show ?thesis unfolding code by simp
qed

end
