(* ===== verification/Keystore.thy ===== *)
theory Keystore
  imports OutboxProps "HOL-Library.AList"
begin

text \<open>
  The private keystore of the attestation path, \<open>Signer::provision\<close> of \<open>crates/api/src/attest.rs\<close>: the
  secret is read, a directory holding one identity is built and closed to everyone else, and the CLI
  is asked for the address. A disk is an association list from paths to nodes; any operation may
  fail. What creating a directory leaves behind when it fails half way is not modelled.
\<close>

section \<open>A disk\<close>

text \<open>Modes are the nine permission bits.\<close>

datatype node = Folder nat | Plain nat string

type_synonym disk = "(string \<times> node) list"

definition path_join :: "string \<Rightarrow> string \<Rightarrow> string" where
  "path_join dir name = (if dir = [] \<or> ends_with dir ''/'' then dir @ name else dir @ ''/'' @ name)"

text \<open>The names directly below a directory.\<close>

definition children :: "disk \<Rightarrow> string \<Rightarrow> string list" where
  "children d dir = filter (\<lambda>nm. nm \<noteq> [] \<and> CHR ''/'' \<notin> set nm)
     (map (\<lambda>(p, _). drop (length (path_join dir [])) p) (filter (\<lambda>(p, _). starts_with p (path_join dir [])) d))"

text \<open>A path and the directories above it, outermost first.\<close>

definition folders_of :: "string \<Rightarrow> string list" where
  "folders_of p = filter (\<lambda>q. q \<noteq> []) (map (\<lambda>n. take n p)
     (filter (\<lambda>n. n = length p \<or> p ! n = CHR ''/'') [0..<Suc (length p)]))"

definition set_node :: "string \<Rightarrow> node \<Rightarrow> disk \<Rightarrow> disk" where "set_node p x d = AList.update p x d"

text \<open>Modes of new files and directories, as the umask leaves them.\<close>

record umask =
  um_dir :: nat
  um_file :: nat

definition make_dirs :: "umask \<Rightarrow> string \<Rightarrow> disk \<Rightarrow> disk" where
  "make_dirs um p d =
     fold (\<lambda>q d. if map_of d q = None then set_node q (Folder (um_dir um)) d else d) (folders_of p) d"

text \<open>\<open>std::fs::write\<close> keeps the mode of a file that is there.\<close>

definition write_file :: "umask \<Rightarrow> string \<Rightarrow> string \<Rightarrow> disk \<Rightarrow> disk" where
  "write_file um p content d =
     set_node p (Plain (case map_of d p of Some (Plain m _) \<Rightarrow> m | _ \<Rightarrow> um_file um) content) d"

definition DIR_MODE :: nat where "DIR_MODE = 448"
definition FILE_MODE :: nat where "FILE_MODE = 384"

section \<open>Operations that may fail\<close>

text \<open>
  A run passes on all disks so far, the latest first; \<open>faults\<close> says which operation fails, by how much
  happened before it, and with which message.
\<close>

type_synonym faults = "nat \<Rightarrow> string option"
type_synonym ('s, 'a) fallible = "'s \<Rightarrow> (string + 'a) \<times> 's"
type_synonym 'a fs = "(disk list, 'a) fallible"

definition fs_bind :: "('s, 'a) fallible \<Rightarrow> ('a \<Rightarrow> ('s, 'b) fallible) \<Rightarrow> ('s, 'b) fallible" where
  "fs_bind m f ds = (case m ds of (Inl e, ds) \<Rightarrow> (Inl e, ds) | (Inr x, ds) \<Rightarrow> f x ds)"

definition fs_lift :: "string + 'a \<Rightarrow> ('s, 'a) fallible" where "fs_lift r ds = (r, ds)"

text \<open>The CLI reads the disk as it is by then.\<close>

definition fs_cli :: "(disk \<Rightarrow> string + 'a) \<Rightarrow> 'a fs" where "fs_cli f ds = (f (hd ds), ds)"

definition fs_op :: "faults \<Rightarrow> string \<Rightarrow> (disk \<Rightarrow> disk) \<Rightarrow> unit fs" where
  "fs_op fl context_text f ds =
     (case fl (length ds) of
        Some e \<Rightarrow> (Inl (context_text @ '': '' @ e), ds)
      | None \<Rightarrow> (Inr (), f (hd ds) # ds))"

definition fs_list :: "faults \<Rightarrow> string \<Rightarrow> string list fs" where
  "fs_list fl dir ds =
     (case fl (length ds) of
        Some e \<Rightarrow> (Inl (''reading '' @ dir @ '': '' @ e), ds)
      | None \<Rightarrow> (Inr (children (hd ds) dir), hd ds # ds))"

text \<open>\<open>create_dir_all\<close> stops at a file, \<open>write\<close> at a directory.\<close>

definition is_folder :: "disk \<Rightarrow> string \<Rightarrow> bool" where
  "is_folder d p = (case map_of d p of Some (Folder _) \<Rightarrow> True | _ \<Rightarrow> False)"

definition is_plain :: "disk \<Rightarrow> string \<Rightarrow> bool" where
  "is_plain d p = (case map_of d p of Some (Plain _ _) \<Rightarrow> True | _ \<Rightarrow> False)"

definition fs_make_dirs :: "faults \<Rightarrow> umask \<Rightarrow> string \<Rightarrow> string \<Rightarrow> unit fs" where
  "fs_make_dirs fl um context_text p ds =
     (if list_ex (is_plain (hd ds)) (folders_of p) then (Inl (context_text @ '': Not a directory''), ds)
      else fs_op fl context_text (make_dirs um p) ds)"

definition fs_write :: "faults \<Rightarrow> umask \<Rightarrow> string \<Rightarrow> string \<Rightarrow> string \<Rightarrow> unit fs" where
  "fs_write fl um context_text p content ds =
     (if is_folder (hd ds) p then (Inl (context_text @ '': Is a directory''), ds)
      else fs_op fl context_text (write_file um p content) ds)"

text \<open>\<open>restrict\<close>: the metadata tell a directory from a file.\<close>

definition set_mode :: "string \<Rightarrow> disk \<Rightarrow> disk" where
  "set_mode p d = (case map_of d p of
     Some (Folder _) \<Rightarrow> set_node p (Folder DIR_MODE) d
   | Some (Plain _ c) \<Rightarrow> set_node p (Plain FILE_MODE c) d
   | None \<Rightarrow> d)"

definition restrict_path :: "faults \<Rightarrow> string \<Rightarrow> unit fs" where
  "restrict_path fl p =
     fs_bind (\<lambda>ds. (case map_of (hd ds) p of
        None \<Rightarrow> Inl (''reading permissions of '' @ p @ '': No such file or directory'') | Some _ \<Rightarrow> Inr (), ds)) (\<lambda>_.
     fs_op fl (''restricting permissions on '' @ p) (set_mode p))"

section \<open>Provisioning\<close>

definition identity_text :: "string \<Rightarrow> string" where
  "identity_text secret = ''secret_key = '' @ [chr 34] @ secret @ [chr 34, chr 10]"

definition resolve_command :: "string \<Rightarrow> string \<Rightarrow> cli_command" where
  "resolve_command cli config_home =
     \<lparr>cc_program = cli, cc_args = [''keys'', ''public-key'', IDENTITY_ALIAS, ''--config-dir'', config_home],
      cc_env = [(''STELLAR_CONFIG_HOME'', config_home)], cc_env_removed = []\<rparr>"

text \<open>\<open>run\<close> is how the command ends, \<open>account\<close> the strkey check.\<close>

definition resolve_address :: "(string \<Rightarrow> bool) \<Rightarrow> string \<Rightarrow> proc_end \<Rightarrow> string + string" where
  "resolve_address account cli run =
     (let not_run = (\<lambda>e. Inl (''running '' @ cli @ '' keys public-key: '' @ e)) in
      case run of
        Exited code out err \<Rightarrow>
          if code \<noteq> Some 0
          then Inl (cli @ '' could not read the verifier's address: '' @ last_meaningful_line (redact (utf8_lossy err)))
          else let address = trim (redact (utf8_lossy out)) in
            if account address then Inr address
            else Inl (''`'' @ address @ ''` is not a Stellar account address (G'' @ ELLIPSIS @ '')'')
      | Not_Started e \<Rightarrow> not_run e
      | Wait_Failed e \<Rightarrow> not_run e
      | Write_Failed e \<Rightarrow> not_run e
      | Out_Of_Time \<Rightarrow> not_run ''timed out'')"

text \<open>What is fixed while a keystore is provisioned.\<close>

record machine =
  ma_umask :: umask
  ma_faults :: faults
  ma_secret_ok :: "string \<Rightarrow> bool"
  ma_account_ok :: "string \<Rightarrow> bool"
  ma_run :: "cli_command \<Rightarrow> disk \<Rightarrow> proc_end"

definition provision :: "machine \<Rightarrow> string \<Rightarrow> string \<Rightarrow> string \<Rightarrow> string + string \<Rightarrow> string fs" where
  "provision ma cli key_file config_home contents =
     (let identity_dir = path_join config_home ''identity'';
          identity_file = path_join identity_dir (IDENTITY_ALIAS @ ''.toml'');
          fl = ma_faults ma in
      fs_bind (fs_lift (read_secret_key (ma_secret_ok ma) key_file contents)) (\<lambda>secret.
      fs_bind (fs_make_dirs fl (ma_umask ma) (''creating keystore at '' @ config_home) identity_dir) (\<lambda>_.
      fs_bind (fs_list fl identity_dir) (\<lambda>names.
      fs_bind (fs_lift (refuse_foreign_identities identity_dir (map Inr names))) (\<lambda>_.
      fs_bind (restrict_path fl config_home) (\<lambda>_.
      fs_bind (restrict_path fl identity_dir) (\<lambda>_.
      fs_bind (fs_write fl (ma_umask ma) (''writing '' @ identity_file) identity_file (identity_text secret)) (\<lambda>_.
      fs_bind (restrict_path fl identity_file) (\<lambda>_.
      fs_cli (\<lambda>d. resolve_address (ma_account_ok ma) cli (ma_run ma (resolve_command cli config_home) d)))))))))))"

section \<open>Disks\<close>

lemma map_of_set_node [simp]: "map_of (set_node p x d) = (map_of d)(p \<mapsto> x)"
  unfolding set_node_def by (rule update_conv')

lemma map_of_set_mode:
  "map_of (set_mode p d) q = (if q = p then map_option (\<lambda>x. case x of Folder _ \<Rightarrow> Folder DIR_MODE
     | Plain _ c \<Rightarrow> Plain FILE_MODE c) (map_of d p) else map_of d q)"
  by (auto simp: set_mode_def split: option.splits node.splits)

lemma map_of_make_dirs:
  "map_of (make_dirs um p d) q = (if map_of d q = None \<and> q \<in> set (folders_of p) then Some (Folder (um_dir um)) else map_of d q)"
proof -
  have "map_of (fold (\<lambda>q d. if map_of d q = None then set_node q (Folder (um_dir um)) d else d) ps d) q =
      (if map_of d q = None \<and> q \<in> set ps then Some (Folder (um_dir um)) else map_of d q)" for ps
    by (induction ps arbitrary: d) auto
  then show ?thesis by (simp add: make_dirs_def)
qed

text \<open>Nobody but the owner can enter the two directories of the keystore.\<close>

definition sealed :: "string \<Rightarrow> disk \<Rightarrow> bool" where
  "sealed config_home d \<longleftrightarrow> map_of d config_home = Some (Folder DIR_MODE) \<and>
     map_of d (path_join config_home ''identity'') = Some (Folder DIR_MODE)"

section \<open>Runs\<close>

text \<open>Every disk a run passes through, whatever fails.\<close>

definition always :: "'a fs \<Rightarrow> (disk \<Rightarrow> bool) \<Rightarrow> disk list \<Rightarrow> bool" where
  "always m P ds \<longleftrightarrow> (\<exists>new. snd (m ds) = new @ ds \<and> list_all P new)"

lemma always_bind:
  assumes "always m P ds" and "\<And>x ds'. m ds = (Inr x, ds') \<Longrightarrow> always (f x) P ds'"
  shows "always (fs_bind m f) P ds"
proof (cases "m ds")
  case (Pair r ds')
  show ?thesis
  proof (cases r)
    case (Inl e)
    with Pair assms(1) show ?thesis by (simp add: always_def fs_bind_def)
  next
    case (Inr x)
    from assms(1) Pair obtain new where new: "ds' = new @ ds" "list_all P new" by (auto simp: always_def)
    from assms(2) Pair Inr obtain newer where "snd (f x ds') = newer @ ds'" "list_all P newer"
      by (auto simp: always_def)
    with new Pair Inr show ?thesis by (auto simp: always_def fs_bind_def)
  qed
qed

lemma fs_bind_Inr: "fs_bind m f ds = (Inr y, ds') \<longleftrightarrow> (\<exists>x ds1. m ds = (Inr x, ds1) \<and> f x ds1 = (Inr y, ds'))"
  by (auto simp: fs_bind_def split: prod.splits sum.splits)

lemma fs_lift_Inr: "fs_lift r ds = (Inr x, ds') \<longleftrightarrow> r = Inr x \<and> ds' = ds"
  by (auto simp: fs_lift_def)

lemma fs_cli_Inr: "fs_cli f ds = (Inr x, ds') \<longleftrightarrow> f (hd ds) = Inr x \<and> ds' = ds"
  by (auto simp: fs_cli_def)

lemma fs_op_Inr: "fs_op fl c f ds = (Inr u, ds') \<longleftrightarrow> fl (length ds) = None \<and> ds' = f (hd ds) # ds"
  by (auto simp: fs_op_def split: option.splits)

lemma fs_list_Inr:
  "fs_list fl dir ds = (Inr names, ds') \<longleftrightarrow> fl (length ds) = None \<and> names = children (hd ds) dir \<and> ds' = hd ds # ds"
  by (auto simp: fs_list_def split: option.splits)

lemma restrict_Inr:
  "restrict_path fl p ds = (Inr u, ds') \<longleftrightarrow>
     map_of (hd ds) p \<noteq> None \<and> fl (length ds) = None \<and> ds' = set_mode p (hd ds) # ds"
  by (auto simp: restrict_path_def fs_bind_Inr fs_op_Inr split: option.splits)

lemma fs_make_dirs_Inr:
  "fs_make_dirs fl um c p ds = (Inr u, ds') \<longleftrightarrow> \<not> list_ex (is_plain (hd ds)) (folders_of p) \<and>
     fl (length ds) = None \<and> ds' = make_dirs um p (hd ds) # ds"
  by (auto simp: fs_make_dirs_def fs_op_Inr)

lemma fs_write_Inr:
  "fs_write fl um c p content ds = (Inr u, ds') \<longleftrightarrow> \<not> is_folder (hd ds) p \<and>
     fl (length ds) = None \<and> ds' = write_file um p content (hd ds) # ds"
  by (auto simp: fs_write_def fs_op_Inr)

lemmas fs_Inr = fs_bind_Inr fs_lift_Inr fs_cli_Inr fs_list_Inr restrict_Inr fs_make_dirs_Inr fs_write_Inr

lemma always_lift: "always (fs_lift r) P ds"
  by (simp add: always_def fs_lift_def)

lemma always_cli: "always (fs_cli f) P ds"
  by (simp add: always_def fs_cli_def)

lemma always_op: "P (f (hd ds)) \<Longrightarrow> always (fs_op fl c f) P ds"
  by (auto simp: always_def fs_op_def split: option.splits)

lemma always_make_dirs: "P (make_dirs um p (hd ds)) \<Longrightarrow> always (fs_make_dirs fl um c p) P ds"
  using always_op [of P "make_dirs um p" ds fl c] by (auto simp: always_def fs_make_dirs_def)

lemma always_write: "P (write_file um p content (hd ds)) \<Longrightarrow> always (fs_write fl um c p content) P ds"
  using always_op [of P "write_file um p content" ds fl c] by (auto simp: always_def fs_write_def)

lemma always_list: "P (hd ds) \<Longrightarrow> always (fs_list fl dir) P ds"
  by (auto simp: always_def fs_list_def split: option.splits)

lemma always_restrict: "P (set_mode p (hd ds)) \<Longrightarrow> always (restrict_path fl p) P ds"
  unfolding restrict_path_def by (rule always_bind) (auto simp: always_def fs_op_def split: option.splits)

lemma refuse_Inr:
  "refuse_foreign_identities dir (map Inr names) = Inr u \<longleftrightarrow> list_all (\<lambda>nm. nm = IDENTITY_ALIAS @ ''.toml'') names"
  by (induction names) auto

section \<open>The keystore\<close>

definition proper_home :: "string \<Rightarrow> bool" where
  "proper_home home \<longleftrightarrow> home \<noteq> [] \<and> last home \<noteq> CHR ''/''"

definition identity_dir_of :: "string \<Rightarrow> string" where "identity_dir_of home = home @ ''/identity''"
definition identity_file_of :: "string \<Rightarrow> string" where
  "identity_file_of home = home @ ''/identity/'' @ IDENTITY_ALIAS @ ''.toml''"

lemma path_join_proper: "dir \<noteq> [] \<Longrightarrow> last dir \<noteq> CHR ''/'' \<Longrightarrow> path_join dir nm = dir @ ''/'' @ nm"
  by (auto simp: path_join_def ends_with_iff)

lemma keystore_paths:
  assumes "proper_home home"
  shows "path_join home ''identity'' = identity_dir_of home"
    and "path_join (identity_dir_of home) nm = identity_dir_of home @ ''/'' @ nm"
    and "identity_dir_of home @ ''/'' @ IDENTITY_ALIAS @ ''.toml'' = identity_file_of home"
  using assms path_join_proper [of home] path_join_proper [of "identity_dir_of home"]
  by (simp_all add: proper_home_def identity_dir_of_def identity_file_of_def)

lemma folders_iff:
  "q \<in> set (folders_of p) \<longleftrightarrow> q \<noteq> [] \<and> (\<exists>n \<le> length p. (n = length p \<or> p ! n = CHR ''/'') \<and> q = take n p)"
  by (auto simp: folders_of_def image_iff less_Suc_eq_le simp del: upt_Suc)

lemma folders_le: "q \<in> set (folders_of p) \<Longrightarrow> length q \<le> length p"
  by (auto simp: folders_iff)

lemma folders_self: "p \<noteq> [] \<Longrightarrow> p \<in> set (folders_of p)"
  by (auto simp: folders_iff)

lemma folders_home: "home \<noteq> [] \<Longrightarrow> home \<in> set (folders_of (home @ CHR ''/'' # rest))"
  unfolding folders_iff by (intro conjI exI [of _ "length home"]) simp_all

lemma set_children:
  "set (children d dir) = {nm. nm \<noteq> [] \<and> CHR ''/'' \<notin> set nm \<and> path_join dir [] @ nm \<in> fst ` set d}"
  by (force simp: children_def prefix_def image_iff)

lemma keys_set_node: "fst ` set (set_node p x d) = insert p (fst ` set d)"
  unfolding set_node_def by (induction d) auto

lemma keys_set_mode: "fst ` set (set_mode p d) = fst ` set d"
  by (auto simp: set_mode_def keys_set_node map_of_eq_None_iff dest: map_of_SomeD split: option.splits node.splits)
    (force dest: map_of_SomeD)+

text \<open>What each operation does to the three nodes of the keystore.\<close>

lemma keystore_distinct:
  "identity_file_of home \<noteq> identity_dir_of home" "identity_file_of home \<noteq> home" "identity_dir_of home \<noteq> home"
  "identity_file_of home \<notin> set (folders_of (identity_dir_of home))"
  using folders_le [of "identity_file_of home" "identity_dir_of home"]
  by (auto simp: identity_file_of_def identity_dir_of_def)

lemma make_dirs_keep:
  "map_of (make_dirs um (identity_dir_of home) d) (identity_file_of home) = map_of d (identity_file_of home)"
  using keystore_distinct(4) by (simp add: map_of_make_dirs)

lemma make_dirs_nodes:
  assumes "proper_home home" and "\<not> list_ex (is_plain d) (folders_of (identity_dir_of home))"
  shows "\<exists>m. map_of (make_dirs um (identity_dir_of home) d) home = Some (Folder m)"
    and "\<exists>m. map_of (make_dirs um (identity_dir_of home) d) (identity_dir_of home) = Some (Folder m)"
proof -
  have folder: "\<exists>m. map_of (make_dirs um (identity_dir_of home) d) q = Some (Folder m)"
    if "q \<in> set (folders_of (identity_dir_of home))" for q
    using that assms(2)
    by (cases "map_of d q") (auto simp: map_of_make_dirs list_ex_iff is_plain_def split: node.splits)
  have "home \<in> set (folders_of (identity_dir_of home))" "identity_dir_of home \<in> set (folders_of (identity_dir_of home))"
    using assms(1) folders_home [of home] folders_self [of "identity_dir_of home"]
    by (auto simp: proper_home_def identity_dir_of_def)
  then show "\<exists>m. map_of (make_dirs um (identity_dir_of home) d) home = Some (Folder m)"
    "\<exists>m. map_of (make_dirs um (identity_dir_of home) d) (identity_dir_of home) = Some (Folder m)"
    by (blast intro: folder)+
qed

lemma sealed_nodes:
  assumes "proper_home home" and "map_of d home = Some (Folder m)" and "map_of d (identity_dir_of home) = Some (Folder n)"
  shows "sealed home (set_mode (identity_dir_of home) (set_mode home d))"
  using assms keystore_distinct by (simp add: sealed_def keystore_paths map_of_set_mode)

lemma sealed_made:
  assumes "proper_home home" and "\<not> list_ex (is_plain d) (folders_of (identity_dir_of home))"
  shows "sealed home (set_mode (identity_dir_of home) (set_mode home (make_dirs um (identity_dir_of home) d)))"
  using make_dirs_nodes [OF assms] sealed_nodes [OF assms(1)] by blast

lemma sealed_file:
  assumes "proper_home home" and "sealed home d"
  shows "sealed home (write_file um (identity_file_of home) c d)" and "sealed home (set_mode (identity_file_of home) d)"
  using assms keystore_distinct [of home] by (simp_all add: sealed_def keystore_paths map_of_set_mode write_file_def)

lemma file_path: "identity_dir_of home @ CHR ''/'' # IDENTITY_ALIAS @ ''.toml'' = identity_file_of home"
  by (simp add: identity_dir_of_def identity_file_of_def)

text \<open>Successful runs, step by step.\<close>

lemma provision_Inr:
  assumes "proper_home home" and "provision ma cli key_file home contents [d0] = (Inr address, ds)"
  shows "\<exists>raw d1. contents = Inr raw \<and> d1 = set_mode (identity_dir_of home) (set_mode home
       (make_dirs (ma_umask ma) (identity_dir_of home) d0)) \<and>
     \<not> list_ex (is_plain d0) (folders_of (identity_dir_of home)) \<and>
     list_all (\<lambda>nm. nm = IDENTITY_ALIAS @ ''.toml'') (children (make_dirs (ma_umask ma) (identity_dir_of home) d0) (identity_dir_of home)) \<and>
     \<not> is_folder d1 (identity_file_of home) \<and>
     hd ds = set_mode (identity_file_of home)
       (write_file (ma_umask ma) (identity_file_of home) (identity_text (trim raw)) d1)"
  using assms(2)
  by (auto simp: provision_def Let_def fs_Inr keystore_paths [OF assms(1)] refuse_Inr read_secret_key_def
      rbind_simps file_path split: if_splits sum.splits)

lemma provision_always:
  assumes "proper_home home"
  shows "always (provision ma cli key_file home contents)
    (\<lambda>d. map_of d (identity_file_of home) = map_of d0 (identity_file_of home) \<or> sealed home d) [d0]"
proof -
  note kept = sealed_file [OF assms] sealed_made [OF assms]
  show ?thesis
    unfolding provision_def Let_def keystore_paths [OF assms]
    by (intro always_bind always_lift always_cli always_make_dirs always_list always_restrict always_write)
      (use keystore_distinct [of home] in \<open>auto simp: fs_Inr file_path map_of_set_mode make_dirs_keep kept\<close>)
qed

text \<open>The directory lists one name once the identity is written.\<close>

lemma one_identity:
  assumes "proper_home home"
    and "list_all (\<lambda>nm. nm = IDENTITY_ALIAS @ ''.toml'') (children d (identity_dir_of home))"
    and "fst ` set d' = insert (identity_file_of home) (fst ` set d)"
  shows "set (children d' (identity_dir_of home)) = {IDENTITY_ALIAS @ ''.toml''}"
proof -
  have ours: "IDENTITY_ALIAS @ ''.toml'' \<noteq> []" "CHR ''/'' \<notin> set (IDENTITY_ALIAS @ ''.toml'')"
    by (simp_all add: IDENTITY_ALIAS_def)
  have dir: "path_join (identity_dir_of home) [] = identity_dir_of home @ ''/''"
    using keystore_paths(2) [OF assms(1), of "[]"] by simp
  have path: "identity_dir_of home @ ''/'' @ nm = identity_file_of home \<longleftrightarrow> nm = IDENTITY_ALIAS @ ''.toml''" for nm
    by (simp add: identity_dir_of_def identity_file_of_def)
  show ?thesis
    using assms(2,3) ours path unfolding set_children list_all_iff dir by auto
qed

lemma keystore_is_sealed:
  assumes "proper_home home" and "provision ma cli key_file home contents [d0] = (r, ds)"
  shows "list_all (\<lambda>d. map_of d (identity_file_of home) = map_of d0 (identity_file_of home) \<or> sealed home d) ds"
    and "r = Inr address \<Longrightarrow> \<exists>raw. contents = Inr raw \<and> sealed home (hd ds) \<and>
      map_of (hd ds) (identity_file_of home) = Some (Plain FILE_MODE (identity_text (trim raw))) \<and>
      set (children (hd ds) (identity_dir_of home)) = {IDENTITY_ALIAS @ ''.toml''}"
proof -
  show "list_all (\<lambda>d. map_of d (identity_file_of home) = map_of d0 (identity_file_of home) \<or> sealed home d) ds"
    using provision_always [OF assms(1), of ma cli key_file contents d0] assms(2) by (auto simp: always_def)
  assume "r = Inr address"
  with assms obtain raw d1 where parts: "contents = Inr raw"
      "d1 = set_mode (identity_dir_of home) (set_mode home (make_dirs (ma_umask ma) (identity_dir_of home) d0))"
      "\<not> list_ex (is_plain d0) (folders_of (identity_dir_of home))"
      "list_all (\<lambda>nm. nm = IDENTITY_ALIAS @ ''.toml'')
        (children (make_dirs (ma_umask ma) (identity_dir_of home) d0) (identity_dir_of home))"
      "hd ds = set_mode (identity_file_of home)
        (write_file (ma_umask ma) (identity_file_of home) (identity_text (trim raw)) d1)"
    using provision_Inr [OF assms(1)] by metis
  have "sealed home (hd ds)"
    using parts(2,3,5) sealed_made [OF assms(1)] sealed_file [OF assms(1)] by simp
  moreover have "map_of (hd ds) (identity_file_of home) = Some (Plain FILE_MODE (identity_text (trim raw)))"
    by (simp add: parts(5) map_of_set_mode write_file_def)
  moreover have "set (children (hd ds) (identity_dir_of home)) = {IDENTITY_ALIAS @ ''.toml''}"
    by (rule one_identity [OF assms(1) parts(4)])
      (simp add: parts(2,5) keys_set_mode write_file_def keys_set_node)
  ultimately show "\<exists>raw. contents = Inr raw \<and> sealed home (hd ds) \<and>
      map_of (hd ds) (identity_file_of home) = Some (Plain FILE_MODE (identity_text (trim raw))) \<and>
      set (children (hd ds) (identity_dir_of home)) = {IDENTITY_ALIAS @ ''.toml''}"
    using parts(1) by blast
qed

text \<open>
  Property C37. Signer::provision never exposes the verifier's key, whatever fails on the way: on every disk the run
  passes through, the identity file is as it was found or both directories of the keystore are
  closed to everyone but the owner. When it succeeds, the file holds the trimmed secret of the key
  file under mode 0600, and is the only entry of its directory. Paths are plain text here: the keystore's
  is not empty and has no trailing slash (\<open>proper_home\<close>).
\<close>

theorem keystore_sealed:
  assumes "proper_home home" and "provision ma cli key_file home contents [d0] = (r, ds)"
  shows "list_all (\<lambda>d. map_of d (identity_file_of home) = map_of d0 (identity_file_of home) \<or> sealed home d) ds \<and>
    (\<forall>address. r = Inr address \<longrightarrow> (\<exists>raw. contents = Inr raw \<and> sealed home (hd ds) \<and>
      map_of (hd ds) (identity_file_of home) = Some (Plain FILE_MODE (identity_text (trim raw))) \<and>
      set (children (hd ds) (identity_dir_of home)) = {IDENTITY_ALIAS @ ''.toml''}))"
  using keystore_is_sealed [OF assms] by blast

definition demo_host :: machine where
  "demo_host = \<lparr>ma_umask = \<lparr>um_dir = 493, um_file = 420\<rparr>, ma_faults = (\<lambda>_. None),
     ma_secret_ok = (\<lambda>s. starts_with s ''S''), ma_account_ok = (\<lambda>s. starts_with s ''G''),
     ma_run = (\<lambda>_ _. Exited (Some 0) ''GA'' [])\<rparr>"

lemma demo_provision:
  "\<exists>ds. provision demo_host ''stellar'' ''key'' ''k'' (Inr ''SK '') [[]] = (Inr ''GA'', ds)"
proof -
  have word: "trim ''SK '' = ''SK''" "trim ''GA'' = ''GA''" by (simp_all add: ws_eval)
  have word': "redact (utf8_lossy ''GA'') = ''GA''" by code_simp
  have path: "path_join ''k'' ''identity'' = ''k/identity''"
      "path_join ''k/identity'' (IDENTITY_ALIAS @ ''.toml'') = ''k/identity/sorofy-verifier.toml''"
    by code_simp+
  have folders: "folders_of ''k/identity'' = [''k'', ''k/identity'']" by code_simp
  have empty: "children (set_node ''k/identity'' (Folder m) (set_node ''k'' (Folder n) [])) ''k/identity'' = []" for m n
    by (simp add: set_node_def children_def path_join_def)
  have "fst (provision demo_host ''stellar'' ''key'' ''k'' (Inr ''SK '') [[]]) = Inr ''GA''"
    by (simp add: provision_def demo_host_def word word' path folders empty Let_def fs_bind_def fs_lift_def
        fs_make_dirs_def fs_list_def fs_write_def fs_cli_def fs_op_def restrict_path_def make_dirs_def write_file_def
        is_plain_def is_folder_def map_of_set_mode read_secret_key_def resolve_address_def rbind_simps)
  then show ?thesis by (metis prod.collapse)
qed

theorem keystore_sealed_witness:
  "\<exists>ds. provision demo_host ''stellar'' ''key'' ''k'' (Inr ''SK '') [[]] = (Inr ''GA'', ds) \<and>
    map_of (hd ds) ''k'' = Some (Folder 448) \<and>
    map_of (hd ds) ''k/identity/sorofy-verifier.toml'' = Some (Plain 384 (identity_text (trim ''SK '')))"
proof -
  obtain ds where ds: "provision demo_host ''stellar'' ''key'' ''k'' (Inr ''SK '') [[]] = (Inr ''GA'', ds)"
    using demo_provision ..
  have home: "proper_home ''k''" by (simp add: proper_home_def)
  have paths: "identity_file_of ''k'' = ''k/identity/sorofy-verifier.toml''"
    by (simp add: identity_file_of_def IDENTITY_ALIAS_def)
  show ?thesis
    using keystore_sealed [OF home ds] ds by (auto simp: sealed_def paths DIR_MODE_def FILE_MODE_def)
qed

section \<open>The key stays in its file\<close>

lemma set_mode_None: "map_of (set_mode p d) q = None \<longleftrightarrow> map_of d q = None"
  by (auto simp: map_of_set_mode)

text \<open>
  No answer of Signer::provision carries the secret: for two key files that are both empty or not, both valid
  or not, the answers are the same, errors included, unless both runs reached the CLI, and then
  each is what the CLI's output makes it.
\<close>

theorem provision_hides_key:
  assumes "(trim raw = []) = (trim raw' = [])" and "ma_secret_ok ma (trim raw) = ma_secret_ok ma (trim raw')"
  shows "fst (provision ma cli key_file home (Inr raw) [d0]) = fst (provision ma cli key_file home (Inr raw') [d0]) \<or>
    (\<exists>d d'. fst (provision ma cli key_file home (Inr raw) [d0]) =
         resolve_address (ma_account_ok ma) cli (ma_run ma (resolve_command cli home) d) \<and>
       fst (provision ma cli key_file home (Inr raw') [d0]) =
         resolve_address (ma_account_ok ma) cli (ma_run ma (resolve_command cli home) d'))"
  using assms
  by (auto simp: provision_def read_secret_key_def rbind_simps Let_def fs_lift_def fs_bind_def fs_make_dirs_def
      fs_op_def fs_list_def restrict_path_def fs_write_def fs_cli_def set_mode_None write_file_def
      split: sum.splits option.splits prod.splits)

theorem provision_hides_key_witness:
  "fst (provision demo_host ''stellar'' ''key'' ''k'' (Inr ''SK'') [[]]) =
   fst (provision demo_host ''stellar'' ''key'' ''k'' (Inr ''SX'') [[]])"
proof -
  have word: "trim ''SK'' = ''SK''" "trim ''SX'' = ''SX''" by (simp_all add: ws_eval)
  have "(trim ''SK'' = []) = (trim ''SX'' = [])"
    "ma_secret_ok demo_host (trim ''SK'') = ma_secret_ok demo_host (trim ''SX'')"
    by (simp_all add: word demo_host_def)
  from provision_hides_key [OF this, of "''stellar''" "''key''" "''k''" "[]"] show ?thesis
    by (auto simp: demo_host_def)
qed

end
