(* ===== verification/Startup.thy ===== *)
theory Startup
  imports ServiceRuns Keystore
begin

text \<open>
  The start of the service and its periodic backups, \<open>crates/api/src/main.rs\<close> with \<open>Db::backup_to\<close>:
  the settings read from the environment, the attestation path that is off unless asked for, the
  order in which \<open>main\<close> refuses or serves, and the snapshots of the cache.
\<close>

section \<open>Settings\<close>

definition TESTNET_RPC :: string where "TESTNET_RPC = ''https://soroban-testnet.stellar.org''"

definition or_default :: "string option \<Rightarrow> string \<Rightarrow> string" where
  "or_default v dflt = (case v of Some s \<Rightarrow> s | None \<Rightarrow> dflt)"

record settings =
  st_bind :: string
  st_db_path :: string
  st_rpc_url :: string
  st_allow_unpinned :: bool
  st_api_token :: "string option"
  st_backup_dir :: "string option"

definition settings_of :: "(string \<Rightarrow> string option) \<Rightarrow> settings" where
  "settings_of getenv =
     \<lparr>st_bind = or_default (getenv ''SOROFY_BIND'') ''127.0.0.1:8080'',
      st_db_path = or_default (getenv ''SOROFY_DB'') ''sorofy.db'',
      st_rpc_url = or_default (getenv ''SOROFY_RPC'') TESTNET_RPC,
      st_allow_unpinned = (getenv ''SOROFY_ALLOW_UNPINNED_IMAGE'' = Some ''1''),
      st_api_token = api_token_from (getenv ''SOROFY_API_TOKEN''),
      st_backup_dir = getenv ''SOROFY_BACKUP_DIR''\<rparr>"

section \<open>The attestation settings\<close>

text \<open>
  The state of the resolution: the names asked of the environment, in order, and the disks the
  keystore passed through. \<open>keys\<close> is what reading the key file gives.
\<close>

type_synonym 'a boot = "(string list \<times> disk list, 'a) fallible"

definition ask :: "(string \<Rightarrow> string option) \<Rightarrow> string \<Rightarrow> string option boot" where
  "ask getenv name s = (Inr (getenv name), (fst s @ [name], snd s))"

definition required :: "(string \<Rightarrow> string option) \<Rightarrow> string \<Rightarrow> string boot" where
  "required getenv name =
     fs_bind (ask getenv name) (\<lambda>v. fs_lift (case v of
       Some s \<Rightarrow> if s \<noteq> [] then Inr s else Inl (''SOROFY_ATTEST=1 needs '' @ name @ '' to be set'')
     | None \<Rightarrow> Inl (''SOROFY_ATTEST=1 needs '' @ name @ '' to be set'')))"

definition on_disk :: "'a fs \<Rightarrow> 'a boot" where
  "on_disk m s = (case m (snd s) of (r, ds) \<Rightarrow> (r, (fst s, ds)))"

definition attestation_config ::
  "machine \<Rightarrow> (string \<Rightarrow> string + string) \<Rightarrow> (string \<Rightarrow> string option) \<Rightarrow> string \<Rightarrow> string \<Rightarrow> attest_config option boot" where
  "attestation_config ma keys getenv db_path rpc_url =
     fs_bind (ask getenv ''SOROFY_ATTEST'') (\<lambda>flag.
     if flag \<noteq> Some ''1'' then fs_lift (Inr None)
     else
       fs_bind (required getenv ''SOROFY_ATTEST_KEY_FILE'') (\<lambda>key_file.
       fs_bind (required getenv ''SOROFY_REGISTRY_CONTRACT_ID'') (\<lambda>registry_id.
       fs_bind (ask getenv ''SOROFY_STELLAR_CLI'') (\<lambda>cli.
       let cli = or_default cli ''stellar'' in
       fs_bind (ask getenv ''SOROFY_ATTEST_CONFIG_HOME'') (\<lambda>config_home.
       let config_home = or_default config_home (db_path @ ''.stellar'') in
       fs_bind (on_disk (provision ma cli key_file config_home (keys key_file))) (\<lambda>address.
       fs_bind (ask getenv ''SOROFY_NETWORK_PASSPHRASE'') (\<lambda>passphrase.
       fs_lift (Inr (Some
         \<lparr>ac_cli = cli, ac_registry_id = registry_id, ac_rpc_url = rpc_url,
          ac_network_passphrase = or_default passphrase TESTNET_PASSPHRASE,
          ac_config_home = config_home, ac_address = address\<rparr>)))))))))"

section \<open>The order of \<open>main\<close>\<close>

text \<open>\<open>dd\<close> and \<open>dn\<close> print a duration and a list of names, as \<open>Debug\<close> does.\<close>

definition deployment_of ::
  "settings \<Rightarrow> libs \<Rightarrow> env \<Rightarrow> (nat \<Rightarrow> string) \<Rightarrow> (string list \<Rightarrow> string) \<Rightarrow> bool \<Rightarrow> deployment" where
  "deployment_of st l env dd dn attesting =
     \<lparr>su_libs = l, su_env = env, su_docker = autodetect env, su_rpc_url = st_rpc_url st,
      su_allow_unpinned = st_allow_unpinned st, su_api_token = st_api_token st, su_attesting = attesting,
      su_debug_duration = dd, su_debug_names = dn\<rparr>"

text \<open>
  \<open>main\<close> up to the listener: Docker answers, the cache is opened and migrated, orphaned jobs are
  failed, and only then the attestation path is resolved. \<open>opened\<close> is what SQLite finds at the path.
  The cache is returned as it is left behind, whatever the answer.
\<close>

record startup =
  up_result :: "string + deployment \<times> attest_config option \<times> service"
  up_cache :: "db option"
  up_boot :: "string list \<times> disk list"

definition sorofy_main ::
  "env \<Rightarrow> libs \<Rightarrow> (nat \<Rightarrow> string) \<Rightarrow> (string list \<Rightarrow> string) \<Rightarrow> machine \<Rightarrow> (string \<Rightarrow> string + string) \<Rightarrow>
     nat \<Rightarrow> world \<Rightarrow> string + db \<Rightarrow> disk \<Rightarrow> startup" where
  "sorofy_main env l dd dn ma keys now w opened disk0 =
     (let st = settings_of (env_var env); su = deployment_of st l env dd dn;
          untouched = (case opened of Inl _ \<Rightarrow> None | Inr d \<Rightarrow> Some d) in
      case fst (preflight env (autodetect env) w) of
        Inl e \<Rightarrow> \<lparr>up_result = Inl (''docker unavailable: '' @ error_text (su False) e),
                   up_cache = untouched, up_boot = ([], [disk0])\<rparr>
      | Inr _ \<Rightarrow>
          (case rbind (map_err (\<lambda>e. ''opening sqlite db at '' @ st_db_path st @ '': '' @ e) opened) (start_service now) of
             Inl e \<Rightarrow> \<lparr>up_result = Inl e, up_cache = untouched, up_boot = ([], [disk0])\<rparr>
           | Inr s \<Rightarrow>
               (case attestation_config ma keys (env_var env) (st_db_path st) (st_rpc_url st) ([], [disk0]) of
                  (Inl e, bt) \<Rightarrow> \<lparr>up_result = Inl e, up_cache = Some (sv_db s), up_boot = bt\<rparr>
                | (Inr config, bt) \<Rightarrow>
                    \<lparr>up_result = Inr (su (config \<noteq> None), config, s), up_cache = Some (sv_db s), up_boot = bt\<rparr>)))"

section \<open>Backups\<close>

text \<open>
  The files of the backup directory, by path: an empty one, one that is anything but a database (what
  a write that failed or was cut short left), a complete database. \<open>VACUUM INTO\<close> is SQLite's: from
  the cache and what is at the destination, an error or not, and what is there then.
\<close>

datatype snapshot = Empty_File | Torn bytes | Snapshot db

type_synonym snapshots = "string \<Rightarrow> snapshot option"

type_synonym vacuum = "db \<Rightarrow> snapshot option \<Rightarrow> (string + unit) \<times> snapshot option"

text \<open>
  What SQLite documents: on success the destination is a complete copy, and a destination that is not
  empty is refused and left alone. What a failure leaves at a new or empty destination is open.
\<close>

definition vacuum_documented :: "vacuum \<Rightarrow> bool" where
  "vacuum_documented vac \<longleftrightarrow> (\<forall>d f. case vac d f of (r, f') \<Rightarrow>
     (is_ok r \<longrightarrow> f' = Some (Snapshot d)) \<and> (f \<noteq> None \<and> f \<noteq> Some Empty_File \<longrightarrow> \<not> is_ok r \<and> f' = f))"

definition schema_version :: "db \<Rightarrow> nat" where "schema_version d = db_version d"

definition backup_to :: "vacuum \<Rightarrow> string \<Rightarrow> db \<Rightarrow> snapshots \<Rightarrow> (string + unit) \<times> snapshots" where
  "backup_to vac dest d fs =
     (if \<not> utf8_valid dest then (Inl (''backup path is not valid UTF-8: '' @ utf8_lossy dest), fs)
      else case vac d (fs dest) of
        (r, f) \<Rightarrow> (map_err (\<lambda>e. ''backing up cache to '' @ dest @ '': '' @ e) r, fs(dest := f)))"

text \<open>\<open>str::parse::<u64>\<close>.\<close>

definition parse_u64 :: "string \<Rightarrow> nat option" where
  "parse_u64 s =
     (let ds = (if starts_with s ''+'' then drop 1 s else s) in
      if ds = [] then None
      else case read_digits 0 ds of None \<Rightarrow> None | Some n \<Rightarrow> if n < 2 ^ 64 then Some n else None)"

definition backup_hours :: "(string \<Rightarrow> string option) \<Rightarrow> nat" where
  "backup_hours getenv =
     (case Option.bind (getenv ''SOROFY_BACKUP_INTERVAL_HOURS'') parse_u64 of
        Some h \<Rightarrow> if 0 < h then h else 24 | None \<Rightarrow> 24)"

text \<open>The period in seconds: the product wraps in a release build.\<close>

definition backup_period :: "(string \<Rightarrow> string option) \<Rightarrow> 64 word" where
  "backup_period getenv = of_nat (backup_hours getenv) * 3600"

definition backup_path :: "string \<Rightarrow> nat \<Rightarrow> string" where
  "backup_path dir stamp = path_join dir (''sorofy-'' @ show_nat stamp @ ''.db'')"

text \<open>
  One turn of the loop at the second \<open>stamp\<close>: \<open>made\<close> is whether the directory could be created. The
  result is only logged.
\<close>

definition backup_tick :: "vacuum \<Rightarrow> string \<Rightarrow> bool \<Rightarrow> nat \<Rightarrow> db \<Rightarrow> snapshots \<Rightarrow> (string + unit) \<times> snapshots" where
  "backup_tick vac dir made stamp d fs =
     (if \<not> made then (Inl ''could not create backup dir'', fs) else backup_to vac (backup_path dir stamp) d fs)"

text \<open>
  Turns of the loop between any steps of the service, SQLite answering each as it likes within its
  documentation. \<open>made_at\<close> is the log: each turn's second, and what it wrote if it reported success. A
  process killed in the middle of a turn is a turn that failed and a restart of the service.
\<close>

inductive backed_up :: "deployment \<Rightarrow> string \<Rightarrow> service \<Rightarrow> snapshots \<Rightarrow> (nat \<times> db option) list \<Rightarrow> bool" for su dir where
  Begin: "reachable su s \<Longrightarrow> (\<And>stamp. fs (backup_path dir stamp) = None) \<Longrightarrow> backed_up su dir s fs []"
| Serve: "backed_up su dir s fs made_at \<Longrightarrow> service_step su s s' \<Longrightarrow> backed_up su dir s' fs made_at"
| Tick: "backed_up su dir s fs made_at \<Longrightarrow> vacuum_documented vac \<Longrightarrow>
    backup_tick vac dir made stamp (sv_db s) fs = (r, fs') \<Longrightarrow>
    backed_up su dir s fs' (made_at @ [(stamp, if is_ok r then Some (sv_db s) else None)])"

section \<open>Attestation is opt-in\<close>

lemma ask_eq: "ask getenv name s = (r, s') \<longleftrightarrow> r = Inr (getenv name) \<and> s' = (fst s @ [name], snd s)"
  by (auto simp: ask_def)

lemma required_Inr:
  "required getenv name s = (Inr v, s') \<longleftrightarrow> getenv name = Some v \<and> v \<noteq> [] \<and> s' = (fst s @ [name], snd s)"
  by (auto simp: required_def fs_bind_def ask_def fs_lift_def split: option.splits)

lemma on_disk_Inr: "on_disk m s = (Inr x, s') \<longleftrightarrow> (\<exists>ds. m (snd s) = (Inr x, ds) \<and> s' = (fst s, ds))"
  by (auto simp: on_disk_def split: prod.splits)

lemma fs_bind_run: "fs_bind m f s = (r, s') \<longleftrightarrow>
    (\<exists>e. r = Inl e \<and> m s = (Inl e, s')) \<or> (\<exists>x s1. m s = (Inr x, s1) \<and> f x s1 = (r, s'))"
  by (auto simp: fs_bind_def split: prod.splits sum.splits)

lemma attestation_off:
  assumes "getenv ''SOROFY_ATTEST'' \<noteq> Some ''1''"
  shows "attestation_config ma keys getenv db_path rpc_url s = (Inr None, (fst s @ [''SOROFY_ATTEST''], snd s))"
  using assms by (simp add: attestation_config_def fs_bind_def ask_def fs_lift_def)

lemma attestation_on:
  assumes "getenv ''SOROFY_ATTEST'' = Some ''1''"
    and "attestation_config ma keys getenv db_path rpc_url s = (Inr r, s')"
  shows "\<exists>c key_file. r = Some c \<and> getenv ''SOROFY_ATTEST_KEY_FILE'' = Some key_file \<and> key_file \<noteq> [] \<and>
    getenv ''SOROFY_REGISTRY_CONTRACT_ID'' = Some (ac_registry_id c) \<and> ac_registry_id c \<noteq> [] \<and>
    ac_cli c = or_default (getenv ''SOROFY_STELLAR_CLI'') ''stellar'' \<and>
    ac_config_home c = or_default (getenv ''SOROFY_ATTEST_CONFIG_HOME'') (db_path @ ''.stellar'') \<and>
    ac_network_passphrase c = or_default (getenv ''SOROFY_NETWORK_PASSPHRASE'') TESTNET_PASSPHRASE \<and>
    ac_rpc_url c = rpc_url \<and>
    provision ma (ac_cli c) key_file (ac_config_home c) (keys key_file) (snd s) = (Inr (ac_address c), snd s')"
  using assms by (auto simp: attestation_config_def fs_bind_Inr fs_lift_Inr ask_eq required_Inr on_disk_Inr Let_def)

lemma attestation_missing:
  assumes "getenv ''SOROFY_ATTEST'' = Some ''1''"
    and "nm = ''SOROFY_ATTEST_KEY_FILE'' \<or> (nm = ''SOROFY_REGISTRY_CONTRACT_ID'' \<and>
      (\<exists>k. getenv ''SOROFY_ATTEST_KEY_FILE'' = Some k \<and> k \<noteq> []))"
    and "getenv nm = None \<or> getenv nm = Some []"
  shows "fst (attestation_config ma keys getenv db_path rpc_url s) = Inl (''SOROFY_ATTEST=1 needs '' @ nm @ '' to be set'') \<and>
    snd (snd (attestation_config ma keys getenv db_path rpc_url s)) = snd s"
  using assms by (auto simp: attestation_config_def fs_bind_def ask_def required_def fs_lift_def)

text \<open>
  Attestation is opt-in and all or nothing: with any value of SOROFY_ATTEST but "1"
  nothing else is read and no disk is touched; with "1" the start fails on a missing or empty
  setting, naming it and touching nothing, and otherwise succeeds only with a provisioned keystore
  and exactly the settings of the environment or their defaults.
\<close>

theorem attestation_opt_in:
  assumes "attestation_config ma keys getenv db_path rpc_url ([], [disk0]) = (r, (names, ds))"
  shows "(if getenv ''SOROFY_ATTEST'' \<noteq> Some ''1'' then r = Inr None \<and> names = [''SOROFY_ATTEST''] \<and> ds = [disk0]
     else if getenv ''SOROFY_ATTEST_KEY_FILE'' \<in> {None, Some []}
     then r = Inl ''SOROFY_ATTEST=1 needs SOROFY_ATTEST_KEY_FILE to be set'' \<and> ds = [disk0]
     else if getenv ''SOROFY_REGISTRY_CONTRACT_ID'' \<in> {None, Some []}
     then r = Inl ''SOROFY_ATTEST=1 needs SOROFY_REGISTRY_CONTRACT_ID to be set'' \<and> ds = [disk0]
     else \<forall>a. r = Inr a \<longrightarrow> (\<exists>c key_file. a = Some c \<and> getenv ''SOROFY_ATTEST_KEY_FILE'' = Some key_file \<and>
       getenv ''SOROFY_REGISTRY_CONTRACT_ID'' = Some (ac_registry_id c) \<and> ac_rpc_url c = rpc_url \<and>
       ac_cli c = or_default (getenv ''SOROFY_STELLAR_CLI'') ''stellar'' \<and>
       ac_config_home c = or_default (getenv ''SOROFY_ATTEST_CONFIG_HOME'') (db_path @ ''.stellar'') \<and>
       ac_network_passphrase c = or_default (getenv ''SOROFY_NETWORK_PASSPHRASE'') TESTNET_PASSPHRASE \<and>
       provision ma (ac_cli c) key_file (ac_config_home c) (keys key_file) [disk0] = (Inr (ac_address c), ds)))"
proof (cases "getenv ''SOROFY_ATTEST'' = Some ''1''")
  case False
  with assms attestation_off [where getenv = getenv and s = "([], [disk0])"] show ?thesis by simp
next
  case True
  note missing = attestation_missing [where getenv = getenv and s = "([], [disk0])" and ma = ma and keys = keys
      and db_path = db_path and rpc_url = rpc_url, OF True, unfolded assms]
  consider "getenv ''SOROFY_ATTEST_KEY_FILE'' \<in> {None, Some []}"
    | k where "getenv ''SOROFY_ATTEST_KEY_FILE'' = Some k" "k \<noteq> []" "getenv ''SOROFY_REGISTRY_CONTRACT_ID'' \<in> {None, Some []}"
    | "getenv ''SOROFY_ATTEST_KEY_FILE'' \<notin> {None, Some []}" "getenv ''SOROFY_REGISTRY_CONTRACT_ID'' \<notin> {None, Some []}"
    by (cases "getenv ''SOROFY_ATTEST_KEY_FILE''") blast+
  then show ?thesis
  proof cases
    case 1
    with missing [of "''SOROFY_ATTEST_KEY_FILE''"] True show ?thesis by auto
  next
    case (2 k)
    with missing [of "''SOROFY_REGISTRY_CONTRACT_ID''"] True show ?thesis by auto
  next
    case 3
    have "r = Inr a \<Longrightarrow> \<exists>c key_file. a = Some c \<and> getenv ''SOROFY_ATTEST_KEY_FILE'' = Some key_file \<and>
       getenv ''SOROFY_REGISTRY_CONTRACT_ID'' = Some (ac_registry_id c) \<and> ac_rpc_url c = rpc_url \<and>
       ac_cli c = or_default (getenv ''SOROFY_STELLAR_CLI'') ''stellar'' \<and>
       ac_config_home c = or_default (getenv ''SOROFY_ATTEST_CONFIG_HOME'') (db_path @ ''.stellar'') \<and>
       ac_network_passphrase c = or_default (getenv ''SOROFY_NETWORK_PASSPHRASE'') TESTNET_PASSPHRASE \<and>
       provision ma (ac_cli c) key_file (ac_config_home c) (keys key_file) [disk0] = (Inr (ac_address c), ds)" for a
      using attestation_on [where getenv = getenv and s = "([], [disk0])" and s' = "(names, ds)" and r = a
          and ma = ma and keys = keys and db_path = db_path and rpc_url = rpc_url, unfolded prod.sel] True assms by blast
    with 3 True show ?thesis by presburger
  qed
qed

definition demo_settings :: "string \<Rightarrow> string option" where
  "demo_settings = [''SOROFY_ATTEST'' \<mapsto> ''1'', ''SOROFY_ATTEST_KEY_FILE'' \<mapsto> ''key'',
     ''SOROFY_REGISTRY_CONTRACT_ID'' \<mapsto> ''CREG'', ''SOROFY_ATTEST_CONFIG_HOME'' \<mapsto> ''k'']"

definition demo_keys :: "string \<Rightarrow> string + string" where "demo_keys key_file = Inr ''SK ''"

lemma demo_configured:
  "\<exists>c s. attestation_config demo_host demo_keys demo_settings ''sorofy.db'' ''rpc'' ([], [[]]) = (Inr (Some c), s)"
proof -
  obtain ds where "provision demo_host ''stellar'' ''key'' ''k'' (Inr ''SK '') [[]] = (Inr ''GA'', ds)"
    using demo_provision ..
  then show ?thesis
    by (simp add: attestation_config_def fs_bind_def ask_def required_def fs_lift_def on_disk_def demo_settings_def
        demo_keys_def or_default_def Let_def)
qed

theorem attestation_opt_in_witness:
  "\<exists>c s. attestation_config demo_host demo_keys demo_settings ''sorofy.db'' ''rpc'' ([], [[]]) = (Inr (Some c), s) \<and>
    ac_registry_id c = ''CREG'' \<and> ac_cli c = ''stellar'' \<and> ac_config_home c = ''k''"
proof -
  obtain c s where run: "attestation_config demo_host demo_keys demo_settings ''sorofy.db'' ''rpc'' ([], [[]]) =
      (Inr (Some c), (fst s, snd s))" using demo_configured by auto
  from attestation_opt_in [OF run] have "ac_registry_id c = ''CREG'' \<and> ac_cli c = ''stellar'' \<and> ac_config_home c = ''k''"
    by (simp add: demo_settings_def or_default_def)
  with run show ?thesis by (intro exI [of _ c] exI [of _ s]) simp
qed

section \<open>Snapshots restore\<close>

text \<open>A cache that is served is always at the version this build writes.\<close>

lemma start_service_iff:
  "(\<exists>s. start_service now d = Inr s) \<longleftrightarrow> db_version d \<le> length MIGRATIONS"
  by (auto simp: start_service_def migrate_def Let_def rbind_eq_Inr simp del: upt_Suc)

lemma start_version:
  assumes "start_service now d = Inr s"
  shows "schema_version (sv_db s) = length MIGRATIONS"
proof -
  from assms obtain d1 where d1: "migrate d = Inr d1"
    and s: "s = app_state_new (snd (fail_orphaned_pending now ORPHANED_JOB_ERROR d1))"
    by (auto simp: start_service_def rbind_eq_Inr)
  have "db_version d \<le> length MIGRATIONS" using assms start_service_iff by blast
  then consider "db_version d = 0" | "db_version d = 1" | "db_version d = 2"
    by (fastforce simp: MIGRATIONS_def)
  then have "db_version d1 = length MIGRATIONS"
    using d1 by cases (auto simp: migrate_def MIGRATIONS_def apply_migration_def upt_rec)
  then show ?thesis by (simp add: s app_state_new_def fail_orphaned_pending_def schema_version_def)
qed

lemma row_update_version [simp]:
  "schema_version (Db.complete now i st rep d) = schema_version d"
  "schema_version (fail now i e d) = schema_version d"
  by (simp_all add: Db.complete_def fail_def schema_version_def)

lemma enqueue_version [simp]: "schema_version (enqueue l en now ok i rep d) = schema_version d"
  by (simp add: enqueue_def enqueue_attestation_def schema_version_def Let_def split: sum.split)

lemma version_step:
  assumes "service_step su s s'" and "schema_version (sv_db s) = length MIGRATIONS"
  shows "schema_version (sv_db s') = length MIGRATIONS"
  using assms(1)
proof (cases rule: service_step.cases)
  case (Request auth req instant r)
  from admit_changes [OF Request] assms(2) show ?thesis by auto
next
  case (Resolved h rpc hash now db_ok r)
  then show ?thesis using assms(2)
    by (auto simp: accept_job_def release_lookup_def insert_pending_def schema_version_def Let_def
        split: if_splits prod.splits)
next
  case (Done j ended now db_ok att_ok)
  then show ?thesis using assms(2)
    by (simp add: finish_job_def Let_def split: job_end.split)
next
  case (Submitted row cfg now db_ok run recorded d)
  then show ?thesis using assms(2)
    by (auto simp: attempt_def attestation_submitted_def attestation_rejected_def finish_attestation_def
        attestation_retry_later_def schema_version_def Let_def split: sum.splits submit_error.splits if_splits)
next
  case (Restart now)
  then show ?thesis by (blast intro: start_version)
qed (use assms(2) in \<open>simp_all add: release_lookup_def begin_build_def\<close>)

lemma reachable_version: "reachable su s \<Longrightarrow> schema_version (sv_db s) = length MIGRATIONS"
  by (induction rule: reachable.induct) (blast intro: start_version version_step)+

lemma backup_path_inj: "backup_path dir a = backup_path dir b \<longleftrightarrow> a = b"
  by (auto simp: backup_path_def path_join_def dest: show_nat_inj)

text \<open>A turn touches the file of its own second only, and no file that holds anything.\<close>

lemma backup_tick_elsewhere:
  assumes "backup_tick vac dir made stamp d fs = (r, fs')" and "other \<noteq> stamp"
  shows "fs' (backup_path dir other) = fs (backup_path dir other)"
  using assms by (auto simp: backup_tick_def backup_to_def backup_path_inj split: if_splits prod.splits)

lemma is_ok_map_err [simp]: "is_ok (map_err f r) = is_ok r"
  by (cases r) (simp_all add: is_ok_def map_err_def)

lemma vacuum_success:
  assumes "vacuum_documented vac" and "vac d f = (r, f')" and "is_ok r"
  shows "f' = Some (Snapshot d)"
  using assms(1) [unfolded vacuum_documented_def, THEN spec, THEN spec, of d f] assms(2,3) by simp

lemma vacuum_refuses:
  assumes "vacuum_documented vac" and "vac d (Some (Snapshot d0)) = (r, f')"
  shows "\<not> is_ok r \<and> f' = Some (Snapshot d0)"
  using assms(1) [unfolded vacuum_documented_def, THEN spec, THEN spec, of d "Some (Snapshot d0)"] assms(2) by simp

lemma backup_tick_refused:
  assumes "backup_tick vac dir made stamp d fs = (r, fs')" and "vacuum_documented vac"
    and "fs (backup_path dir stamp) = Some (Snapshot d0)"
  shows "\<not> is_ok r" and "fs' = fs"
proof -
  obtain q f where v: "vac d (Some (Snapshot d0)) = (q, f)" by (cases "vac d (Some (Snapshot d0))")
  from vacuum_refuses [OF assms(2) v] assms(1,3) v show "\<not> is_ok r" and "fs' = fs"
    by (auto simp: backup_tick_def backup_to_def split: if_splits)
qed

lemma backup_tick_made:
  assumes "backup_tick vac dir made stamp d fs = (r, fs')" and "vacuum_documented vac" and "is_ok r"
  shows "fs' (backup_path dir stamp) = Some (Snapshot d)"
proof -
  obtain q f where v: "vac d (fs (backup_path dir stamp)) = (q, f)" by (cases "vac d (fs (backup_path dir stamp))")
  from assms(1,3) v have "is_ok q" and "fs' = fs(backup_path dir stamp := f)"
    by (auto simp: backup_tick_def backup_to_def split: if_splits)
  with vacuum_success [OF assms(2) v] show ?thesis by simp
qed

definition backups_ok :: "deployment \<Rightarrow> string \<Rightarrow> snapshots \<Rightarrow> (nat \<times> db option) list \<Rightarrow> bool" where
  "backups_ok su dir fs made_at \<longleftrightarrow>
     distinct (map fst (filter (\<lambda>(_, d). d \<noteq> None) made_at)) \<and>
     (\<forall>stamp d. (stamp, Some d) \<in> set made_at \<longrightarrow> fs (backup_path dir stamp) = Some (Snapshot d) \<and>
        (\<exists>s0. reachable su s0 \<and> sv_db s0 = d)) \<and>
     (\<forall>stamp. stamp \<notin> fst ` set made_at \<longrightarrow> fs (backup_path dir stamp) = None)"

lemma backups_ok_tick:
  assumes "backups_ok su dir fs made_at" and "reachable su s" and "vacuum_documented vac"
    and "backup_tick vac dir made stamp (sv_db s) fs = (r, fs')"
  shows "backups_ok su dir fs' (made_at @ [(stamp, if is_ok r then Some (sv_db s) else None)])"
proof -
  have kept: "fs' (backup_path dir other) = Some (Snapshot d)" if "(other, Some d) \<in> set made_at" for other d
  proof -
    have f: "fs (backup_path dir other) = Some (Snapshot d)" using assms(1) that by (auto simp: backups_ok_def)
    then show ?thesis
      using backup_tick_elsewhere [OF assms(4), of other] backup_tick_refused(2) [OF assms(4,3)] by metis
  qed
  have fresh: "stamp \<notin> fst ` set (filter (\<lambda>(_, d). d \<noteq> None) made_at)" if "is_ok r"
  proof
    assume "stamp \<in> fst ` set (filter (\<lambda>(_, d). d \<noteq> None) made_at)"
    then obtain d where "(stamp, Some d) \<in> set made_at" by auto
    then have "fs (backup_path dir stamp) = Some (Snapshot d)" using assms(1) by (auto simp: backups_ok_def)
    from backup_tick_refused(1) [OF assms(4,3) this] that show False by simp
  qed
  have "fs' (backup_path dir other) = None" if "other \<notin> fst ` set made_at" "other \<noteq> stamp" for other
    using backup_tick_elsewhere [OF assms(4) that(2)] assms(1) that(1) by (simp add: backups_ok_def)
  then show ?thesis
    using assms(1,2) kept fresh backup_tick_made [OF assms(4,3)] by (auto simp: backups_ok_def)
qed

lemma backed_up_ok:
  assumes "backed_up su dir s fs made_at"
  shows "reachable su s \<and> backups_ok su dir fs made_at"
  using assms
proof (induction rule: backed_up.induct)
  case (Begin s fs)
  then show ?case by (simp add: backups_ok_def)
next
  case (Serve s fs made_at s')
  then show ?case by (blast intro: reachable.Step)
next
  case (Tick s fs made_at vac made stamp r fs')
  then show ?case using backups_ok_tick by blast
qed

text \<open>
  Property C39. Every turn of the backup loop that can makes one more restorable snapshot. Whatever the
  service does between the turns, and whatever SQLite does within its documentation, torn files of
  failed and interrupted turns included: what a turn reported as written stays in the directory as
  it was written, the complete cache of a state the service was in, on which a service starts at a
  reachable state; no two reports are about one second; and a turn at a second at which no turn was
  before is never in the way of an earlier one: if the directory is there, its path is UTF-8 and SQLite
  can write, it adds the cache as it is now and changes no other file.
\<close>

theorem backups_restore:
  assumes "backed_up su dir s fs made_at"
  shows "distinct (map fst (filter (\<lambda>(_, d). d \<noteq> None) made_at)) \<and>
    (\<forall>stamp d. (stamp, Some d) \<in> set made_at \<longrightarrow> fs (backup_path dir stamp) = Some (Snapshot d) \<and>
       (\<exists>s0. reachable su s0 \<and> sv_db s0 = d) \<and> (\<exists>s'. start_service now d = Inr s' \<and> reachable su s')) \<and>
    (\<forall>stamp vac. stamp \<notin> fst ` set made_at \<longrightarrow> utf8_valid (backup_path dir stamp) \<longrightarrow>
       vac (sv_db s) None = (Inr (), Some (Snapshot (sv_db s))) \<longrightarrow>
       backup_tick vac dir True stamp (sv_db s) fs =
         (Inr (), fs(backup_path dir stamp \<mapsto> Snapshot (sv_db s))))"
proof -
  have ok: "backups_ok su dir fs made_at" using backed_up_ok [OF assms] ..
  have starts: "\<exists>s'. start_service now d = Inr s' \<and> reachable su s'" if r: "reachable su s0" "sv_db s0 = d" for s0 d
  proof -
    obtain s' where s': "start_service now d = Inr s'"
      using reachable_version [OF r(1)] start_service_iff [of now d] r(2) by (auto simp: schema_version_def)
    then have "reachable su s'" using r by (blast intro: reachable.Step Restart)
    with s' show ?thesis by blast
  qed
  have "backup_tick vac dir True stamp (sv_db s) fs = (Inr (), fs(backup_path dir stamp \<mapsto> Snapshot (sv_db s)))"
    if "stamp \<notin> fst ` set made_at" "utf8_valid (backup_path dir stamp)"
      "vac (sv_db s) None = (Inr (), Some (Snapshot (sv_db s)))" for stamp and vac :: vacuum
  proof -
    have "fs (backup_path dir stamp) = None" using ok that(1) by (simp add: backups_ok_def)
    with that(2,3) show ?thesis by (simp add: backup_tick_def backup_to_def map_err_def)
  qed
  with ok starts show ?thesis unfolding backups_ok_def by blast
qed

definition demo_vacuum :: vacuum where
  "demo_vacuum d f = (if f = None \<or> f = Some Empty_File then (Inr (), Some (Snapshot d)) else (Inl ''exists'', f))"

theorem backups_restore_witness:
  "\<exists>fs s'. fs (backup_path ''b'' 5) = Some (Snapshot (sv_db building)) \<and>
     start_service 9 (sv_db building) = Inr s' \<and> reachable demo_su s' \<and>
     fst (backup_tick demo_vacuum ''b'' True 6 (sv_db building) fs) = Inr ()"
proof -
  define fs where "fs = (\<lambda>_ :: string. None :: snapshot option)(backup_path ''b'' 5 \<mapsto> Snapshot (sv_db building))"
  have doc: "vacuum_documented demo_vacuum"
    by (auto simp: vacuum_documented_def demo_vacuum_def is_ok_def)
  have utf: "utf8_valid (backup_path ''b'' 5)" "utf8_valid (backup_path ''b'' 6)" by code_simp+
  have "backup_tick demo_vacuum ''b'' True 5 (sv_db building) (\<lambda>_. None) = (Inr (), fs)"
    using utf by (simp add: backup_tick_def backup_to_def demo_vacuum_def map_err_def fs_def)
  from backed_up.Tick [OF backed_up.Begin [OF demo_reachable(4)] doc this]
  have run: "backed_up demo_su ''b'' building fs [(5, Some (sv_db building))]" by (simp add: is_ok_def)
  have "demo_vacuum (sv_db building) None = (Inr (), Some (Snapshot (sv_db building)))" by (simp add: demo_vacuum_def)
  with backups_restore [OF run, of 9] utf(2) show ?thesis by (intro exI [of _ fs]) auto
qed

section \<open>What \<open>main\<close> serves\<close>

definition reconciled :: "db \<Rightarrow> db \<Rightarrow> bool" where
  "reconciled d d' \<longleftrightarrow> db_attestations d' = db_attestations d \<and>
     list_all2 (\<lambda>r r'. r' = r \<or> vr_status r = ''pending'' \<and> vr_status r' = ''error'')
       (db_verifications d) (db_verifications d')"

lemma reconciled_refl: "reconciled d d"
  by (simp add: reconciled_def list_all2_same)

lemma reconciled_start:
  assumes "start_service now d = Inr s"
  shows "reconciled d (sv_db s)" and "list_all (\<lambda>r. vr_status r \<noteq> ''pending'') (db_verifications (sv_db s))"
    and "outstanding s = 0"
proof -
  from assms obtain d1 where d1: "migrate d = Inr d1"
    and s: "s = app_state_new (snd (fail_orphaned_pending now ORPHANED_JOB_ERROR d1))"
    by (auto simp: start_service_def rbind_eq_Inr)
  show "reconciled d (sv_db s)"
    using migrate_rows [OF d1]
    by (auto simp: reconciled_def s app_state_new_def fail_orphaned_pending_def update_where_def list_all2_map2 list_all2_same)
  show "list_all (\<lambda>r. vr_status r \<noteq> ''pending'') (db_verifications (sv_db s))"
    by (auto simp: s app_state_new_def fail_orphaned_pending_def update_where_def list_all_iff)
  show "outstanding s = 0" by (simp add: s app_state_new_def outstanding_def)
qed

lemma attestation_iff:
  assumes "attestation_config ma keys getenv db_path rpc_url s = (Inr config, s')"
  shows "config \<noteq> None \<longleftrightarrow> getenv ''SOROFY_ATTEST'' = Some ''1''"
proof (cases "getenv ''SOROFY_ATTEST'' = Some ''1''")
  case True
  with attestation_on [where getenv = getenv, OF True assms] show ?thesis by blast
next
  case False
  with attestation_off [where getenv = getenv, OF False, of ma keys db_path rpc_url s] assms show ?thesis by simp
qed

text \<open>
  Property C38. main serves only after every check: Docker answered, the cache opened at a version this build
  understands, no row is left pending, and the attestation path is on exactly when the flag is "1".
  Whether it serves or refuses, the cache keeps its attestations and every row that was not
  pending.
\<close>

theorem startup_sound:
  "(case opened of Inl _ \<Rightarrow> up_cache (sorofy_main env l dd dn ma keys now w opened disk0) = None \<and>
       (\<exists>e. up_result (sorofy_main env l dd dn ma keys now w opened disk0) = Inl e)
    | Inr d \<Rightarrow> \<exists>d'. up_cache (sorofy_main env l dd dn ma keys now w opened disk0) = Some d' \<and> reconciled d d' \<and>
        (case up_result (sorofy_main env l dd dn ma keys now w opened disk0) of Inl _ \<Rightarrow> True
         | Inr (su, config, s) \<Rightarrow> is_ok (fst (preflight env (autodetect env) w)) \<and> schema_version d \<le> length MIGRATIONS \<and>
             sv_db s = d' \<and> list_all (\<lambda>r. vr_status r \<noteq> ''pending'') (db_verifications d') \<and> outstanding s = 0 \<and>
             su_attesting su = (config \<noteq> None) \<and>
             (config \<noteq> None \<longleftrightarrow> env_var env ''SOROFY_ATTEST'' = Some ''1'') \<and>
             su_api_token su = api_token_from (env_var env ''SOROFY_API_TOKEN'') \<and> su_api_token su \<noteq> Some []))"
proof (cases opened)
  case (Inl e)
  then show ?thesis
    by (auto simp: sorofy_main_def Let_def rbind_simps split: sum.splits)
next
  case (Inr d)
  define st where "st = settings_of (env_var env)"
  have token: "su_api_token (deployment_of st l env dd dn a) = api_token_from (env_var env ''SOROFY_API_TOKEN'')"
    "su_api_token (deployment_of st l env dd dn a) \<noteq> Some []" for a
    by (simp_all add: deployment_of_def st_def settings_of_def api_token_from_def split: option.splits)
  show ?thesis
  proof (cases "is_ok (fst (preflight env (autodetect env) w)) \<and> is_ok (start_service now d)")
    case False
    then show ?thesis using Inr reconciled_refl [of d]
      by (auto simp: sorofy_main_def Let_def rbind_simps is_ok_def split: sum.splits)
  next
    case True
    then obtain u s where u: "fst (preflight env (autodetect env) w) = Inr u" and s: "start_service now d = Inr s"
      by (auto simp: is_ok_def split: sum.splits)
    have ver: "schema_version d \<le> length MIGRATIONS"
      using s start_service_iff by (auto simp: schema_version_def)
    obtain r bt where bt: "attestation_config ma keys (env_var env) (st_db_path st) (st_rpc_url st) ([], [disk0]) = (r, bt)"
      by (metis prod.collapse)
    have run: "sorofy_main env l dd dn ma keys now w (Inr d) disk0 =
        (case r of Inl e \<Rightarrow> \<lparr>up_result = Inl e, up_cache = Some (sv_db s), up_boot = bt\<rparr>
         | Inr config \<Rightarrow> \<lparr>up_result = Inr (deployment_of st l env dd dn (config \<noteq> None), config, s),
             up_cache = Some (sv_db s), up_boot = bt\<rparr>)"
      by (simp add: sorofy_main_def st_def [symmetric] u s bt rbind_simps Let_def split: sum.splits)
    show ?thesis
    proof (cases r)
      case (Inl e)
      then show ?thesis unfolding run \<open>opened = Inr d\<close> using reconciled_start(1) [OF s] by simp
    next
      case r: (Inr config)
      have "su_attesting (deployment_of st l env dd dn (config \<noteq> None)) = (config \<noteq> None)"
        by (simp add: deployment_of_def)
      moreover have "config \<noteq> None \<longleftrightarrow> env_var env ''SOROFY_ATTEST'' = Some ''1''"
        by (rule attestation_iff [OF bt [unfolded r]])
      ultimately show ?thesis
        unfolding run \<open>opened = Inr d\<close> r using reconciled_start [OF s] token ver by (simp add: u is_ok_def)
    qed
  qed
qed

end
