(* ===== verification/Spec2Isabelle.thy ===== *)
theory Spec2Isabelle
  imports OnChain Http Cli Startup
begin

text \<open>
  Sorofy answers one question about a Soroban contract: is the Wasm on chain what its published
  source builds to? This library models its Rust code and proves what makes the answer trustworthy.

  \<^bold>\<open>The program.\<close> A rebuild engine (\<open>crates/verifier-core\<close>) fetches a source under a guard against
  internal addresses, stages it, builds it in a digest-pinned container without network and hashes the
  artifact. A web service (\<open>crates/api\<close>) accepts jobs over HTTP, runs the engine, keeps the results
  in a SQLite cache, and files each result on chain through \<open>stellar-cli\<close> from an outbox. Two
  contracts receive them: the VRFY token (\<open>contracts/vrfy-token\<close>) is staked in the verifier registry
  (\<open>contracts/registry\<close>), which records attestations, derives a verdict from them and slashes
  outvoted dissenters.

  \<^bold>\<open>Theories.\<close>
  \<^item> \<open>Prelude\<close>, \<open>SorobanHost\<close>: results as sums with their rules, sums over maps; addresses, hashes, the
    host context of a call, checked arithmetic (an overflow is a trap, as the contracts are built
    with overflow checks).
  \<^item> \<open>VrfyToken\<close>, \<open>TokenLedger\<close>: every entry point of the token over its storage maps; the ledger
    invariant, who can move a balance, allowances as bounds over runs.
  \<^item> \<open>Tally\<close>, \<open>Registry\<close>, \<open>RegistrySystem\<close>, \<open>RegistryVrfy\<close>, \<open>RegistryProps\<close>: the nested counting loops
    and what they compute; every operation of the registry against a token interface (locale
    \<open>stake_token\<close>); calls, foreign token calls and time as steps; the interface discharged by the
    VRFY token; solvency, slashing, bonding, finality and the meaning of verdicts.
  \<^item> \<open>Text\<close>, \<open>World\<close>: strings as UTF-8 bytes with the standard library's functions on them; computations
    on a history of events, whose environment (processes, HTTP, DNS, files, clock) answers as a
    function of that history.
  \<^item> \<open>DockerCli\<close>, \<open>NetGuard\<close>, \<open>Staging\<close>, \<open>Reproduce\<close>, \<open>ReproduceProps\<close>: \<open>docker.rs\<close>, the URL guard and the
    fetching half of \<open>source.rs\<close>, its staging half, \<open>reproduce.rs\<close>, and the properties of a whole
    reproduction read off its events.
  \<^item> \<open>Db\<close>, \<open>DbProps\<close>: tables as lists of rows in rowid order, one function per SQL statement; the cache as
    one newest-first list, and the jobs it must agree with (locale \<open>job_store\<close>).
  \<^item> \<open>RateLimit\<close>: the token buckets with their eviction.
  \<^item> \<open>ClaimDigest\<close>, \<open>ClaimProps\<close>: the claim layout of \<open>api/src/claim.rs\<close> and of the contract's
    \<open>claim.rs\<close>, its decoding, and the way from a report to a claim.
  \<^item> \<open>Rpc\<close>, \<open>Outbox\<close>, \<open>OutboxProps\<close>, \<open>Keystore\<close>: \<open>rpc.rs\<close>; the outbox worker, its command, classification
    and redaction; the keystore \<open>Signer::provision\<close> builds, disk by disk, with any operation failing.
  \<^item> \<open>Service\<close>, \<open>ServiceProps\<close>, \<open>ServiceRuns\<close>, \<open>Requests\<close>, \<open>Http\<close>: the state of \<open>server.rs\<close> and its
    handlers, \<open>run_job\<close>, and all their interleavings with the worker, failing writes and restarts
    (\<open>service_step\<close>); the invariant; what readers and the chain are promised; the outcomes of a POST;
    router, layers and assets.
  \<^item> \<open>Startup\<close>, \<open>Cli\<close>: \<open>main.rs\<close> up to the listener and its backup loop; \<open>verify-core.rs\<close>.
  \<^item> \<open>OnChain\<close> and this theory: services, registry and everybody else as one network; a verdict read
    back to the build it came from, and an honest majority out of reach of a slash.

  \<^bold>\<open>Correspondence.\<close> Structs are records and enums datatypes under the source's names. Errors are the
  left of a sum, one constructor per variant; a contract call fails with a contract error or a trap.
  Contract amounts are unbounded integers with the 128-bit range checked where the code's arithmetic
  is, ledger numbers naturals checked against 32 bits; metrics and lengths in the claim layout are
  words. A handler that awaits is split at its awaits, so that a step relation can interleave it:
  \<open>admit\<close>, then \<open>accept_job\<close> or \<open>release_lookup\<close>; \<open>begin_build\<close>, then \<open>finish_job\<close>; a worker turn that
  picks a row, then one that records how its command ended. A restart may happen at any state.
  What SQLite, the clock, the CLI or Docker may answer is an argument, and every answer is allowed.

  \<^bold>\<open>Library interfaces.\<close> Third-party code is a parameter: \<open>libs\<close> holds the URL parser, hashing, hex, gzip
  and the tar format, \<open>rpc\<close> the strkey, XDR and HTTP side of the lookup and the end of its thread, \<open>vacuum\<close> SQLite's copying, \<open>token_client\<close> the token the
  registry calls, \<open>machine\<close> the file system and the key checks, \<open>cli\<close> the effect of a command. Where a
  property needs more of them than their type, it says so in a hypothesis (\<open>hex_laws\<close>, \<open>reads_hex\<close>,
  \<open>cli_documented\<close>, \<open>vacuum_documented\<close>), and its witness gives a concrete function that has it.

  \<^bold>\<open>Bounds and fuel.\<close> There is no fuel: redirects are bounded by the code's own limit of hops, all other
  loops recurse on data. The worker's life is a list of turns on a clock that respects its sleeps and
  the command's time limit: a row has ten attempts, and between two attempts lie at most the cap of the
  backoff, two commands and the lags, 421 seconds and three lags; a turn on which SQLite fails costs
  the same. What is queued meanwhile is attempted after older rows that are due.

  \<^bold>\<open>Not modelled.\<close> Logging (\<open>tracing\<close>, \<open>log_requests\<close>) and the signals that end the process, which
  change nothing but when a restart happens. The internals of SQLite, axum, tokio, clap, Docker and the
  Soroban host; storage rent beyond the expiry of allowances. Rounding of \<open>f64\<close>: the rate limiter and
  build times are exact here. What a \<open>create_dir_all\<close> that fails half way leaves, symbolic links on the
  host, and poisoned locks. The steps within the end of \<open>run_job\<close> are one, and so are the insertion of a
  row, its count in the gauge and the start of its job: figures read between them are not those of a state here. The
  explorer's HTML, CSS and JavaScript are bytes; tests, benches and deployment files are left aside.
\<close>

section \<open>From source to verdict\<close>

text \<open>
  Property C1. A verdict on chain was rebuilt off chain. In every state of a network of services and anyone else's
  calls, delays and duplicates included, and granted that the CLI sends what its arguments name: if the registry's verdict on a claim is Verified or Mismatch
  and one of its attesters is an account whose key a service holds, then that service stores a
  verification of that Wasm hash, its engine rebuilt it from the source and image of that row, the
  result was Verified exactly when the verdict is, the hash on chain is the rebuilt one, and the
  claim's digest is the contract's digest of the source and image in the report with the flags built.
\<close>

theorem verdicts_were_rebuilt:
  assumes "network H dep acfg cli cfg T R (now, r, k) svc" and "cli_documented cli account word"
    and "\<And>u. u \<in> H \<Longrightarrow> account (ac_address (acfg u)) = Some u"
    and "\<And>u. u \<in> H \<Longrightarrow> hex_laws (su_libs (dep u)) \<and> reads_hex (su_libs (dep u)) word"
    and "consensus_of env r w d = Inr v" and "v = Verified \<or> v = Mismatch"
    and "att \<in> set (attestations r (w, d))" and "at_verifier att \<in> H"
    and "su = dep (at_verifier att)" and "s = svc (at_verifier att)" and "l = su_libs su"
  shows "\<exists>row rep rq wo wo' src img repo hex. row \<in> set (db_verifications (sv_db s)) \<and>
    word (vr_wasm_hash row) = Some w \<and>
    reproduce (su_env su) l (su_docker su) rq wo = (Inr rep, wo') \<and>
    rq_source rq = vr_source row \<and> rq_bldimg rq = vr_bldimg row \<and>
    (rp_result rep = Result_Verified \<longleftrightarrow> v = Verified) \<and> word (rp_rebuilt rep) = Some (at_rebuilt att) \<and>
    lib_hex l src = lib_lowercase l (rp_source_sha256 rep) \<and>
    rp_bldimg_digest rep = Some (repo @ ''@sha256:'' @ hex) \<and> lib_hex l img = lib_lowercase l hex \<and>
    word (lib_hex l (claim_input_digest (lib_sha256 l) src img (rq_bldopt rq))) = Some d"
proof -
  let ?u = "at_verifier att"
  have "rg_att r ((w, d), ?u) = Some att"
    using attestation_record_sound [OF network_registry [OF assms(1)], of "(w, d)"] assms(7) by blast
  then have "queued account word (acfg ?u) s (Attest_Call ?u w d (at_rebuilt att))"
    using network_record [OF assms(1,2,3,8), of "(w, d)" att] by (simp add: assms(10))
  then obtain a where a: "a \<in> set (db_attestations (sv_db s))"
    and sent: "word (ar_wasm_hash a) = Some w" "word (ar_input_digest a) = Some d"
      "word (ar_rebuilt_hash a) = Some (at_rebuilt att)"
    unfolding queued_def chain_call_invoke by auto
  have s: "reachable su s" using network_services [OF assms(1,8)] by (simp add: assms(9,10))
  have laws: "hex_laws (su_libs su)" and reads: "reads_hex (su_libs su) word" using assms(4,8) by (simp_all add: assms(9))
  have "at_rebuilt att = w \<longleftrightarrow> ar_rebuilt_hash a = ar_wasm_hash a"
    using queued_agrees [OF s laws a reads] sent by simp
  then have verdict: "ar_rebuilt_hash a = ar_wasm_hash a \<longleftrightarrow> v = Verified"
    using verdict_unanimous [OF assms(5,7,6)] by blast
  from attestation_source [OF s laws a] obtain row rep rq wo wo' src img repo hex where
    row: "row \<in> set (db_verifications (sv_db s))" "ar_wasm_hash a = vr_wasm_hash row"
    and run: "reproduce (su_env su) l (su_docker su) rq wo = (Inr rep, wo')"
      "rq_source rq = vr_source row" "rq_bldimg rq = vr_bldimg row"
    and out: "ar_rebuilt_hash a = rp_rebuilt rep" "ar_rebuilt_hash a = ar_wasm_hash a \<longleftrightarrow> rp_result rep = Result_Verified"
    and dig: "lib_hex l src = lib_lowercase l (rp_source_sha256 rep)" "rp_bldimg_digest rep = Some (repo @ ''@sha256:'' @ hex)"
      "lib_hex l img = lib_lowercase l hex" "ar_input_digest a = lib_hex l (input_digest l src img (rq_bldopt rq))"
    unfolding assms(11) by blast
  from dig(4) sent(2) have "word (lib_hex l (claim_input_digest (lib_sha256 l) src img (rq_bldopt rq))) = Some d"
    by (simp add: digest_layouts)
  with row run out dig(1-3) sent verdict show ?thesis by metis
qed

theorem verdicts_were_rebuilt_witness:
  "\<exists>w d r k s rq rep wo wo'. demo_network (22, r, k) (\<lambda>_. s) \<and> consensus_of (demo_ctx 22 {}) r w d = Inr Verified \<and>
     reproduce demo_machine hex_libs docker_local rq wo = (Inr rep, wo') \<and> rp_result rep = Result_Verified \<and>
     chain_hash hex_libs (rp_rebuilt rep) = Some w"
proof -
  obtain s a w d where s: "reachable demo_su s" and a: "db_attestations (sv_db s) = [a]"
    and call: "\<forall>u \<in> {1, 2}. demo_cli (invoke_command (demo_acfg u) a) = Some (Attest_Call u w d w)"
    using demo_queue by blast
  have queue: "a \<in> set (db_attestations (sv_db s))" by (simp add: a)
  obtain r k where net: "demo_network (22, r, k) (\<lambda>_. s)"
    and reg: "rg_config r = Some demo_cfg" "rg_opened r (w, d) = Some 12"
      "read_attestations r (w, d) = [demo_att 1 w 12, demo_att 3 w 12, demo_att 2 w 12]"
    using demo_filed [OF s queue call, of w] by blast
  have con: "consensus_of (demo_ctx 22 {}) r w d = Inr Verified" by (rule unanimous_verdict [OF reg])
  have att: "demo_att 2 w 12 \<in> set (attestations r (w, d))" by (simp add: attestations_def reg(3))
  have laws: "hex_laws (su_libs demo_su) \<and> reads_hex (su_libs demo_su) (chain_hash hex_libs)"
    using hex_libs_laws chain_hash_reads [OF hex_libs_laws] by (simp add: demo_su_def)
  have su: "su_libs demo_su = hex_libs" "su_env demo_su = demo_machine" "su_docker demo_su = docker_local"
    by (simp_all add: demo_su_def)
  have two: "at_verifier (demo_att 2 w 12) \<in> {1, 2}" "at_rebuilt (demo_att 2 w 12) = w" by (simp_all add: demo_att_def)
  from verdicts_were_rebuilt [OF net demo_cli_documented demo_addresses laws con disjI1 [OF HOL.refl] att two(1)
      HOL.refl HOL.refl HOL.refl] obtain rq rep wo wo' where
    "reproduce demo_machine hex_libs docker_local rq wo = (Inr rep, wo')" "rp_result rep = Result_Verified"
    "chain_hash hex_libs (rp_rebuilt rep) = Some w"
    unfolding su two(2) by blast
  with net con show ?thesis by blast
qed

text \<open>
  Property C2. An honest majority is never slashed. In every state of the network: if more than half of a claim's
  attesters are accounts whose keys services hold, and the builds of that claim which these services
  queued gave one hash, then no slash of any of these accounts on that claim succeeds, whoever calls.
\<close>

theorem honest_majority_unslashed:
  assumes "network H dep acfg cli cfg T R (now, r, k) svc" and "cli_documented cli account word"
    and "\<And>u. u \<in> H \<Longrightarrow> account (ac_address (acfg u)) = Some u"
    and "builds_agree word H svc d" and "v \<in> H"
    and "length (attestations r (w, d)) < 2 * length (filter (\<lambda>a. at_verifier a \<in> H) (attestations r (w, d)))"
  shows "\<not> is_ok (slash (vrfy_client T) env (r, k) w d v)"
proof
  assume "is_ok (slash (vrfy_client T) env (r, k) w d v)"
  then obtain n r' k' where ok: "slash (vrfy_client T) env (r, k) w d v = Inr (n, r', k')"
    by (auto simp: is_ok_iff)
  then obtain att where att: "rg_att r ((w, d), v) = Some att" by (rule slash_Inr)
  note sound = attestation_record_sound [OF network_registry [OF assms(1)], of "(w, d)"]
  have mine: "att \<in> set (attestations r (w, d))" using sound att by blast
  with sound have "rg_att r ((w, d), at_verifier att) = Some att" by blast
  moreover have "at_verifier att = v"
    using sys_invD(8) [OF vrfy_reachable_inv [OF network_registry [OF assms(1)]], of "(w, d)"] att
    by (auto simp: claim_ok_def split: option.splits)
  ultimately have "at_rebuilt x = at_rebuilt att" if "x \<in> set (attestations r (w, d))" "at_verifier x \<in> H" for x
    using honest_votes_agree [OF assms(1-4) that mine] assms(5) by simp
  with majority_not_slashed [OF ok att, of "\<lambda>a. at_verifier a \<in> H"] assms(6) show False by simp
qed

theorem honest_majority_unslashed_witness:
  "\<exists>w d r k s. demo_network (22, r, k) (\<lambda>_. s) \<and> outvoted demo_cfg 22 r (w, d) 3 \<and>
     \<not> is_ok (slash (vrfy_client 60) (demo_ctx 22 {}) (r, k) w d 2)"
proof -
  obtain s a w d where s: "reachable demo_su s" and a: "db_attestations (sv_db s) = [a]"
    and call: "\<forall>u \<in> {1, 2}. demo_cli (invoke_command (demo_acfg u) a) = Some (Attest_Call u w d w)"
    using demo_queue by blast
  have queue: "a \<in> set (db_attestations (sv_db s))" by (simp add: a)
  obtain r k where net: "demo_network (22, r, k) (\<lambda>_. s)"
    and reg: "rg_config r = Some demo_cfg" "rg_opened r (w, d) = Some 12"
      "read_attestations r (w, d) = [demo_att 1 w 12, demo_att 3 (w + 1) 12, demo_att 2 w 12]"
      "rg_att r ((w, d), 3) = Some (demo_att 3 (w + 1) 12)"
    using demo_filed [OF s queue call, of "w + 1"] by auto
  have agree: "builds_agree (chain_hash hex_libs) {1, 2} (\<lambda>_. s) d" by (simp add: builds_agree_def a)
  have major: "length (attestations r (w, d)) < 2 * length (filter (\<lambda>a. at_verifier a \<in> {1, 2}) (attestations r (w, d)))"
    by (simp add: attestations_def reg(3) demo_att_def)
  have "outvoted demo_cfg 22 r (w, d) 3"
    unfolding outvoted_def using reg by (auto simp: demo_cfg_def hashes_def demo_att_def intro!: exI [of _ w])
  moreover have "\<not> is_ok (slash (vrfy_client 60) (demo_ctx 22 {}) (r, k) w d 2)"
    by (rule honest_majority_unslashed [OF net demo_cli_documented demo_addresses agree _ major]) simp_all
  ultimately show ?thesis using net by blast
qed

end
